(* ===== verification/Rust_Prelude.thy ===== *)
theory Rust_Prelude
  imports Main "HOL-Library.Word" "HOL-Library.AList" "HOL-Library.Multiset"
begin

text \<open>
  Shared vocabulary of the development: the machine integers of the Rust sources, their
  saturating and checked operations, panics as values, hash maps as association lists,
  hash sets and ordered sets as lists, and the list operations of \<^verbatim>\<open>Vec\<close> that the
  components use (\<^verbatim>\<open>pop\<close>, \<^verbatim>\<open>swap_remove\<close>, \<^verbatim>\<open>position\<close>).

  A Rust \<^verbatim>\<open>HashMap\<close> is an association list read by \<^const>\<open>map_of\<close> and
  written by \<^const>\<open>AList.update\<close> and \<^const>\<open>AList.delete\<close>. The order in
  which Rust iterates over a hash table is unspecified: every definition that iterates over
  one takes the order as an argument \<open>it\<close>, and the theorems hold for every
  \<open>it\<close> that returns a permutation of its argument (\<open>iteration_order\<close>).
\<close>

named_theorems rust_simps \<open>evaluation rules of the Rust vocabulary\<close>
named_theorems hm_simps \<open>lookup rules of hash maps\<close>

subsection \<open>Machine integers\<close>

type_synonym u8 = "8 word"
type_synonym u32 = "32 word"
type_synonym u64 = "64 word"
type_synonym u128 = "128 word"
type_synonym u256 = "256 word"
type_synonym B256 = "256 word"

definition saturating_add :: "'a::len word \<Rightarrow> 'a word \<Rightarrow> 'a word" where
  "saturating_add a b = (if unat a + unat b < 2 ^ LENGTH('a) then a + b else - 1)"

definition saturating_sub :: "'a::len word \<Rightarrow> 'a word \<Rightarrow> 'a word" where
  "saturating_sub a b = (if b \<le> a then a - b else 0)"

definition saturating_mul :: "'a::len word \<Rightarrow> 'a word \<Rightarrow> 'a word" where
  "saturating_mul a b = (if unat a * unat b < 2 ^ LENGTH('a) then a * b else - 1)"

lemma unat_minus_one_word_max: "unat (- 1 :: 'a::len word) = 2 ^ LENGTH('a) - 1"
  by (simp add: unsigned_minus_1_eq_mask mask_eq_exp_minus_1)

lemma unat_saturating_add:
  "unat (saturating_add a b :: 'a::len word) = min (unat a + unat b) (2 ^ LENGTH('a) - 1)"
  by (simp add: saturating_add_def unat_minus_one_word_max unat_word_ariths)

lemma unat_saturating_sub: "unat (saturating_sub a b) = unat a - unat b"
  by (auto simp: saturating_sub_def unat_sub word_le_nat_alt)

lemma unat_saturating_mul:
  "unat (saturating_mul a b :: 'a::len word) = min (unat a * unat b) (2 ^ LENGTH('a) - 1)"
  by (simp add: saturating_mul_def unat_minus_one_word_max unat_word_ariths)

lemma le_saturating_add: "a \<le> saturating_add a (b :: 'a::len word)"
proof -
  have "unat a < 2 ^ LENGTH('a)" by (rule unsigned_less)
  then have "unat a \<le> 2 ^ LENGTH('a) - 1" by linarith
  then show ?thesis by (simp add: word_le_nat_alt unat_saturating_add)
qed

lemma saturating_sub_le: "saturating_sub a b \<le> (a :: 'a::len word)"
  by (simp add: word_le_nat_alt unat_saturating_sub)

lemma unat_ucast_up:
  "LENGTH('a) \<le> LENGTH('b) \<Longrightarrow> unat (ucast (x :: 'a::len word) :: 'b::len word) = unat x"
  by (simp add: unsigned_ucast_eq take_bit_nat_eq_self_iff)
     (meson le_trans less_le_trans unsigned_less power_increasing one_le_numeral)

lemma unat_ucast_down:
  "unat x < 2 ^ LENGTH('b) \<Longrightarrow> unat (ucast (x :: 'a::len word) :: 'b::len word) = unat x"
  by (simp add: unsigned_ucast_eq take_bit_nat_eq_self_iff)

subsection \<open>Panics\<close>

text \<open>A computation either returns or panics with a message.\<close>

datatype 'a rust = Ret 'a | Panic string

fun rbind :: "'a rust \<Rightarrow> ('a \<Rightarrow> 'b rust) \<Rightarrow> 'b rust" where
  "rbind (Ret x) f = f x"
| "rbind (Panic msg) f = Panic msg"

definition rassert :: "bool \<Rightarrow> string \<Rightarrow> 'a rust \<Rightarrow> 'a rust" where
  "rassert b msg k = (if b then k else Panic msg)"

fun rexpect :: "'a option \<Rightarrow> string \<Rightarrow> 'a rust" where
  "rexpect (Some x) msg = Ret x"
| "rexpect None msg = Panic msg"

fun is_ret :: "'a rust \<Rightarrow> bool" where
  "is_ret (Ret x) = True"
| "is_ret (Panic msg) = False"

text \<open>The operator \<^verbatim>\<open>?\<close> of a computation that may also fail with an error.\<close>

definition rtry :: "('e + 'a) rust \<Rightarrow> ('a \<Rightarrow> ('e + 'b) rust) \<Rightarrow> ('e + 'b) rust" where
  "rtry m f = rbind m (\<lambda>r. case r of Inl e \<Rightarrow> Ret (Inl e) | Inr x \<Rightarrow> f x)"

declare rassert_def [rust_simps]

lemma rtry_simps [rust_simps, simp]:
  "rtry (Ret (Inr x)) f = f x"
  "rtry (Ret (Inl e)) f = Ret (Inl e)"
  "rtry (Panic msg) f = Panic msg"
  by (simp_all add: rtry_def)

lemma rtry_Ret_Inr_iff: "rtry m f = Ret (Inr y) \<longleftrightarrow> (\<exists>x. m = Ret (Inr x) \<and> f x = Ret (Inr y))"
  by (cases m) (auto simp: rtry_def split: sum.split)

lemma rtry_Ret_Inl_iff:
  "rtry m f = Ret (Inl e) \<longleftrightarrow> m = Ret (Inl e) \<or> (\<exists>x. m = Ret (Inr x) \<and> f x = Ret (Inl e))"
  by (cases m) (auto simp: rtry_def split: sum.split)

lemma rbind_cong [fundef_cong]:
  "m = m' \<Longrightarrow> (\<And>x. m' = Ret x \<Longrightarrow> f x = f' x) \<Longrightarrow> rbind m f = rbind m' f'"
  by (cases m') auto

lemma rassert_cong [fundef_cong]:
  "b = b' \<Longrightarrow> msg = msg' \<Longrightarrow> (b' \<Longrightarrow> k = k') \<Longrightarrow> rassert b msg k = rassert b' msg' k'"
  by (simp add: rassert_def)

lemma rbind_Ret_iff: "rbind m f = Ret y \<longleftrightarrow> (\<exists>x. m = Ret x \<and> f x = Ret y)"
  by (cases m) auto

lemma rbind_RetE:
  assumes "rbind m f = Ret y"
  obtains x where "m = Ret x" "f x = Ret y"
  using assms by (cases m) auto

lemma rassert_Ret_iff: "rassert b msg k = Ret y \<longleftrightarrow> b \<and> k = Ret y"
  by (simp add: rassert_def)

lemma rexpect_Ret_iff [simp]: "rexpect m msg = Ret x \<longleftrightarrow> m = Some x"
  by (cases m) auto

lemma is_ret_iff: "is_ret m \<longleftrightarrow> (\<exists>x. m = Ret x)"
  by (cases m) auto

lemmas ret_iffs = rbind_Ret_iff rassert_Ret_iff

subsection \<open>Hash maps\<close>

type_synonym ('k, 'v) hmap = "('k \<times> 'v) list"

abbreviation hm_get :: "('k, 'v) hmap \<Rightarrow> 'k \<Rightarrow> 'v option" where
  "hm_get \<equiv> map_of"

abbreviation hm_insert :: "'k \<Rightarrow> 'v \<Rightarrow> ('k, 'v) hmap \<Rightarrow> ('k, 'v) hmap" where
  "hm_insert \<equiv> AList.update"

abbreviation hm_remove :: "'k \<Rightarrow> ('k, 'v) hmap \<Rightarrow> ('k, 'v) hmap" where
  "hm_remove \<equiv> AList.delete"

abbreviation hm_keys :: "('k, 'v) hmap \<Rightarrow> 'k list" where
  "hm_keys m \<equiv> map fst m"

definition hm_contains :: "('k, 'v) hmap \<Rightarrow> 'k \<Rightarrow> bool" where
  "hm_contains m k = (hm_get m k \<noteq> None)"

definition hm_wf :: "('k, 'v) hmap \<Rightarrow> bool" where
  "hm_wf m = distinct (hm_keys m)"

lemma hm_get_insert [hm_simps]: "hm_get (hm_insert k v m) = (hm_get m)(k \<mapsto> v)"
  by (rule update_conv')

lemma hm_get_remove [hm_simps]: "hm_get (hm_remove k m) = (hm_get m)(k := None)"
  by (rule delete_conv')

lemma hm_contains_iff: "hm_contains m k \<longleftrightarrow> k \<in> set (hm_keys m)"
  by (simp add: hm_contains_def map_of_eq_None_iff)

lemma hm_wf_Nil [simp]: "hm_wf []"
  by (simp add: hm_wf_def)

lemma hm_wf_insert [simp, intro]: "hm_wf m \<Longrightarrow> hm_wf (hm_insert k v m)"
  by (simp add: hm_wf_def distinct_update)

lemma hm_wf_remove [simp, intro]: "hm_wf m \<Longrightarrow> hm_wf (hm_remove k m)"
  by (simp add: hm_wf_def distinct_delete)

lemma length_hm_remove_less:
  "hm_get m k \<noteq> None \<Longrightarrow> length (hm_remove k m) < length m"
proof (induction m)
  case Nil
  then show ?case by simp
next
  case (Cons p m)
  then show ?case
    using length_delete_le [of k m] by (cases p) (auto split: if_splits)
qed

lemma length_hm_remove: "hm_wf m \<Longrightarrow> hm_get m k \<noteq> None \<Longrightarrow> Suc (length (hm_remove k m)) = length m"
proof (induction m)
  case Nil
  then show ?case by simp
next
  case (Cons p m)
  obtain a b where p: "p = (a, b)" by (cases p)
  from Cons.prems show ?case
    using Cons.IH by (cases "a = k") (auto simp: p hm_wf_def delete_id image_iff)
qed

lemma length_hm_insert_present:
  "hm_get m k \<noteq> None \<Longrightarrow> length (hm_insert k v m) = length m"
  by (induction m) (auto split: if_splits)

lemma length_hm_insert_le: "length (hm_insert k v m) \<le> Suc (length m)"
  by (induction m) auto

subsection \<open>Iteration order of hash tables\<close>

definition iteration_order :: "('a list \<Rightarrow> 'a list) \<Rightarrow> bool" where
  "iteration_order it = (\<forall>xs. mset (it xs) = mset xs)"

lemma iteration_order_set: "iteration_order it \<Longrightarrow> set (it xs) = set xs"
  unfolding iteration_order_def by (metis set_mset_mset)

lemma iteration_order_distinct: "iteration_order it \<Longrightarrow> distinct (it xs) = distinct xs"
  unfolding iteration_order_def by (metis mset_eq_imp_distinct_iff)

lemma iteration_order_length: "iteration_order it \<Longrightarrow> length (it xs) = length xs"
  unfolding iteration_order_def by (metis size_mset)

lemma iteration_order_id [simp]: "iteration_order id" "iteration_order (\<lambda>xs. xs)"
  by (simp_all add: iteration_order_def)

lemma iteration_order_rev [simp]: "iteration_order rev"
  by (simp add: iteration_order_def)

subsection \<open>Hash sets and vectors\<close>

definition hs_insert :: "'a \<Rightarrow> 'a list \<Rightarrow> 'a list" where
  "hs_insert x xs = (if x \<in> set xs then xs else x # xs)"

definition hs_remove :: "'a \<Rightarrow> 'a list \<Rightarrow> 'a list" where
  "hs_remove x xs = removeAll x xs"

lemma set_hs_insert [simp]: "set (hs_insert x xs) = insert x (set xs)"
  by (auto simp: hs_insert_def)

lemma distinct_hs_insert [simp]: "distinct (hs_insert x xs) = distinct xs"
  by (simp add: hs_insert_def)

lemma set_hs_remove [simp]: "set (hs_remove x xs) = set xs - {x}"
  by (simp add: hs_remove_def)

lemma distinct_hs_remove [simp]: "distinct xs \<Longrightarrow> distinct (hs_remove x xs)"
  by (simp add: hs_remove_def distinct_removeAll)

text \<open>\<^verbatim>\<open>Iterator::position\<close>: the index of the first element satisfying the predicate.\<close>

fun position :: "('a \<Rightarrow> bool) \<Rightarrow> 'a list \<Rightarrow> nat option" where
  "position p [] = None"
| "position p (x # xs) = (if p x then Some 0 else map_option Suc (position p xs))"

lemma position_Some_less: "position p xs = Some i \<Longrightarrow> i < length xs \<and> p (xs ! i)"
  by (induction xs arbitrary: i) (auto split: if_splits)

lemma position_None_iff: "position p xs = None \<longleftrightarrow> (\<forall>x \<in> set xs. \<not> p x)"
  by (induction xs) auto

text \<open>\<^verbatim>\<open>Vec::swap_remove\<close>: the element at the index is replaced by the last one.\<close>

definition swap_remove :: "nat \<Rightarrow> 'a list \<Rightarrow> 'a list" where
  "swap_remove i xs =
     (if i = length xs - 1 then butlast xs else (butlast xs)[i := last xs])"

lemma mset_swap_remove:
  assumes "i < length xs"
  shows "mset (swap_remove i xs) = mset xs - {#xs ! i#}"
proof -
  from assms have ne: "xs \<noteq> []" by auto
  then obtain ys y where xs: "xs = ys @ [y]" by (cases xs rule: rev_cases) auto
  show ?thesis
  proof (cases "i = length ys")
    case True
    then show ?thesis by (simp add: swap_remove_def xs)
  next
    case False
    with assms xs have i: "i < length ys" by simp
    then have "mset (ys[i := y]) = add_mset y (mset ys - {#ys ! i#})"
      by (rule mset_update)
    moreover have "ys ! i \<in># mset ys" using i by simp
    ultimately show ?thesis
      using i by (simp add: swap_remove_def xs nth_append)
  qed
qed

lemma set_swap_remove_subset: "i < length xs \<Longrightarrow> set (swap_remove i xs) \<subseteq> set xs"
  by (metis in_diffD mset_swap_remove set_mset_mset subsetI)

lemma length_swap_remove: "i < length xs \<Longrightarrow> length (swap_remove i xs) = length xs - 1"
  by (simp add: swap_remove_def)

text \<open>\<^verbatim>\<open>Vec::pop\<close>\<close>

definition vec_pop :: "'a list \<Rightarrow> ('a \<times> 'a list) option" where
  "vec_pop xs = (if xs = [] then None else Some (last xs, butlast xs))"

lemma vec_pop_None [simp]: "vec_pop xs = None \<longleftrightarrow> xs = []"
  by (simp add: vec_pop_def)

lemma vec_pop_Nil [simp]: "vec_pop [] = None"
  by simp

lemma vec_pop_snoc [simp]: "vec_pop (xs @ [x]) = Some (x, xs)"
  by (simp add: vec_pop_def)

lemma vec_pop_SomeD: "vec_pop xs = Some (x, ys) \<Longrightarrow> xs = ys @ [x]"
  by (auto simp: vec_pop_def split: if_splits)

subsection \<open>Interfaces shared by the components\<close>

text \<open>
  A store with keys: what a lookup returns after a write and after a removal. Its clients
  write or remove a list of keys in a loop.
\<close>

locale keyed_store =
  fixes get :: "'m \<Rightarrow> 'k \<Rightarrow> 'v option"
    and put :: "'k \<Rightarrow> 'v \<Rightarrow> 'm \<Rightarrow> 'm"
    and del :: "'k \<Rightarrow> 'm \<Rightarrow> 'm"
  assumes get_put: "get (put k v m) = (get m)(k \<mapsto> v)"
    and get_del: "get (del k m) = (get m)(k := None)"
begin

lemma fold_del: "get (fold del ks m) k = (if k \<in> set ks then None else get m k)"
  by (induction ks arbitrary: m) (auto simp: get_del)

lemma fold_put: "get (fold (\<lambda>k. put k (f k)) ks m) k = (if k \<in> set ks then Some (f k) else get m k)"
  by (induction ks arbitrary: m) (auto simp: get_put)

lemma put_twice: "get (put k w (put k v m)) = get (put k w m)"
  by (simp add: get_put)

lemma del_put: "get (del k (put k v m)) = get (del k m)"
  by (simp add: get_put get_del)

lemma put_other: "k \<noteq> l \<Longrightarrow> get (put k v m) l = get m l"
  by (simp add: get_put)

end

interpretation hm: keyed_store hm_get hm_insert hm_remove
  by unfold_locales (simp_all add: hm_simps)

text \<open>
  A system of states and steps with an invariant: it holds in every state that is
  reachable from an initial one, and so does all that it implies.
\<close>

locale invariant_system =
  fixes init :: "'s \<Rightarrow> bool"
    and step :: "'s \<Rightarrow> 's \<Rightarrow> bool"
    and inv :: "'s \<Rightarrow> bool"
  assumes init_inv: "init s \<Longrightarrow> inv s"
    and step_inv: "inv s \<Longrightarrow> step s s' \<Longrightarrow> inv s'"
begin

lemma steps_inv: "step\<^sup>*\<^sup>* s s' \<Longrightarrow> inv s \<Longrightarrow> inv s'"
  by (induction rule: rtranclp_induct) (auto intro: step_inv)

lemma reachable_inv: "init s \<Longrightarrow> step\<^sup>*\<^sup>* s s' \<Longrightarrow> inv s'"
  using steps_inv init_inv by blast

end

end
