(* ===== verification/Typed_Transaction.thy ===== *)
theory Typed_Transaction
  imports Rust_Prelude
begin

text \<open>
  The transactions the node handles: \<^verbatim>\<open>anvil/core/src/eth/transaction/mod.rs\<close>
  (\<open>TypedTransaction\<close>, its accessors, \<open>essentials\<close>, \<open>max_cost\<close>, the conversion to
  the EVM environment and the typing of transaction requests) and
  \<^verbatim>\<open>optimism.rs\<close> (the op-stack deposit transaction). The transaction bodies of the
  consensus library are records of their fields; a signed transaction carries its signature
  and its hash. The blob gas of an EIP-4844 body is computed by that library and is the
  parameter \<open>blob_gas_of\<close>.
\<close>

subsection \<open>Transaction bodies\<close>

type_synonym address = "u8 list"
type_synonym bytes = "u8 list"
type_synonym access_list = "(address \<times> B256 list) list"

datatype TxKind = Create | Call address

fun kind_to :: "TxKind \<Rightarrow> address option" where
  "kind_to Create = None"
| "kind_to (Call a) = Some a"

record TxLegacy =
  l_chain_id :: "u64 option"
  l_nonce :: u64
  l_gas_price :: u128
  l_gas_limit :: u64
  l_to :: TxKind
  l_value :: u256
  l_input :: bytes

record TxEip2930 =
  a_chain_id :: u64
  a_nonce :: u64
  a_gas_price :: u128
  a_gas_limit :: u64
  a_to :: TxKind
  a_value :: u256
  a_access_list :: access_list
  a_input :: bytes

record TxEip1559 =
  f_chain_id :: u64
  f_nonce :: u64
  f_gas_limit :: u64
  f_max_fee_per_gas :: u128
  f_max_priority_fee_per_gas :: u128
  f_to :: TxKind
  f_value :: u256
  f_access_list :: access_list
  f_input :: bytes

record TxEip4844 =
  b_chain_id :: u64
  b_nonce :: u64
  b_gas_limit :: u64
  b_max_fee_per_gas :: u128
  b_max_priority_fee_per_gas :: u128
  b_to :: address
  b_value :: u256
  b_access_list :: access_list
  b_blob_versioned_hashes :: "B256 list"
  b_max_fee_per_blob_gas :: u128
  b_input :: bytes

record TxEip7702 =
  d_chain_id :: u64
  d_nonce :: u64
  d_gas_limit :: u64
  d_max_fee_per_gas :: u128
  d_max_priority_fee_per_gas :: u128
  d_to :: address
  d_value :: u256
  d_access_list :: access_list
  d_authorization_list :: "bytes list"
  d_input :: bytes

record DepositTransaction =
  dep_nonce :: u64
  dep_source_hash :: B256
  dep_from :: address
  dep_kind :: TxKind
  dep_mint :: u256
  dep_value :: u256
  dep_gas_limit :: u64
  dep_is_system_tx :: bool
  dep_input :: bytes

definition dep_chain_id :: "DepositTransaction \<Rightarrow> u64 option" where
  "dep_chain_id t = None"

record 't signed =
  sg_tx :: 't
  sg_signature :: bytes
  sg_hash :: B256

datatype TypedTransaction =
    Legacy "TxLegacy signed"
  | EIP2930 "TxEip2930 signed"
  | EIP1559 "TxEip1559 signed"
  | EIP4844 "TxEip4844 signed"
  | EIP7702 "TxEip7702 signed"
  | Deposit DepositTransaction

subsection \<open>Accessors\<close>

fun is_dynamic_fee :: "TypedTransaction \<Rightarrow> bool" where
  "is_dynamic_fee (EIP1559 _) = True"
| "is_dynamic_fee (EIP4844 _) = True"
| "is_dynamic_fee (EIP7702 _) = True"
| "is_dynamic_fee _ = False"

fun gas_price :: "TypedTransaction \<Rightarrow> u128" where
  "gas_price (Legacy tx) = l_gas_price (sg_tx tx)"
| "gas_price (EIP2930 tx) = a_gas_price (sg_tx tx)"
| "gas_price (EIP1559 tx) = f_max_fee_per_gas (sg_tx tx)"
| "gas_price (EIP4844 tx) = b_max_fee_per_gas (sg_tx tx)"
| "gas_price (EIP7702 tx) = d_max_fee_per_gas (sg_tx tx)"
| "gas_price (Deposit _) = 0"

fun gas_limit :: "TypedTransaction \<Rightarrow> u64" where
  "gas_limit (Legacy tx) = l_gas_limit (sg_tx tx)"
| "gas_limit (EIP2930 tx) = a_gas_limit (sg_tx tx)"
| "gas_limit (EIP1559 tx) = f_gas_limit (sg_tx tx)"
| "gas_limit (EIP4844 tx) = b_gas_limit (sg_tx tx)"
| "gas_limit (EIP7702 tx) = d_gas_limit (sg_tx tx)"
| "gas_limit (Deposit tx) = dep_gas_limit tx"

fun tx_value :: "TypedTransaction \<Rightarrow> u256" where
  "tx_value (Legacy tx) = l_value (sg_tx tx)"
| "tx_value (EIP2930 tx) = a_value (sg_tx tx)"
| "tx_value (EIP1559 tx) = f_value (sg_tx tx)"
| "tx_value (EIP4844 tx) = b_value (sg_tx tx)"
| "tx_value (EIP7702 tx) = d_value (sg_tx tx)"
| "tx_value (Deposit tx) = dep_value tx"

fun tx_data :: "TypedTransaction \<Rightarrow> bytes" where
  "tx_data (Legacy tx) = l_input (sg_tx tx)"
| "tx_data (EIP2930 tx) = a_input (sg_tx tx)"
| "tx_data (EIP1559 tx) = f_input (sg_tx tx)"
| "tx_data (EIP4844 tx) = b_input (sg_tx tx)"
| "tx_data (EIP7702 tx) = d_input (sg_tx tx)"
| "tx_data (Deposit tx) = dep_input tx"

fun tx_type :: "TypedTransaction \<Rightarrow> u8 option" where
  "tx_type (Legacy _) = None"
| "tx_type (EIP2930 _) = Some 1"
| "tx_type (EIP1559 _) = Some 2"
| "tx_type (EIP4844 _) = Some 3"
| "tx_type (EIP7702 _) = Some 4"
| "tx_type (Deposit _) = Some 126"

fun is_legacy :: "TypedTransaction \<Rightarrow> bool" where
  "is_legacy (Legacy _) = True"
| "is_legacy _ = False"

fun is_eip1559 :: "TypedTransaction \<Rightarrow> bool" where
  "is_eip1559 (EIP1559 _) = True"
| "is_eip1559 _ = False"

fun is_eip2930 :: "TypedTransaction \<Rightarrow> bool" where
  "is_eip2930 (EIP2930 _) = True"
| "is_eip2930 _ = False"

fun is_eip4844 :: "TypedTransaction \<Rightarrow> bool" where
  "is_eip4844 (EIP4844 _) = True"
| "is_eip4844 _ = False"

fun is_deposit :: "TypedTransaction \<Rightarrow> bool" where
  "is_deposit (Deposit _) = True"
| "is_deposit _ = False"

fun as_legacy :: "TypedTransaction \<Rightarrow> TxLegacy signed option" where
  "as_legacy (Legacy tx) = Some tx"
| "as_legacy _ = None"

fun blob_gas :: "(TxEip4844 \<Rightarrow> u64) \<Rightarrow> TypedTransaction \<Rightarrow> u64 option" where
  "blob_gas blob_gas_of (EIP4844 tx) = Some (blob_gas_of (sg_tx tx))"
| "blob_gas blob_gas_of _ = None"

fun max_fee_per_blob_gas :: "TypedTransaction \<Rightarrow> u128 option" where
  "max_fee_per_blob_gas (EIP4844 tx) = Some (b_max_fee_per_blob_gas (sg_tx tx))"
| "max_fee_per_blob_gas _ = None"

fun tx_nonce :: "TypedTransaction \<Rightarrow> u64" where
  "tx_nonce (Legacy t) = l_nonce (sg_tx t)"
| "tx_nonce (EIP2930 t) = a_nonce (sg_tx t)"
| "tx_nonce (EIP1559 t) = f_nonce (sg_tx t)"
| "tx_nonce (EIP4844 t) = b_nonce (sg_tx t)"
| "tx_nonce (EIP7702 t) = d_nonce (sg_tx t)"
| "tx_nonce (Deposit t) = dep_nonce t"

fun chain_id :: "TypedTransaction \<Rightarrow> u64 option" where
  "chain_id (Legacy t) = l_chain_id (sg_tx t)"
| "chain_id (EIP2930 t) = Some (a_chain_id (sg_tx t))"
| "chain_id (EIP1559 t) = Some (f_chain_id (sg_tx t))"
| "chain_id (EIP4844 t) = Some (b_chain_id (sg_tx t))"
| "chain_id (EIP7702 t) = Some (d_chain_id (sg_tx t))"
| "chain_id (Deposit t) = dep_chain_id t"

fun tx_kind :: "TypedTransaction \<Rightarrow> TxKind" where
  "tx_kind (Legacy tx) = l_to (sg_tx tx)"
| "tx_kind (EIP2930 tx) = a_to (sg_tx tx)"
| "tx_kind (EIP1559 tx) = f_to (sg_tx tx)"
| "tx_kind (EIP4844 tx) = Call (b_to (sg_tx tx))"
| "tx_kind (EIP7702 tx) = Call (d_to (sg_tx tx))"
| "tx_kind (Deposit tx) = dep_kind tx"

definition tx_to :: "TypedTransaction \<Rightarrow> address option" where
  "tx_to t = kind_to (tx_kind t)"

text \<open>
  \<open>max_cost\<close> saturates the gas cost, but multiplies the blob cost with the plain
  operator, which wraps around in a release build.
\<close>

definition max_cost :: "(TxEip4844 \<Rightarrow> u64) \<Rightarrow> TypedTransaction \<Rightarrow> u128" where
  "max_cost blob_gas_of t =
     (let cost = saturating_mul (ucast (gas_limit t)) (gas_price t)
      in if is_eip4844 t
         then saturating_add cost
                ((case blob_gas blob_gas_of t of Some g \<Rightarrow> ucast g | None \<Rightarrow> 0)
                 * (case max_fee_per_blob_gas t of Some f \<Rightarrow> f | None \<Rightarrow> 0))
         else cost)"

subsection \<open>Essentials\<close>

record TransactionEssentials =
  e_kind :: TxKind
  e_input :: bytes
  e_nonce :: u64
  e_gas_limit :: u64
  e_gas_price :: "u128 option"
  e_max_fee_per_gas :: "u128 option"
  e_max_priority_fee_per_gas :: "u128 option"
  e_max_fee_per_blob_gas :: "u128 option"
  e_blob_versioned_hashes :: "B256 list option"
  e_value :: u256
  e_chain_id :: "u64 option"
  e_access_list :: access_list

fun essentials :: "TypedTransaction \<Rightarrow> TransactionEssentials" where
  "essentials (Legacy t) =
     \<lparr>e_kind = l_to (sg_tx t), e_input = l_input (sg_tx t), e_nonce = l_nonce (sg_tx t),
      e_gas_limit = l_gas_limit (sg_tx t), e_gas_price = Some (l_gas_price (sg_tx t)),
      e_max_fee_per_gas = None, e_max_priority_fee_per_gas = None,
      e_max_fee_per_blob_gas = None, e_blob_versioned_hashes = None,
      e_value = l_value (sg_tx t), e_chain_id = l_chain_id (sg_tx t), e_access_list = []\<rparr>"
| "essentials (EIP2930 t) =
     \<lparr>e_kind = a_to (sg_tx t), e_input = a_input (sg_tx t), e_nonce = a_nonce (sg_tx t),
      e_gas_limit = a_gas_limit (sg_tx t), e_gas_price = Some (a_gas_price (sg_tx t)),
      e_max_fee_per_gas = None, e_max_priority_fee_per_gas = None,
      e_max_fee_per_blob_gas = None, e_blob_versioned_hashes = None,
      e_value = a_value (sg_tx t), e_chain_id = Some (a_chain_id (sg_tx t)),
      e_access_list = a_access_list (sg_tx t)\<rparr>"
| "essentials (EIP1559 t) =
     \<lparr>e_kind = f_to (sg_tx t), e_input = f_input (sg_tx t), e_nonce = f_nonce (sg_tx t),
      e_gas_limit = f_gas_limit (sg_tx t), e_gas_price = None,
      e_max_fee_per_gas = Some (f_max_fee_per_gas (sg_tx t)),
      e_max_priority_fee_per_gas = Some (f_max_priority_fee_per_gas (sg_tx t)),
      e_max_fee_per_blob_gas = None, e_blob_versioned_hashes = None,
      e_value = f_value (sg_tx t), e_chain_id = Some (f_chain_id (sg_tx t)),
      e_access_list = f_access_list (sg_tx t)\<rparr>"
| "essentials (EIP4844 t) =
     \<lparr>e_kind = Call (b_to (sg_tx t)), e_input = b_input (sg_tx t), e_nonce = b_nonce (sg_tx t),
      e_gas_limit = b_gas_limit (sg_tx t),
      e_gas_price = Some (b_max_fee_per_blob_gas (sg_tx t)),
      e_max_fee_per_gas = Some (b_max_fee_per_gas (sg_tx t)),
      e_max_priority_fee_per_gas = Some (b_max_priority_fee_per_gas (sg_tx t)),
      e_max_fee_per_blob_gas = Some (b_max_fee_per_blob_gas (sg_tx t)),
      e_blob_versioned_hashes = Some (b_blob_versioned_hashes (sg_tx t)),
      e_value = b_value (sg_tx t), e_chain_id = Some (b_chain_id (sg_tx t)),
      e_access_list = b_access_list (sg_tx t)\<rparr>"
| "essentials (EIP7702 t) =
     \<lparr>e_kind = Call (d_to (sg_tx t)), e_input = d_input (sg_tx t), e_nonce = d_nonce (sg_tx t),
      e_gas_limit = d_gas_limit (sg_tx t), e_gas_price = Some (d_max_fee_per_gas (sg_tx t)),
      e_max_fee_per_gas = Some (d_max_fee_per_gas (sg_tx t)),
      e_max_priority_fee_per_gas = Some (d_max_priority_fee_per_gas (sg_tx t)),
      e_max_fee_per_blob_gas = None, e_blob_versioned_hashes = None,
      e_value = d_value (sg_tx t), e_chain_id = Some (d_chain_id (sg_tx t)),
      e_access_list = d_access_list (sg_tx t)\<rparr>"
| "essentials (Deposit t) =
     \<lparr>e_kind = dep_kind t, e_input = dep_input t, e_nonce = dep_nonce t,
      e_gas_limit = dep_gas_limit t, e_gas_price = Some 0,
      e_max_fee_per_gas = None, e_max_priority_fee_per_gas = None,
      e_max_fee_per_blob_gas = None, e_blob_versioned_hashes = None,
      e_value = dep_value t, e_chain_id = dep_chain_id t, e_access_list = []\<rparr>"

subsection \<open>Pending transactions\<close>

record MaybeImpersonatedTransaction =
  mi_transaction :: TypedTransaction
  mi_impersonated_sender :: "address option"

definition is_impersonated :: "MaybeImpersonatedTransaction \<Rightarrow> bool" where
  "is_impersonated t = (mi_impersonated_sender t \<noteq> None)"

record PendingTransaction =
  pt_transaction :: MaybeImpersonatedTransaction
  pt_sender :: address
  pt_hash :: B256

text \<open>
  Signature recovery and hashing are parameters: \<open>recover_signer\<close> may fail,
  \<open>tx_hash\<close> is the hash of a typed transaction and \<open>impersonated_hash\<close> the
  keccak hash of its encoding followed by the sender.
\<close>

definition mi_hash ::
    "(TypedTransaction \<Rightarrow> B256) \<Rightarrow> (TypedTransaction \<Rightarrow> address \<Rightarrow> B256) \<Rightarrow>
     MaybeImpersonatedTransaction \<Rightarrow> B256" where
  "mi_hash tx_hash impersonated_hash t =
     (case mi_impersonated_sender t of
        Some sender \<Rightarrow> impersonated_hash (mi_transaction t) sender
      | None \<Rightarrow> tx_hash (mi_transaction t))"

definition mi_recover ::
    "(TypedTransaction \<Rightarrow> 'e + address) \<Rightarrow> MaybeImpersonatedTransaction \<Rightarrow> 'e + address" where
  "mi_recover recover t =
     (case mi_impersonated_sender t of
        Some sender \<Rightarrow> Inr sender
      | None \<Rightarrow> recover (mi_transaction t))"

definition PendingTransaction_new ::
    "(TypedTransaction \<Rightarrow> 'e + address) \<Rightarrow> (TypedTransaction \<Rightarrow> B256) \<Rightarrow>
     TypedTransaction \<Rightarrow> 'e + PendingTransaction" where
  "PendingTransaction_new recover tx_hash t =
     (case recover t of
        Inl e \<Rightarrow> Inl e
      | Inr sender \<Rightarrow>
          Inr \<lparr>pt_transaction = \<lparr>mi_transaction = t, mi_impersonated_sender = None\<rparr>,
               pt_sender = sender, pt_hash = tx_hash t\<rparr>)"

definition with_impersonated ::
    "(TypedTransaction \<Rightarrow> address \<Rightarrow> B256) \<Rightarrow> TypedTransaction \<Rightarrow> address \<Rightarrow>
     PendingTransaction" where
  "with_impersonated impersonated_hash t sender =
     \<lparr>pt_transaction = \<lparr>mi_transaction = t, mi_impersonated_sender = Some sender\<rparr>,
      pt_sender = sender, pt_hash = impersonated_hash t sender\<rparr>"

definition pt_typed :: "PendingTransaction \<Rightarrow> TypedTransaction" where
  "pt_typed p = mi_transaction (pt_transaction p)"

definition pt_nonce :: "PendingTransaction \<Rightarrow> u64" where
  "pt_nonce p = tx_nonce (pt_typed p)"

subsection \<open>The EVM environment of a transaction\<close>

record OptimismFields =
  op_source_hash :: "B256 option"
  op_mint :: "u128 option"
  op_is_system_transaction :: "bool option"
  op_enveloped_tx :: "bytes option"

record TxEnv =
  env_caller :: address
  env_transact_to :: TxKind
  env_data :: bytes
  env_chain_id :: "u64 option"
  env_nonce :: "u64 option"
  env_value :: u256
  env_gas_price :: u256
  env_gas_priority_fee :: "u256 option"
  env_gas_limit :: u64
  env_access_list :: access_list
  env_blob_hashes :: "B256 list"
  env_max_fee_per_blob_gas :: "u256 option"
  env_authorization_list :: "bytes list option"
  env_optimism :: OptimismFields

definition default_optimism :: OptimismFields where
  "default_optimism =
     \<lparr>op_source_hash = None, op_mint = None, op_is_system_transaction = None,
      op_enveloped_tx = None\<rparr>"

text \<open>\<^verbatim>\<open>U256::to::<u128>()\<close> panics when the value does not fit.\<close>

definition u256_to_u128 :: "u256 \<Rightarrow> u128 rust" where
  "u256_to_u128 v = (if unat v < 2 ^ 128 then Ret (ucast v) else Panic ''u128 overflow'')"

definition u256_to_u64 :: "u256 \<Rightarrow> u64 rust" where
  "u256_to_u64 v = (if unat v < 2 ^ 64 then Ret (ucast v) else Panic ''u64 overflow'')"

fun transact_to :: "TxKind \<Rightarrow> TxKind" where
  "transact_to (Call c) = Call c"
| "transact_to Create = Create"

definition to_revm_tx_env :: "PendingTransaction \<Rightarrow> TxEnv rust" where
  "to_revm_tx_env self =
     (let caller = pt_sender self in
      case pt_typed self of
        Legacy tx \<Rightarrow>
          Ret \<lparr>env_caller = caller, env_transact_to = transact_to (l_to (sg_tx tx)),
               env_data = l_input (sg_tx tx), env_chain_id = l_chain_id (sg_tx tx),
               env_nonce = Some (l_nonce (sg_tx tx)), env_value = l_value (sg_tx tx),
               env_gas_price = ucast (l_gas_price (sg_tx tx)), env_gas_priority_fee = None,
               env_gas_limit = l_gas_limit (sg_tx tx), env_access_list = [],
               env_blob_hashes = [], env_max_fee_per_blob_gas = None,
               env_authorization_list = None, env_optimism = default_optimism\<rparr>
      | EIP2930 tx \<Rightarrow>
          Ret \<lparr>env_caller = caller, env_transact_to = transact_to (a_to (sg_tx tx)),
               env_data = a_input (sg_tx tx), env_chain_id = Some (a_chain_id (sg_tx tx)),
               env_nonce = Some (a_nonce (sg_tx tx)), env_value = a_value (sg_tx tx),
               env_gas_price = ucast (a_gas_price (sg_tx tx)), env_gas_priority_fee = None,
               env_gas_limit = a_gas_limit (sg_tx tx),
               env_access_list = a_access_list (sg_tx tx),
               env_blob_hashes = [], env_max_fee_per_blob_gas = None,
               env_authorization_list = None, env_optimism = default_optimism\<rparr>
      | EIP1559 tx \<Rightarrow>
          Ret \<lparr>env_caller = caller, env_transact_to = transact_to (f_to (sg_tx tx)),
               env_data = f_input (sg_tx tx), env_chain_id = Some (f_chain_id (sg_tx tx)),
               env_nonce = Some (f_nonce (sg_tx tx)), env_value = f_value (sg_tx tx),
               env_gas_price = ucast (f_max_fee_per_gas (sg_tx tx)),
               env_gas_priority_fee = Some (ucast (f_max_priority_fee_per_gas (sg_tx tx))),
               env_gas_limit = f_gas_limit (sg_tx tx),
               env_access_list = f_access_list (sg_tx tx),
               env_blob_hashes = [], env_max_fee_per_blob_gas = None,
               env_authorization_list = None, env_optimism = default_optimism\<rparr>
      | EIP4844 tx \<Rightarrow>
          Ret \<lparr>env_caller = caller, env_transact_to = Call (b_to (sg_tx tx)),
               env_data = b_input (sg_tx tx), env_chain_id = Some (b_chain_id (sg_tx tx)),
               env_nonce = Some (b_nonce (sg_tx tx)), env_value = b_value (sg_tx tx),
               env_gas_price = ucast (b_max_fee_per_gas (sg_tx tx)),
               env_gas_priority_fee = Some (ucast (b_max_priority_fee_per_gas (sg_tx tx))),
               env_gas_limit = b_gas_limit (sg_tx tx),
               env_access_list = b_access_list (sg_tx tx),
               env_blob_hashes = b_blob_versioned_hashes (sg_tx tx),
               env_max_fee_per_blob_gas = Some (ucast (b_max_fee_per_blob_gas (sg_tx tx))),
               env_authorization_list = None, env_optimism = default_optimism\<rparr>
      | EIP7702 tx \<Rightarrow>
          Ret \<lparr>env_caller = caller, env_transact_to = Call (d_to (sg_tx tx)),
               env_data = d_input (sg_tx tx), env_chain_id = Some (d_chain_id (sg_tx tx)),
               env_nonce = Some (d_nonce (sg_tx tx)), env_value = d_value (sg_tx tx),
               env_gas_price = ucast (d_max_fee_per_gas (sg_tx tx)),
               env_gas_priority_fee = Some (ucast (d_max_priority_fee_per_gas (sg_tx tx))),
               env_gas_limit = d_gas_limit (sg_tx tx),
               env_access_list = d_access_list (sg_tx tx),
               env_blob_hashes = [], env_max_fee_per_blob_gas = None,
               env_authorization_list = Some (d_authorization_list (sg_tx tx)),
               env_optimism = default_optimism\<rparr>
      | Deposit tx \<Rightarrow>
          rbind (u256_to_u128 (dep_mint tx)) (\<lambda>mint.
          Ret \<lparr>env_caller = caller, env_transact_to = transact_to (dep_kind tx),
               env_data = dep_input tx, env_chain_id = dep_chain_id tx,
               env_nonce = Some (dep_nonce tx), env_value = dep_value tx,
               env_gas_price = 0, env_gas_priority_fee = None,
               env_gas_limit = dep_gas_limit tx, env_access_list = [],
               env_blob_hashes = [], env_max_fee_per_blob_gas = None,
               env_authorization_list = None,
               env_optimism =
                 \<lparr>op_source_hash = Some (dep_source_hash tx), op_mint = Some mint,
                  op_is_system_transaction = Some (dep_is_system_tx tx),
                  op_enveloped_tx = None\<rparr>\<rparr>))"

subsection \<open>Transaction requests\<close>

text \<open>
  The fields of a request that decide its type. \<open>OtherFields\<close> are the op-stack
  fields: each is absent, present but not deserializable (\<open>Some None\<close>), or a value.
\<close>

record OtherFields =
  o_sourceHash :: "B256 option option"
  o_mint :: "u256 option option"
  o_isSystemTx :: "bool option option"

record TransactionRequest =
  r_from :: "address option"
  r_to :: "TxKind option"
  r_gas_price :: "u128 option"
  r_max_fee_per_gas :: "u128 option"
  r_max_priority_fee_per_gas :: "u128 option"
  r_max_fee_per_blob_gas :: "u128 option"
  r_blob_versioned_hashes :: "B256 list option"
  r_gas :: "u64 option"
  r_value :: "u256 option"
  r_input :: "bytes option"
  r_nonce :: "u64 option"
  r_access_list :: "access_list option"
  r_sidecar :: "bytes option"
  r_transaction_type :: "u8 option"

record TxDeposit =
  td_from :: address
  td_source_hash :: B256
  td_to :: TxKind
  td_mint :: "u128 option"
  td_value :: u256
  td_gas_limit :: u64
  td_is_system_transaction :: bool
  td_input :: bytes

datatype TypedTransactionRequest =
    ReqLegacy TxLegacy
  | ReqEIP2930 TxEip2930
  | ReqEIP1559 TxEip1559
  | ReqEIP4844 TxEip4844 bytes
  | ReqDeposit TxDeposit

definition or_default :: "'a \<Rightarrow> 'a option \<Rightarrow> 'a" where
  "or_default d v = (case v of Some x \<Rightarrow> x | None \<Rightarrow> d)"

definition address_zero :: address where
  "address_zero = replicate 20 0"

definition has_optimism_fields :: "OtherFields \<Rightarrow> bool" where
  "has_optimism_fields other =
     (o_sourceHash other \<noteq> None \<and> o_mint other \<noteq> None \<and> o_isSystemTx other \<noteq> None)"

definition deposit_request ::
    "TransactionRequest \<Rightarrow> OtherFields \<Rightarrow> TypedTransactionRequest option rust" where
  "deposit_request r other =
     (case o_mint other of
        Some (Some m) \<Rightarrow>
          rbind (u256_to_u128 m) (\<lambda>mint.
            (case (o_sourceHash other, o_isSystemTx other) of
               (Some (Some sh), Some (Some sys)) \<Rightarrow>
                 Ret (Some (ReqDeposit
                   \<lparr>td_from = or_default address_zero (r_from r), td_source_hash = sh,
                    td_to = or_default Create (r_to r), td_mint = Some mint,
                    td_value = or_default 0 (r_value r),
                    td_gas_limit = or_default 0 (r_gas r),
                    td_is_system_transaction = sys,
                    td_input = or_default [] (r_input r)\<rparr>))
             | _ \<Rightarrow> Ret None))
      | _ \<Rightarrow> Ret None)"

definition legacy_request :: "TransactionRequest \<Rightarrow> TxLegacy" where
  "legacy_request r =
     \<lparr>l_chain_id = None, l_nonce = or_default 0 (r_nonce r),
      l_gas_price = or_default 0 (r_gas_price r), l_gas_limit = or_default 0 (r_gas r),
      l_to = or_default Create (r_to r), l_value = or_default 0 (r_value r),
      l_input = or_default [] (r_input r)\<rparr>"

definition eip2930_request :: "TransactionRequest \<Rightarrow> TxEip2930" where
  "eip2930_request r =
     \<lparr>a_chain_id = 0, a_nonce = or_default 0 (r_nonce r),
      a_gas_price = or_default 0 (r_gas_price r), a_gas_limit = or_default 0 (r_gas r),
      a_to = or_default Create (r_to r), a_value = or_default 0 (r_value r),
      a_access_list = or_default [] (r_access_list r), a_input = or_default [] (r_input r)\<rparr>"

definition eip1559_request :: "TransactionRequest \<Rightarrow> TxEip1559" where
  "eip1559_request r =
     \<lparr>f_chain_id = 0, f_nonce = or_default 0 (r_nonce r), f_gas_limit = or_default 0 (r_gas r),
      f_max_fee_per_gas = or_default 0 (r_max_fee_per_gas r),
      f_max_priority_fee_per_gas = or_default 0 (r_max_priority_fee_per_gas r),
      f_to = or_default Create (r_to r), f_value = or_default 0 (r_value r),
      f_access_list = or_default [] (r_access_list r), f_input = or_default [] (r_input r)\<rparr>"

definition eip4844_request :: "TransactionRequest \<Rightarrow> TxEip4844" where
  "eip4844_request r =
     \<lparr>b_chain_id = 0, b_nonce = or_default 0 (r_nonce r), b_gas_limit = or_default 0 (r_gas r),
      b_max_fee_per_gas = or_default 0 (r_max_fee_per_gas r),
      b_max_priority_fee_per_gas = or_default 0 (r_max_priority_fee_per_gas r),
      b_to = (case or_default Create (r_to r) of Call a \<Rightarrow> a | Create \<Rightarrow> address_zero),
      b_value = or_default 0 (r_value r), b_access_list = or_default [] (r_access_list r),
      b_blob_versioned_hashes = or_default [] (r_blob_versioned_hashes r),
      b_max_fee_per_blob_gas = or_default 0 (r_max_fee_per_blob_gas r),
      b_input = or_default [] (r_input r)\<rparr>"

text \<open>The arms of the source's \<^verbatim>\<open>match\<close>, tried in its order.\<close>

definition transaction_request_to_typed ::
    "TransactionRequest \<Rightarrow> OtherFields \<Rightarrow> TypedTransactionRequest option rust" where
  "transaction_request_to_typed r other =
     (let ty = r_transaction_type r; gp = r_gas_price r; mf = r_max_fee_per_gas r;
          mp = r_max_priority_fee_per_gas r; al = r_access_list r;
          bf = r_max_fee_per_blob_gas r; bh = r_blob_versioned_hashes r; sc = r_sidecar r
      in if ty = Some 126 \<or> has_optimism_fields other then deposit_request r other
         else if (ty = Some 0 \<and> mf = None \<and> mp = None \<and> al = None \<and> bf = None \<and> bh = None \<and> sc = None)
               \<or> (ty = None \<and> gp \<noteq> None \<and> mf = None \<and> mp = None \<and> al = None \<and> bf = None \<and> bh = None
                  \<and> sc = None)
         then Ret (Some (ReqLegacy (legacy_request r)))
         else if (ty = Some 1 \<and> mf = None \<and> mp = None \<and> bf = None \<and> bh = None \<and> sc = None)
               \<or> (ty = None \<and> mf = None \<and> mp = None \<and> al \<noteq> None \<and> bf = None \<and> bh = None \<and> sc = None)
         then Ret (Some (ReqEIP2930 (eip2930_request r)))
         else if (ty = Some 2 \<and> gp = None \<and> bh = None \<and> sc = None)
               \<or> (ty = None \<and> gp = None \<and> mf \<noteq> None \<and> bh = None \<and> sc = None)
               \<or> (ty = None \<and> gp = None \<and> mp \<noteq> None \<and> bh = None \<and> sc = None)
               \<or> (ty = None \<and> gp = None \<and> mf = None \<and> mp = None \<and> al = None \<and> bh = None \<and> sc = None)
         then Ret (Some (ReqEIP1559 (eip1559_request r)))
         else (case sc of
                 Some sidecar \<Rightarrow>
                   if ty = Some 3 \<and> gp = None \<and> bh \<noteq> None
                   then Ret (Some (ReqEIP4844 (eip4844_request r) sidecar))
                   else Ret None
               | None \<Rightarrow> Ret None))"

subsection \<open>Properties\<close>

lemma transact_to_id [simp]: "transact_to k = k"
  by (cases k) simp_all

lemma unat_max_cost:
  "\<not> is_eip4844 t \<Longrightarrow>
   unat (max_cost g t) = min (unat (gas_limit t) * unat (gas_price t)) (2 ^ 128 - 1)"
proof -
  assume "\<not> is_eip4844 t"
  moreover have "unat (ucast (gas_limit t) :: u128) = unat (gas_limit t)"
    by (rule unat_ucast_up) simp
  ultimately show ?thesis
    by (simp add: max_cost_def unat_saturating_mul)
qed

lemma essentials_agree:
  "e_kind (essentials t) = tx_kind t \<and> e_input (essentials t) = tx_data t \<and>
   e_nonce (essentials t) = tx_nonce t \<and> e_gas_limit (essentials t) = gas_limit t \<and>
   e_value (essentials t) = tx_value t \<and> e_chain_id (essentials t) = chain_id t \<and>
   e_max_fee_per_blob_gas (essentials t) = max_fee_per_blob_gas t"
  by (cases t) simp_all

lemma essentials_fee_agree:
  "\<not> is_eip4844 t \<Longrightarrow>
   gas_price t = (case e_max_fee_per_gas (essentials t) of
                    Some f \<Rightarrow> f | None \<Rightarrow> or_default 0 (e_gas_price (essentials t)))"
  by (cases t) (simp_all add: or_default_def)

end
