(* ===== verification/Pool_Transactions.thy ===== *)
theory Pool_Transactions
  imports Typed_Transaction
begin

text \<open>
  The two queues of the transaction pool, \<^verbatim>\<open>anvil/src/eth/pool/transactions.rs\<close>:
  transactions waiting for markers (\<open>PendingTransactions\<close>), transactions ready to be mined
  (\<open>ReadyTransactions\<close>), and the iterator that hands the ready ones out
  (\<open>TransactionsIterator\<close>). Assertions and \<^verbatim>\<open>expect\<close> calls of the source are
  panics of the model.
\<close>

subsection \<open>Markers, order and pool transactions\<close>

type_synonym TxHash = B256
type_synonym TxMarker = "u8 list"

definition u64_to_le_bytes :: "u64 \<Rightarrow> u8 list" where
  "u64_to_le_bytes n = map (\<lambda>i. ucast (drop_bit (8 * i) n)) [0..<8]"

definition to_marker :: "u64 \<Rightarrow> address \<Rightarrow> TxMarker" where
  "to_marker nonce from = u64_to_le_bytes nonce @ from"

type_synonym TransactionPriority = u128

datatype TransactionOrder = Fifo | Fees

fun order_priority :: "TransactionOrder \<Rightarrow> TypedTransaction \<Rightarrow> TransactionPriority" where
  "order_priority Fifo tx = 0"
| "order_priority Fees tx = gas_price tx"

text \<open>ASCII lower case, as \<^verbatim>\<open>str::to_lowercase\<close> acts on the accepted words.\<close>

definition char_lower :: "char \<Rightarrow> char" where
  "char_lower c =
     (if 65 \<le> (of_char c :: nat) \<and> (of_char c :: nat) \<le> 90
      then char_of ((of_char c :: nat) + 32) else c)"

definition TransactionOrder_from_str :: "string \<Rightarrow> string + TransactionOrder" where
  "TransactionOrder_from_str s0 =
     (let s = map char_lower s0
      in if s = ''fees'' then Inr Fees
         else if s = ''fifo'' then Inr Fifo
         else Inl (''Unknown TransactionOrder: `'' @ s @ ''`''))"

record PoolTransaction =
  pending_transaction :: PendingTransaction
  requires :: "TxMarker list"
  provides :: "TxMarker list"
  priority :: TransactionPriority

definition PoolTransaction_new :: "PendingTransaction \<Rightarrow> PoolTransaction" where
  "PoolTransaction_new t =
     \<lparr>pending_transaction = t, requires = [], provides = [], priority = 0\<rparr>"

definition pool_tx_hash :: "PoolTransaction \<Rightarrow> TxHash" where
  "pool_tx_hash tx = pt_hash (pending_transaction tx)"

definition pool_tx_gas_price :: "PoolTransaction \<Rightarrow> u128" where
  "pool_tx_gas_price tx = gas_price (pt_typed (pending_transaction tx))"

datatype PoolError =
    CyclicTransaction
  | ReplacementUnderpriced PoolTransaction
  | AlreadyImported PoolTransaction

subsection \<open>Transactions waiting for markers\<close>

text \<open>The time at which the transaction was added is a clock reading: a number.\<close>

record PendingPoolTransaction =
  pp_transaction :: PoolTransaction
  missing_markers :: "TxMarker list"
  added_at :: nat

definition PendingPoolTransaction_new ::
    "PoolTransaction \<Rightarrow> (TxMarker, TxHash) hmap \<Rightarrow> nat \<Rightarrow> PendingPoolTransaction" where
  "PendingPoolTransaction_new tx provided now =
     \<lparr>pp_transaction = tx,
      missing_markers = remdups (filter (\<lambda>m. \<not> hm_contains provided m) (requires tx)),
      added_at = now\<rparr>"

definition mark :: "TxMarker \<Rightarrow> PendingPoolTransaction \<Rightarrow> PendingPoolTransaction" where
  "mark m tx = tx\<lparr>missing_markers := hs_remove m (missing_markers tx)\<rparr>"

definition is_ready :: "PendingPoolTransaction \<Rightarrow> bool" where
  "is_ready tx = (missing_markers tx = [])"

definition pp_hash :: "PendingPoolTransaction \<Rightarrow> TxHash" where
  "pp_hash tx = pool_tx_hash (pp_transaction tx)"

record PendingTransactions =
  required_markers :: "(TxMarker, TxHash list) hmap"
  waiting_markers :: "(TxMarker list, TxHash) hmap"
  waiting_queue :: "(TxHash, PendingPoolTransaction) hmap"

definition pending_default :: PendingTransactions where
  "pending_default = \<lparr>required_markers = [], waiting_markers = [], waiting_queue = []\<rparr>"

definition pending_len :: "PendingTransactions \<Rightarrow> nat" where
  "pending_len p = length (waiting_queue p)"

definition pending_is_empty :: "PendingTransactions \<Rightarrow> bool" where
  "pending_is_empty p = (waiting_queue p = [])"

definition pending_clear :: "PendingTransactions \<Rightarrow> PendingTransactions" where
  "pending_clear p = p\<lparr>required_markers := [], waiting_markers := [], waiting_queue := []\<rparr>"

text \<open>The transactions of the waiting queue, in the order \<open>it\<close> gives its keys.\<close>

definition pending_transactions_iter ::
    "(TxHash list \<Rightarrow> TxHash list) \<Rightarrow> PendingTransactions \<Rightarrow> PoolTransaction list" where
  "pending_transactions_iter it p =
     List.map_filter (\<lambda>h. map_option pp_transaction (hm_get (waiting_queue p) h))
       (it (hm_keys (waiting_queue p)))"

text \<open>\<^verbatim>\<open>required_markers.entry(marker).or_default().insert(hash)\<close>\<close>

definition require_marker ::
    "TxHash \<Rightarrow> TxMarker \<Rightarrow> (TxMarker, TxHash list) hmap \<Rightarrow> (TxMarker, TxHash list) hmap" where
  "require_marker h m rm =
     hm_insert m (hs_insert h (case hm_get rm m of Some hs \<Rightarrow> hs | None \<Rightarrow> [])) rm"

definition pending_add_transaction ::
    "PendingPoolTransaction \<Rightarrow> PendingTransactions \<Rightarrow>
     ((PoolError + unit) \<times> PendingTransactions) rust" where
  "pending_add_transaction tx p =
     rassert (\<not> is_ready tx) ''transaction must not be ready''
     (rassert (\<not> hm_contains (waiting_queue p) (pp_hash tx)) ''transaction is already added''
     (if (case Option.bind (hm_get (waiting_markers p) (provides (pp_transaction tx)))
                 (hm_get (waiting_queue p)) of
            Some replace \<Rightarrow>
              pool_tx_gas_price (pp_transaction tx) < pool_tx_gas_price (pp_transaction replace)
          | None \<Rightarrow> False)
      then Ret (Inl (ReplacementUnderpriced (pp_transaction tx)), p)
      else Ret (Inr (),
        p\<lparr>required_markers :=
             fold (require_marker (pp_hash tx)) (missing_markers tx) (required_markers p),
           waiting_markers :=
             hm_insert (provides (pp_transaction tx)) (pp_hash tx) (waiting_markers p),
           waiting_queue := hm_insert (pp_hash tx) tx (waiting_queue p)\<rparr>)))"

definition pending_contains :: "PendingTransactions \<Rightarrow> TxHash \<Rightarrow> bool" where
  "pending_contains p h = hm_contains (waiting_queue p) h"

definition pending_get :: "PendingTransactions \<Rightarrow> TxHash \<Rightarrow> PendingPoolTransaction option" where
  "pending_get p h = hm_get (waiting_queue p) h"

text \<open>The inner loop of \<open>mark_and_unlock\<close>: check one marker off the given transactions.\<close>

fun unlock_hashes ::
    "TxMarker \<Rightarrow> TxHash list \<Rightarrow> PendingTransactions \<Rightarrow> PendingPoolTransaction list \<Rightarrow>
     (PendingPoolTransaction list \<times> PendingTransactions) rust" where
  "unlock_hashes m [] p unlocked = Ret (unlocked, p)"
| "unlock_hashes m (h # hs) p unlocked =
     (case hm_get (waiting_queue p) h of
        None \<Rightarrow> Panic ''tx is included;''
      | Some tx \<Rightarrow>
          let tx' = mark m tx;
              p' = p\<lparr>waiting_queue := hm_insert h tx' (waiting_queue p)\<rparr>
          in if is_ready tx'
             then unlock_hashes m hs
                    (p'\<lparr>waiting_queue := hm_remove h (waiting_queue p'),
                        waiting_markers :=
                          hm_remove (provides (pp_transaction tx')) (waiting_markers p')\<rparr>)
                    (unlocked @ [tx'])
             else unlock_hashes m hs p' unlocked)"

fun mark_and_unlock_from ::
    "(TxHash list \<Rightarrow> TxHash list) \<Rightarrow> TxMarker list \<Rightarrow> PendingTransactions \<Rightarrow>
     PendingPoolTransaction list \<Rightarrow>
     (PendingPoolTransaction list \<times> PendingTransactions) rust" where
  "mark_and_unlock_from it [] p unlocked = Ret (unlocked, p)"
| "mark_and_unlock_from it (m # ms) p unlocked =
     (case hm_get (required_markers p) m of
        None \<Rightarrow> mark_and_unlock_from it ms p unlocked
      | Some hs \<Rightarrow>
          rbind (unlock_hashes m (it hs)
                   (p\<lparr>required_markers := hm_remove m (required_markers p)\<rparr>) unlocked)
            (\<lambda>(unlocked', p'). mark_and_unlock_from it ms p' unlocked'))"

definition mark_and_unlock ::
    "(TxHash list \<Rightarrow> TxHash list) \<Rightarrow> TxMarker list \<Rightarrow> PendingTransactions \<Rightarrow>
     (PendingPoolTransaction list \<times> PendingTransactions) rust" where
  "mark_and_unlock it markers p = mark_and_unlock_from it markers p []"

text \<open>Dropping a hash from the set of a required marker, and the marker with its last hash.\<close>

definition unrequire_marker ::
    "TxHash \<Rightarrow> TxMarker \<Rightarrow> (TxMarker, TxHash list) hmap \<Rightarrow> (TxMarker, TxHash list) hmap" where
  "unrequire_marker h m rm =
     (case hm_get rm m of
        None \<Rightarrow> rm
      | Some hs \<Rightarrow>
          let hs' = hs_remove h hs; rm' = hm_insert m hs' rm
          in if hs' = [] then hm_remove m rm' else rm')"

fun pending_remove_from ::
    "TxHash list \<Rightarrow> PendingTransactions \<Rightarrow> PoolTransaction list \<Rightarrow>
     PoolTransaction list \<times> PendingTransactions" where
  "pending_remove_from [] p removed = (removed, p)"
| "pending_remove_from (h # hs) p removed =
     (case hm_get (waiting_queue p) h of
        None \<Rightarrow> pending_remove_from hs p removed
      | Some w \<Rightarrow>
          pending_remove_from hs
            (p\<lparr>waiting_queue := hm_remove h (waiting_queue p),
               waiting_markers :=
                 hm_remove (provides (pp_transaction w)) (waiting_markers p),
               required_markers :=
                 fold (unrequire_marker h) (missing_markers w) (required_markers p)\<rparr>)
            (removed @ [pp_transaction w]))"

definition pending_remove ::
    "TxHash list \<Rightarrow> PendingTransactions \<Rightarrow> PoolTransaction list \<times> PendingTransactions" where
  "pending_remove hashes p = pending_remove_from hashes p []"

subsection \<open>References and their order\<close>

record PoolTransactionRef =
  ref_transaction :: PoolTransaction
  ref_id :: u64

text \<open>
  References compare by priority, then by age: the smaller id is the greater reference.
  Equality of references is equality of these keys.
\<close>

datatype RefKey = RefKey (key_priority: u128) (key_id: u64)

instantiation RefKey :: linorder
begin

definition less_eq_RefKey :: "RefKey \<Rightarrow> RefKey \<Rightarrow> bool" where
  "less_eq_RefKey a b =
     (key_priority a < key_priority b \<or> (key_priority a = key_priority b \<and> key_id b \<le> key_id a))"

definition less_RefKey :: "RefKey \<Rightarrow> RefKey \<Rightarrow> bool" where
  "less_RefKey a b =
     (key_priority a < key_priority b \<or> (key_priority a = key_priority b \<and> key_id b < key_id a))"

instance
  by standard
     (auto simp: less_eq_RefKey_def less_RefKey_def intro: RefKey.expand)

end

definition ref_key :: "PoolTransactionRef \<Rightarrow> RefKey" where
  "ref_key r = RefKey (priority (ref_transaction r)) (ref_id r)"

text \<open>A \<^verbatim>\<open>BTreeSet\<close> of references: a list in ascending order of its keys.\<close>

fun bts_insert :: "PoolTransactionRef \<Rightarrow> PoolTransactionRef list \<Rightarrow> PoolTransactionRef list" where
  "bts_insert x [] = [x]"
| "bts_insert x (y # ys) =
     (if ref_key x < ref_key y then x # y # ys
      else if ref_key x = ref_key y then y # ys
      else y # bts_insert x ys)"

definition bts_remove :: "PoolTransactionRef \<Rightarrow> PoolTransactionRef list \<Rightarrow> PoolTransactionRef list" where
  "bts_remove x ys = filter (\<lambda>y. ref_key y \<noteq> ref_key x) ys"

definition bts_sorted :: "PoolTransactionRef list \<Rightarrow> bool" where
  "bts_sorted xs = sorted_wrt (<) (map ref_key xs)"

definition ref_hash :: "PoolTransactionRef \<Rightarrow> TxHash" where
  "ref_hash r = pool_tx_hash (ref_transaction r)"

subsection \<open>Ready transactions and their iterator\<close>

record ReadyTransaction =
  rt_transaction :: PoolTransactionRef
  unlocks :: "TxHash list"
  requires_offset :: nat

definition rt_pool_tx :: "ReadyTransaction \<Rightarrow> PoolTransaction" where
  "rt_pool_tx t = ref_transaction (rt_transaction t)"

definition rt_provides :: "ReadyTransaction \<Rightarrow> TxMarker list" where
  "rt_provides t = provides (rt_pool_tx t)"

definition rt_gas_price :: "ReadyTransaction \<Rightarrow> u128" where
  "rt_gas_price t = pool_tx_gas_price (rt_pool_tx t)"

record TransactionsIterator =
  ti_all :: "(TxHash, ReadyTransaction) hmap"
  ti_awaiting :: "(TxHash, nat \<times> PoolTransactionRef) hmap"
  ti_independent :: "PoolTransactionRef list"
  ti_invalid :: "TxHash list"

definition independent_or_awaiting ::
    "nat \<Rightarrow> PoolTransactionRef \<Rightarrow> TransactionsIterator \<Rightarrow> TransactionsIterator" where
  "independent_or_awaiting satisfied tx_ref s =
     (if length (requires (ref_transaction tx_ref)) \<le> satisfied
      then s\<lparr>ti_independent := bts_insert tx_ref (ti_independent s)\<rparr>
      else s\<lparr>ti_awaiting := hm_insert (ref_hash tx_ref) (satisfied, tx_ref) (ti_awaiting s)\<rparr>)"

definition iter_unlock :: "TxHash \<Rightarrow> TransactionsIterator \<Rightarrow> TransactionsIterator" where
  "iter_unlock h s =
     (case hm_get (ti_awaiting s) h of
        Some (satisfied, tx_ref) \<Rightarrow>
          independent_or_awaiting (satisfied + 1) tx_ref
            (s\<lparr>ti_awaiting := hm_remove h (ti_awaiting s)\<rparr>)
      | None \<Rightarrow>
          (case hm_get (ti_all s) h of
             Some next \<Rightarrow>
               independent_or_awaiting (requires_offset next + 1) (rt_transaction next) s
           | None \<Rightarrow> s))"

lemma length_bts_remove_last: "xs \<noteq> [] \<Longrightarrow> length (bts_remove (last xs) xs) < length xs"
  unfolding bts_remove_def
  by (rule length_filter_less [of "last xs"]) simp_all

function iter_next ::
    "TransactionsIterator \<Rightarrow> (PoolTransaction \<times> TransactionsIterator) option" where
  "iter_next s =
     (if ti_independent s = [] then None
      else
        let best = last (ti_independent s);
            s' = s\<lparr>ti_independent := bts_remove best (ti_independent s)\<rparr>
        in case hm_get (ti_all s') (ref_hash best) of
             None \<Rightarrow> iter_next s'
           | Some ready \<Rightarrow> Some (ref_transaction best, fold iter_unlock (unlocks ready) s'))"
  by pat_completeness auto
termination
  by (relation "measure (\<lambda>s. length (ti_independent s))")
     (auto intro: length_bts_remove_last)

declare iter_next.simps [simp del]

text \<open>
  Driving the iterator: \<open>iter_take n\<close> is \<^verbatim>\<open>take(n).collect()\<close>, and
  \<open>iter_collect\<close> runs the iterator to its end, \<open>None\<close> where the fuel does not
  suffice.
\<close>

fun iter_take :: "nat \<Rightarrow> TransactionsIterator \<Rightarrow> PoolTransaction list" where
  "iter_take 0 s = []"
| "iter_take (Suc n) s =
     (case iter_next s of None \<Rightarrow> [] | Some (tx, s') \<Rightarrow> tx # iter_take n s')"

fun iter_collect :: "nat \<Rightarrow> TransactionsIterator \<Rightarrow> PoolTransaction list option" where
  "iter_collect 0 s = None"
| "iter_collect (Suc fuel) s =
     (case iter_next s of
        None \<Rightarrow> Some []
      | Some (tx, s') \<Rightarrow> map_option (Cons tx) (iter_collect fuel s'))"

subsection \<open>The ready queue\<close>

record ReadyTransactions =
  ready_id :: u64
  provided_markers :: "(TxMarker, TxHash) hmap"
  ready_tx :: "(TxHash, ReadyTransaction) hmap"
  independent_transactions :: "PoolTransactionRef list"

definition ready_default :: ReadyTransactions where
  "ready_default =
     \<lparr>ready_id = 0, provided_markers = [], ready_tx = [], independent_transactions = []\<rparr>"

definition get_transactions :: "ReadyTransactions \<Rightarrow> TransactionsIterator" where
  "get_transactions r =
     \<lparr>ti_all = ready_tx r, ti_awaiting = [], ti_independent = independent_transactions r,
      ti_invalid = []\<rparr>"

definition ready_clear :: "ReadyTransactions \<Rightarrow> ReadyTransactions" where
  "ready_clear r =
     r\<lparr>provided_markers := [], ready_tx := [], independent_transactions := []\<rparr>"

definition ready_contains :: "ReadyTransactions \<Rightarrow> TxHash \<Rightarrow> bool" where
  "ready_contains r h = hm_contains (ready_tx r) h"

definition ready_get :: "ReadyTransactions \<Rightarrow> TxHash \<Rightarrow> ReadyTransaction option" where
  "ready_get r h = hm_get (ready_tx r) h"

definition next_id :: "ReadyTransactions \<Rightarrow> u64 \<times> ReadyTransactions" where
  "next_id r = (ready_id r, r\<lparr>ready_id := ready_id r + 1\<rparr>)"

text \<open>
  Removing a transaction from the list of those its provider unlocks. The source binds
  the provider's hash to the name \<^verbatim>\<open>hash\<close>, which shadows the hash of the removed
  transaction, so it is the provider's own hash that is searched for.
\<close>

definition remove_unlock ::
    "(TxMarker, TxHash) hmap \<Rightarrow> TxMarker \<Rightarrow> (TxHash, ReadyTransaction) hmap \<Rightarrow>
     (TxHash, ReadyTransaction) hmap" where
  "remove_unlock pm m ready =
     (case hm_get pm m of
        None \<Rightarrow> ready
      | Some hash \<Rightarrow>
          (case hm_get ready hash of
             None \<Rightarrow> ready
           | Some tx \<Rightarrow>
               (case position (\<lambda>i. i = hash) (unlocks tx) of
                  None \<Rightarrow> ready
                | Some idx \<Rightarrow>
                    hm_insert hash (tx\<lparr>unlocks := swap_remove idx (unlocks tx)\<rparr>) ready)))"

definition marker_allowed :: "TxMarker list option \<Rightarrow> TxMarker \<Rightarrow> bool" where
  "marker_allowed marker_filter m =
     (case marker_filter of Some f \<Rightarrow> m \<notin> set f | None \<Rightarrow> True)"

lemma length_fold_same:
  "(\<And>x ys. length (f x ys) = length ys) \<Longrightarrow> length (fold f xs ys) = length ys"
  by (induction xs arbitrary: ys) auto

lemma length_remove_unlock [simp]: "length (remove_unlock pm m ready) = length ready"
  by (auto simp: remove_unlock_def length_hm_insert_present split: option.splits)

function remove_with_markers_loop ::
    "TxMarker list option \<Rightarrow> TxHash list \<Rightarrow> PoolTransaction list \<Rightarrow> ReadyTransactions \<Rightarrow>
     PoolTransaction list \<times> ReadyTransactions" where
  "remove_with_markers_loop marker_filter tx_hashes removed r =
     (case vec_pop tx_hashes of
        None \<Rightarrow> (removed, r)
      | Some (hash, rest) \<Rightarrow>
          (case hm_get (ready_tx r) hash of
             None \<Rightarrow> remove_with_markers_loop marker_filter rest removed r
           | Some tx \<Rightarrow>
               let ready = hm_remove hash (ready_tx r);
                   invalidated = filter (marker_allowed marker_filter) (rt_provides tx);
                   pm = fold hm_remove invalidated (provided_markers r);
                   ready' = fold (remove_unlock pm) (requires (rt_pool_tx tx)) ready;
                   ind = bts_remove (rt_transaction tx) (independent_transactions r)
               in remove_with_markers_loop marker_filter
                    (if invalidated \<noteq> [] then rest @ unlocks tx else rest)
                    (removed @ [rt_pool_tx tx])
                    (r\<lparr>provided_markers := pm, ready_tx := ready',
                       independent_transactions := ind\<rparr>)))"
  by pat_completeness auto
termination
  by (relation "measures [\<lambda>(f, hs, rem, r). length (ready_tx r), \<lambda>(f, hs, rem, r). length hs]")
     (auto simp: length_fold_same length_hm_remove_less dest: vec_pop_SomeD)

declare remove_with_markers_loop.simps [simp del]

definition remove_with_markers ::
    "TxHash list \<Rightarrow> TxMarker list option \<Rightarrow> ReadyTransactions \<Rightarrow>
     PoolTransaction list \<times> ReadyTransactions" where
  "remove_with_markers tx_hashes marker_filter r =
     remove_with_markers_loop marker_filter tx_hashes [] r"

definition clear_transactions ::
    "TxHash list \<Rightarrow> ReadyTransactions \<Rightarrow> PoolTransaction list \<times> ReadyTransactions" where
  "clear_transactions tx_hashes r = remove_with_markers tx_hashes None r"

text \<open>
  The check of the transactions that would be replaced: \<open>Inl\<close> when the new one is
  underpriced, otherwise the hashes they unlock.
\<close>

fun replaced_check ::
    "PoolTransaction \<Rightarrow> (TxHash, ReadyTransaction) hmap \<Rightarrow> TxHash list \<Rightarrow> TxHash list \<Rightarrow>
     PoolError + TxHash list" where
  "replaced_check tx ready [] unlocked_tx = Inr unlocked_tx"
| "replaced_check tx ready (h # hs) unlocked_tx =
     (case hm_get ready h of
        None \<Rightarrow> replaced_check tx ready hs unlocked_tx
      | Some to_remove \<Rightarrow>
          if rt_provides to_remove = provides tx
             \<and> pool_tx_gas_price tx \<le> rt_gas_price to_remove
          then Inl (ReplacementUnderpriced tx)
          else replaced_check tx ready hs (unlocked_tx @ unlocks to_remove))"

definition replaced_transactions ::
    "(TxHash list \<Rightarrow> TxHash list) \<Rightarrow> PoolTransaction \<Rightarrow> ReadyTransactions \<Rightarrow>
     (PoolError + PoolTransaction list \<times> TxHash list) \<times> ReadyTransactions" where
  "replaced_transactions it tx r =
     (let remove_hashes =
            it (remdups (List.map_filter (hm_get (provided_markers r)) (provides tx)))
      in if remove_hashes = [] then (Inr ([], []), r)
         else case replaced_check tx (ready_tx r) remove_hashes [] of
                Inl err \<Rightarrow> (Inl err, r)
              | Inr unlocked_tx \<Rightarrow>
                  let (removed_tx, r') = remove_with_markers remove_hashes (Some (provides tx)) r
                  in (Inr (removed_tx, unlocked_tx), r'))"

text \<open>
  The loop over the required markers of a new transaction: it links the transaction to
  the ready transactions that provide them and counts the markers nobody provides.
\<close>

fun link_requires ::
    "TxHash \<Rightarrow> (TxMarker, TxHash) hmap \<Rightarrow> TxMarker list \<Rightarrow> (TxHash, ReadyTransaction) hmap \<Rightarrow>
     bool \<Rightarrow> nat \<Rightarrow> ((TxHash, ReadyTransaction) hmap \<times> bool \<times> nat) rust" where
  "link_requires hash pm [] ready independent offset = Ret (ready, independent, offset)"
| "link_requires hash pm (m # ms) ready independent offset =
     (case hm_get pm m of
        Some other \<Rightarrow>
          (case hm_get ready other of
             None \<Rightarrow> Panic ''hash included;''
           | Some tx \<Rightarrow>
               link_requires hash pm ms
                 (hm_insert other (tx\<lparr>unlocks := unlocks tx @ [hash]\<rparr>) ready) False offset)
      | None \<Rightarrow> link_requires hash pm ms ready independent (offset + 1))"

definition ready_add_transaction ::
    "(TxHash list \<Rightarrow> TxHash list) \<Rightarrow> PendingPoolTransaction \<Rightarrow> ReadyTransactions \<Rightarrow>
     ((PoolError + PoolTransaction list) \<times> ReadyTransactions) rust" where
  "ready_add_transaction it tx r =
     rassert (is_ready tx) ''transaction must be ready''
     (rassert (\<not> hm_contains (ready_tx r) (pp_hash tx)) ''transaction already included''
     (case replaced_transactions it (pp_transaction tx) r of
        (Inl err, r1) \<Rightarrow> Ret (Inl err, r1)
      | (Inr (replaced_tx, unlocks0), r1) \<Rightarrow>
          let (id, r2) = next_id r1; hash = pp_hash tx
          in rbind (link_requires hash (provided_markers r2) (requires (pp_transaction tx))
                      (ready_tx r2) True 0)
               (\<lambda>(ready, independent, offset).
                 let pm = fold (\<lambda>m. hm_insert m hash) (provides (pp_transaction tx))
                            (provided_markers r2);
                     transaction = \<lparr>ref_transaction = pp_transaction tx, ref_id = id\<rparr>;
                     ind = (if independent
                            then bts_insert transaction (independent_transactions r2)
                            else independent_transactions r2);
                     entry = \<lparr>rt_transaction = transaction, unlocks = unlocks0,
                              requires_offset = offset\<rparr>
                 in Ret (Inr replaced_tx,
                         r2\<lparr>provided_markers := pm, ready_tx := hm_insert hash entry ready,
                            independent_transactions := ind\<rparr>))))"

subsection \<open>Pruning by marker\<close>

text \<open>
  One step of the search for transactions that lead to the pruned one: the provider of
  the marker forgets the pruned hash, and if it unlocks nothing else its own markers are
  to be removed as well.
\<close>

fun prune_previous ::
    "TxHash \<Rightarrow> (TxMarker, TxHash) hmap \<Rightarrow> TxMarker list \<Rightarrow> (TxHash, ReadyTransaction) hmap \<Rightarrow>
     TxMarker list \<Rightarrow> (TxHash, ReadyTransaction) hmap \<times> TxMarker list" where
  "prune_previous hash pm [] ready remove = (ready, remove)"
| "prune_previous hash pm (m # ms) ready remove =
     (case hm_get pm m of
        None \<Rightarrow> prune_previous hash pm ms ready remove
      | Some prev_hash \<Rightarrow>
          (case hm_get ready prev_hash of
             None \<Rightarrow> prune_previous hash pm ms ready remove
           | Some tx2 \<Rightarrow>
               let tx2' = (case position (\<lambda>i. i = hash) (unlocks tx2) of
                             Some idx \<Rightarrow> tx2\<lparr>unlocks := swap_remove idx (unlocks tx2)\<rparr>
                           | None \<Rightarrow> tx2)
               in prune_previous hash pm ms (hm_insert prev_hash tx2' ready)
                    (if unlocks tx2' = [] then remove @ rt_provides tx2' else remove)))"

fun prune_unlocked ::
    "TxHash list \<Rightarrow> (TxHash, ReadyTransaction) hmap \<Rightarrow> PoolTransactionRef list \<Rightarrow>
     (TxHash, ReadyTransaction) hmap \<times> PoolTransactionRef list" where
  "prune_unlocked [] ready ind = (ready, ind)"
| "prune_unlocked (h # hs) ready ind =
     (case hm_get ready h of
        None \<Rightarrow> prune_unlocked hs ready ind
      | Some tx \<Rightarrow>
          let tx' = tx\<lparr>requires_offset := requires_offset tx + 1\<rparr>
          in prune_unlocked hs (hm_insert h tx' ready)
               (if requires_offset tx' = length (requires (rt_pool_tx tx'))
                then bts_insert (rt_transaction tx') ind else ind))"

fun prune_provided ::
    "TxMarker \<Rightarrow> TxHash \<Rightarrow> TxMarker list \<Rightarrow> (TxMarker, TxHash) hmap \<Rightarrow>
     (TxMarker, TxHash) hmap rust" where
  "prune_provided current hash [] pm = Ret pm"
| "prune_provided current hash (m # ms) pm =
     rassert (hm_get pm m = (if current = m then None else Some hash))
       ''The pool contains exactly one transaction providing given tag''
       (prune_provided current hash ms (hm_remove m pm))"

lemma length_prune_previous:
  "length (fst (prune_previous hash pm ms ready remove)) = length ready"
  by (induction hash pm ms ready remove rule: prune_previous.induct)
     (auto simp: Let_def length_hm_insert_present split: option.splits)

lemma length_prune_unlocked: "length (fst (prune_unlocked hs ready ind)) = length ready"
  by (induction hs ready ind rule: prune_unlocked.induct)
     (auto simp: Let_def length_hm_insert_present split: option.splits)

function prune_tags_loop ::
    "TxMarker list \<Rightarrow> PoolTransaction list \<Rightarrow> ReadyTransactions \<Rightarrow>
     (PoolTransaction list \<times> ReadyTransactions) rust" where
  "prune_tags_loop remove removed_tx r =
     (case vec_pop remove of
        None \<Rightarrow> Ret (removed_tx, r)
      | Some (marker, rest) \<Rightarrow>
          let pm1 = hm_remove marker (provided_markers r) in
          (case Option.bind (hm_get (provided_markers r) marker)
                  (\<lambda>h. map_option (Pair h) (hm_get (ready_tx r) h)) of
             None \<Rightarrow> prune_tags_loop rest removed_tx (r\<lparr>provided_markers := pm1\<rparr>)
           | Some (h, tx) \<Rightarrow>
               let ready1 = hm_remove h (ready_tx r);
                   ind1 = bts_remove (rt_transaction tx) (independent_transactions r);
                   hash = pool_tx_hash (rt_pool_tx tx);
                   prev = prune_previous hash pm1 (requires (rt_pool_tx tx)) ready1 rest;
                   unl = prune_unlocked (unlocks tx) (fst prev) ind1
               in rbind (prune_provided marker hash (rt_provides tx) pm1)
                    (\<lambda>pm2. prune_tags_loop (snd prev) (removed_tx @ [rt_pool_tx tx])
                       (r\<lparr>provided_markers := pm2, ready_tx := fst unl,
                          independent_transactions := snd unl\<rparr>))))"
  by pat_completeness auto
termination
  by (relation "measures [\<lambda>(ms, rem, r). length (ready_tx r), \<lambda>(ms, rem, r). length ms]")
     (auto simp: length_prune_previous length_prune_unlocked length_hm_remove_less
           dest: vec_pop_SomeD split: bind_splits)

declare prune_tags_loop.simps [simp del]

definition prune_tags ::
    "TxMarker \<Rightarrow> ReadyTransactions \<Rightarrow> (PoolTransaction list \<times> ReadyTransactions) rust" where
  "prune_tags marker r = prune_tags_loop [marker] [] r"

end
