(* ===== verification/Txpool.thy ===== *)
theory Txpool
  imports Pool_Transactions
begin

text \<open>
  The transaction pool, \<^verbatim>\<open>anvil/src/eth/pool/mod.rs\<close>: \<open>PoolInner\<close> combines the
  ready and the pending queue, \<open>Pool\<close> adds the listeners that are told about new ready
  transactions. A listener is a channel sender that accepts a hash, is full, or is closed.
\<close>

subsection \<open>Outcomes\<close>

record AddedReady =
  ar_hash :: TxHash
  ar_promoted :: "TxHash list"
  ar_discarded :: "TxHash list"
  ar_removed :: "PoolTransaction list"

definition AddedReady_new :: "TxHash \<Rightarrow> AddedReady" where
  "AddedReady_new h = \<lparr>ar_hash = h, ar_promoted = [], ar_discarded = [], ar_removed = []\<rparr>"

datatype AddedTransaction = AddedReadyTx AddedReady | AddedPending TxHash

fun added_hash :: "AddedTransaction \<Rightarrow> TxHash" where
  "added_hash (AddedReadyTx tx) = ar_hash tx"
| "added_hash (AddedPending h) = h"

record PruneResult =
  pr_promoted :: "AddedTransaction list"
  pr_failed :: "TxHash list"
  pr_pruned :: "PoolTransaction list"

subsection \<open>The inner pool\<close>

record PoolInner =
  ready_transactions :: ReadyTransactions
  pending_transactions :: PendingTransactions

definition pool_default :: PoolInner where
  "pool_default =
     \<lparr>ready_transactions = ready_default, pending_transactions = pending_default\<rparr>"

definition inner_clear :: "PoolInner \<Rightarrow> PoolInner" where
  "inner_clear p =
     \<lparr>ready_transactions = ready_clear (ready_transactions p),
      pending_transactions = pending_clear (pending_transactions p)\<rparr>"

definition inner_ready_transactions :: "PoolInner \<Rightarrow> TransactionsIterator" where
  "inner_ready_transactions p = get_transactions (ready_transactions p)"

definition get_transaction :: "PoolInner \<Rightarrow> TxHash \<Rightarrow> PendingTransaction option" where
  "get_transaction p hash =
     (case pending_get (pending_transactions p) hash of
        Some pending \<Rightarrow> Some (pending_transaction (pp_transaction pending))
      | None \<Rightarrow>
          map_option (\<lambda>t. pending_transaction (rt_pool_tx t))
            (ready_get (ready_transactions p) hash))"

definition inner_contains :: "PoolInner \<Rightarrow> TxHash \<Rightarrow> bool" where
  "inner_contains p h =
     (pending_contains (pending_transactions p) h \<or> ready_contains (ready_transactions p) h)"

text \<open>
  Pending transactions of the sender, then ready ones. Running the ready iterator to its
  end takes fuel; \<open>None\<close> where the fuel does not suffice.
\<close>

definition transactions_by_sender ::
    "nat \<Rightarrow> (TxHash list \<Rightarrow> TxHash list) \<Rightarrow> PoolInner \<Rightarrow> address \<Rightarrow> PoolTransaction list option" where
  "transactions_by_sender fuel it p sender =
     map_option
       (\<lambda>ready_txs.
          filter (\<lambda>tx. pt_sender (pending_transaction tx) = sender)
            (pending_transactions_iter it (pending_transactions p))
          @ filter (\<lambda>tx. pt_sender (pending_transaction tx) = sender) ready_txs)
       (iter_collect fuel (inner_ready_transactions p))"

subsection \<open>Adding transactions\<close>

lemma unlock_hashes_length:
  "unlock_hashes m hs p ul = Ret (ul', p') \<Longrightarrow>
   length ul' + length (waiting_queue p') \<le> length ul + length (waiting_queue p)"
proof (induction m hs p ul rule: unlock_hashes.induct)
  case (1 m p ul)
  then show ?case by simp
next
  case (2 m h hs p ul)
  show ?case
  proof (cases "hm_get (waiting_queue p) h")
    case None
    with "2.prems" show ?thesis by simp
  next
    case (Some tx)
    then have "length (hm_insert h (mark m tx) (waiting_queue p)) = length (waiting_queue p)"
      by (simp add: length_hm_insert_present)
    moreover have "length (hm_remove h (hm_insert h (mark m tx) (waiting_queue p)))
        < length (hm_insert h (mark m tx) (waiting_queue p))"
      by (rule length_hm_remove_less) (simp add: hm_simps)
    ultimately show ?thesis
      using "2.prems" "2.IH" [OF Some refl refl] Some
      by (fastforce simp: Let_def split: if_splits)
  qed
qed

lemma mark_and_unlock_from_length:
  "mark_and_unlock_from it ms p ul = Ret (ul', p') \<Longrightarrow>
   length ul' + length (waiting_queue p') \<le> length ul + length (waiting_queue p)"
proof (induction it ms p ul rule: mark_and_unlock_from.induct)
  case (1 it p ul)
  then show ?case by simp
next
  case (2 it m ms p ul)
  show ?case
  proof (cases "hm_get (required_markers p) m")
    case None
    with "2" show ?thesis by simp
  next
    case (Some hs)
    with "2.prems" obtain ul1 p1 where
      u: "unlock_hashes m (it hs) (p\<lparr>required_markers := hm_remove m (required_markers p)\<rparr>) ul
          = Ret (ul1, p1)"
      and rest: "mark_and_unlock_from it ms p1 ul1 = Ret (ul', p')"
      by (auto simp: rbind_Ret_iff)
    from unlock_hashes_length [OF u] "2.IH"(2) [OF Some u refl rest]
    show ?thesis by simp
  qed
qed

lemma mark_and_unlock_length:
  "mark_and_unlock it ms p = Ret (ul, p') \<Longrightarrow>
   length ul + length (waiting_queue p') \<le> length (waiting_queue p)"
  unfolding mark_and_unlock_def by (drule mark_and_unlock_from_length) simp

text \<open>
  The queue of \<open>add_ready_transaction\<close>. The third argument says whether the transaction
  at hand is the submitted one. On an error of the submitted transaction the loop stops
  at once; an error of a promoted one is recorded as discarded.
\<close>

function add_ready_loop ::
    "(TxHash list \<Rightarrow> TxHash list) \<Rightarrow> PendingPoolTransaction list \<Rightarrow> bool \<Rightarrow> AddedReady \<Rightarrow> PoolInner \<Rightarrow>
     ((PoolError + AddedReady) \<times> PoolInner) rust" where
  "add_ready_loop it [] is_new ready p = Ret (Inr ready, p)"
| "add_ready_loop it (current # tx_queue) is_new ready p =
     rbind (mark_and_unlock it (provides (pp_transaction current)) (pending_transactions p))
       (\<lambda>(unlocked, pend).
         rbind (ready_add_transaction it current (ready_transactions p))
           (\<lambda>(res, rdy).
             let p' = \<lparr>ready_transactions = rdy, pending_transactions = pend\<rparr>
             in case res of
                  Inr replaced \<Rightarrow>
                    add_ready_loop it (tx_queue @ unlocked) False
                      (ready\<lparr>ar_promoted :=
                               (if is_new then ar_promoted ready
                                else ar_promoted ready @ [pp_hash current]),
                             ar_removed := ar_removed ready @ replaced\<rparr>) p'
                | Inl err \<Rightarrow>
                    if is_new then Ret (Inl err, p')
                    else add_ready_loop it (tx_queue @ unlocked) False
                           (ready\<lparr>ar_discarded := ar_discarded ready @ [pp_hash current]\<rparr>) p'))"
  by pat_completeness auto
termination
  by (relation "measure (\<lambda>(it, q, new, ready, p).
        length q + length (waiting_queue (pending_transactions p)))")
     (auto dest: mark_and_unlock_length)

definition add_ready_transaction ::
    "(TxHash list \<Rightarrow> TxHash list) \<Rightarrow> PendingPoolTransaction \<Rightarrow> PoolInner \<Rightarrow>
     ((PoolError + AddedTransaction) \<times> PoolInner) rust" where
  "add_ready_transaction it tx p =
     (let hash = pp_hash tx in
      rbind (add_ready_loop it [tx] True (AddedReady_new hash) p)
        (\<lambda>(res, p').
          case res of
            Inl err \<Rightarrow> Ret (Inl err, p')
          | Inr ready \<Rightarrow>
              if list_ex (\<lambda>t. pool_tx_hash t = hash) (ar_removed ready)
              then let (_, rdy) = clear_transactions (ar_promoted ready) (ready_transactions p')
                   in Ret (Inl CyclicTransaction, p'\<lparr>ready_transactions := rdy\<rparr>)
              else Ret (Inr (AddedReadyTx ready), p')))"

definition inner_add_transaction ::
    "(TxHash list \<Rightarrow> TxHash list) \<Rightarrow> nat \<Rightarrow> PoolTransaction \<Rightarrow> PoolInner \<Rightarrow>
     ((PoolError + AddedTransaction) \<times> PoolInner) rust" where
  "inner_add_transaction it now tx p =
     (if inner_contains p (pool_tx_hash tx) then Ret (Inl (AlreadyImported tx), p)
      else
        let ptx = PendingPoolTransaction_new tx (provided_markers (ready_transactions p)) now
        in if \<not> is_ready ptx
           then rbind (pending_add_transaction ptx (pending_transactions p))
                  (\<lambda>(res, pend).
                    let p' = p\<lparr>pending_transactions := pend\<rparr>
                    in case res of
                         Inl err \<Rightarrow> Ret (Inl err, p')
                       | Inr _ \<Rightarrow> Ret (Inr (AddedPending (pp_hash ptx)), p'))
           else add_ready_transaction it ptx p)"

subsection \<open>Pruning and removing\<close>

fun prune_markers_collect ::
    "(TxHash list \<Rightarrow> TxHash list) \<Rightarrow> TxMarker list \<Rightarrow> PendingPoolTransaction list \<Rightarrow>
     PoolTransaction list \<Rightarrow> PoolInner \<Rightarrow>
     (PendingPoolTransaction list \<times> PoolTransaction list \<times> PoolInner) rust" where
  "prune_markers_collect it [] imports pruned p = Ret (imports, pruned, p)"
| "prune_markers_collect it (m # ms) imports pruned p =
     rbind (mark_and_unlock it [m] (pending_transactions p))
       (\<lambda>(unlocked, pend).
         rbind (prune_tags m (ready_transactions p))
           (\<lambda>(removed, rdy).
             prune_markers_collect it ms (imports @ unlocked) (pruned @ removed)
               \<lparr>ready_transactions = rdy, pending_transactions = pend\<rparr>))"

fun prune_markers_import ::
    "(TxHash list \<Rightarrow> TxHash list) \<Rightarrow> PendingPoolTransaction list \<Rightarrow> AddedTransaction list \<Rightarrow>
     TxHash list \<Rightarrow> PoolInner \<Rightarrow> (AddedTransaction list \<times> TxHash list \<times> PoolInner) rust" where
  "prune_markers_import it [] promoted failed p = Ret (promoted, failed, p)"
| "prune_markers_import it (tx # txs) promoted failed p =
     rbind (add_ready_transaction it tx p)
       (\<lambda>(res, p').
         case res of
           Inr added \<Rightarrow> prune_markers_import it txs (promoted @ [added]) failed p'
         | Inl e \<Rightarrow> prune_markers_import it txs promoted (failed @ [pp_hash tx]) p')"

definition inner_prune_markers ::
    "(TxHash list \<Rightarrow> TxHash list) \<Rightarrow> TxMarker list \<Rightarrow> PoolInner \<Rightarrow> (PruneResult \<times> PoolInner) rust" where
  "inner_prune_markers it markers p =
     rbind (prune_markers_collect it markers [] [] p)
       (\<lambda>(imports, pruned, p1).
         rbind (prune_markers_import it imports [] [] p1)
           (\<lambda>(promoted, failed, p2).
             Ret (\<lparr>pr_promoted = promoted, pr_failed = failed, pr_pruned = pruned\<rparr>, p2)))"

definition inner_remove_invalid ::
    "TxHash list \<Rightarrow> PoolInner \<Rightarrow> PoolTransaction list \<times> PoolInner" where
  "inner_remove_invalid tx_hashes p =
     (if tx_hashes = [] then ([], p)
      else
        let (removed, rdy) = remove_with_markers tx_hashes None (ready_transactions p);
            (removed', pend) = pending_remove tx_hashes (pending_transactions p)
        in (removed @ removed', \<lparr>ready_transactions = rdy, pending_transactions = pend\<rparr>))"

definition remove_transactions_by_address ::
    "nat \<Rightarrow> (TxHash list \<Rightarrow> TxHash list) \<Rightarrow> address \<Rightarrow> PoolInner \<Rightarrow>
     (PoolTransaction list \<times> PoolInner) option" where
  "remove_transactions_by_address fuel it sender p =
     map_option
       (\<lambda>txs.
          let tx_hashes = map pool_tx_hash txs
          in if tx_hashes = [] then ([], p)
             else
               let (removed, rdy) = remove_with_markers tx_hashes None (ready_transactions p);
                   (removed', pend) = pending_remove tx_hashes (pending_transactions p)
               in (removed @ removed', \<lparr>ready_transactions = rdy, pending_transactions = pend\<rparr>))
       (transactions_by_sender fuel it p sender)"

subsection \<open>The pool and its listeners\<close>

datatype send_result = SendOk | SendFull | SendClosed

text \<open>
  A listener is the sending end of a channel; \<open>try_send\<close> is the channel's operation
  and a parameter.
\<close>

record 'l Pool =
  pool_inner :: PoolInner
  transaction_listener :: "'l list"

text \<open>
  The loop of \<open>notify_listener\<close> runs over the indices from the last to the first,
  takes each listener out with \<open>swap_remove\<close> and pushes it back if it is to be kept.
\<close>

fun notify_loop ::
    "(TxHash \<Rightarrow> 'l \<Rightarrow> send_result \<times> 'l) \<Rightarrow> nat \<Rightarrow> TxHash \<Rightarrow> 'l list \<Rightarrow> 'l list" where
  "notify_loop try_send 0 h ls = ls"
| "notify_loop try_send (Suc n) h ls =
     (let (res, l) = try_send h (ls ! n); rest = swap_remove n ls
      in notify_loop try_send n h (if res = SendClosed then rest else rest @ [l]))"

definition notify_listener ::
    "(TxHash \<Rightarrow> 'l \<Rightarrow> send_result \<times> 'l) \<Rightarrow> TxHash \<Rightarrow> 'l Pool \<Rightarrow> 'l Pool" where
  "notify_listener try_send h p =
     p\<lparr>transaction_listener :=
          notify_loop try_send (length (transaction_listener p)) h (transaction_listener p)\<rparr>"

definition add_ready_listener :: "'l \<Rightarrow> 'l Pool \<Rightarrow> 'l Pool" where
  "add_ready_listener tx p = p\<lparr>transaction_listener := transaction_listener p @ [tx]\<rparr>"

definition pool_add_transaction ::
    "(TxHash \<Rightarrow> 'l \<Rightarrow> send_result \<times> 'l) \<Rightarrow> (TxHash list \<Rightarrow> TxHash list) \<Rightarrow> nat \<Rightarrow>
     PoolTransaction \<Rightarrow> 'l Pool \<Rightarrow> ((PoolError + AddedTransaction) \<times> 'l Pool) rust" where
  "pool_add_transaction try_send it now tx p =
     rbind (inner_add_transaction it now tx (pool_inner p))
       (\<lambda>(res, inner).
         let p' = p\<lparr>pool_inner := inner\<rparr>
         in case res of
              Inl err \<Rightarrow> Ret (Inl err, p')
            | Inr (AddedPending h) \<Rightarrow> Ret (Inr (AddedPending h), p')
            | Inr (AddedReadyTx ready) \<Rightarrow>
                Ret (Inr (AddedReadyTx ready),
                     fold (notify_listener try_send) (ar_promoted ready)
                       (notify_listener try_send (ar_hash ready) p')))"

text \<open>
  The number of ready and of waiting transactions. Counting the ready ones runs the iterator
  to its end; conversions to \<^verbatim>\<open>u64\<close> that fail give 0.
\<close>

definition usize_to_u64 :: "nat \<Rightarrow> u64" where
  "usize_to_u64 n = (if n < 2 ^ 64 then of_nat n else 0)"

definition txpool_status :: "nat \<Rightarrow> PoolInner \<Rightarrow> (u64 \<times> u64) option" where
  "txpool_status fuel p =
     map_option
       (\<lambda>txs. (usize_to_u64 (length txs), usize_to_u64 (pending_len (pending_transactions p))))
       (iter_collect fuel (inner_ready_transactions p))"

record MinedBlockOutcome =
  mb_block_number :: u64
  mb_included :: "PoolTransaction list"
  mb_invalid :: "PoolTransaction list"

definition on_mined_block ::
    "(TxHash list \<Rightarrow> TxHash list) \<Rightarrow> MinedBlockOutcome \<Rightarrow> PoolInner \<Rightarrow> (PruneResult \<times> PoolInner) rust" where
  "on_mined_block it outcome p =
     (let (_, p1) = inner_remove_invalid (map pool_tx_hash (mb_invalid outcome)) p
      in inner_prune_markers it (concat (map provides (mb_included outcome))) p1)"

definition drop_transaction ::
    "TxHash \<Rightarrow> PoolInner \<Rightarrow> PoolTransaction option \<times> PoolInner" where
  "drop_transaction tx p =
     (let (removed, rdy) = remove_with_markers [tx] None (ready_transactions p)
      in (if removed = [] then None else find (\<lambda>t. pool_tx_hash t = tx) removed,
          p\<lparr>ready_transactions := rdy\<rparr>))"

end
