(* ===== verification/Pool_Pending_Inv.thy ===== *)
theory Pool_Pending_Inv
  imports Txpool
begin

text \<open>
  The invariant of the queue of pending transactions (\<open>PendingTransactions\<close> of
  \<open>anvil/src/eth/pool/transactions.rs\<close>) and what its operations do: the index of required
  markers agrees with the markers the waiting transactions miss, \<open>mark_and_unlock\<close> never
  reaches its \<open>expect\<close> and unlocks exactly the transactions whose missing markers are all
  given, and adding and removing keep the invariant.
\<close>

text \<open>A transaction whose markers are well formed: none is provided twice or also required.\<close>

definition tx_ok :: "PoolTransaction \<Rightarrow> bool" where
  "tx_ok tx = (distinct (provides tx) \<and> set (requires tx) \<inter> set (provides tx) = {})"

text \<open>The hashes that wait for a marker, and the markers a waiting hash misses.\<close>

definition waits_for :: "PendingTransactions \<Rightarrow> TxMarker \<Rightarrow> TxHash set" where
  "waits_for p m = (case hm_get (required_markers p) m of Some hs \<Rightarrow> set hs | None \<Rightarrow> {})"

definition misses :: "PendingTransactions \<Rightarrow> TxHash \<Rightarrow> TxMarker set" where
  "misses p h = (case hm_get (waiting_queue p) h of Some w \<Rightarrow> set (missing_markers w) | None \<Rightarrow> {})"

definition waiting_ok :: "TxHash \<Rightarrow> PendingPoolTransaction \<Rightarrow> bool" where
  "waiting_ok h w = (pp_hash w = h \<and> missing_markers w \<noteq> [] \<and> tx_ok (pp_transaction w))"

text \<open>
  The invariant of the pending queue, up to a marker \<open>m\<close> that is being checked off the
  transactions \<open>hs\<close>; the invariant itself is the case without such a marker.
\<close>

definition pend_inv_at :: "TxMarker option \<Rightarrow> TxHash list \<Rightarrow> PendingTransactions \<Rightarrow> bool" where
  "pend_inv_at mo hs p =
     (hm_wf (waiting_queue p) \<and>
      (\<forall>h w. hm_get (waiting_queue p) h = Some w \<longrightarrow> waiting_ok h w) \<and>
      (\<forall>m hs'. hm_get (required_markers p) m = Some hs' \<longrightarrow> hs' \<noteq> [] \<and> distinct hs') \<and>
      (\<forall>m h. h \<in> (if mo = Some m then set hs else waits_for p m) \<longleftrightarrow> m \<in> misses p h) \<and>
      (\<forall>m. mo = Some m \<longrightarrow> hm_get (required_markers p) m = None \<and> distinct hs) \<and>
      (\<forall>ps h. hm_get (waiting_markers p) ps = Some h \<longrightarrow>
         (\<exists>w. hm_get (waiting_queue p) h = Some w \<and> provides (pp_transaction w) = ps)))"

abbreviation pend_inv :: "PendingTransactions \<Rightarrow> bool" where
  "pend_inv p \<equiv> pend_inv_at None [] p"

lemma pend_inv_default: "pend_inv pending_default"
  by (simp add: pend_inv_at_def pending_default_def waits_for_def misses_def)

lemma pend_inv_clear: "pend_inv (pending_clear p)"
  by (simp add: pend_inv_at_def pending_clear_def waits_for_def misses_def)

lemma mark_simps [simp]:
  "pp_transaction (mark m w) = pp_transaction w"
  "pp_hash (mark m w) = pp_hash w"
  "set (missing_markers (mark m w)) = set (missing_markers w) - {m}"
  by (simp_all add: mark_def pp_hash_def)

lemma is_ready_set: "is_ready w \<longleftrightarrow> set (missing_markers w) = {}"
  by (simp add: is_ready_def)

lemma pend_inv_at_step:
  assumes inv: "pend_inv_at (Some m) (h # hs) p"
    and w: "hm_get (waiting_queue p) h = Some w"
  shows pend_inv_at_step_ready:
      "is_ready (mark m w) \<Longrightarrow>
       pend_inv_at (Some m) hs
         (p\<lparr>waiting_queue := hm_remove h (hm_insert h (mark m w) (waiting_queue p)),
            waiting_markers := hm_remove (provides (pp_transaction w)) (waiting_markers p)\<rparr>)"
    and pend_inv_at_step_wait:
      "\<not> is_ready (mark m w) \<Longrightarrow>
       pend_inv_at (Some m) hs (p\<lparr>waiting_queue := hm_insert h (mark m w) (waiting_queue p)\<rparr>)"
proof -
  from inv have wf: "hm_wf (waiting_queue p)"
    and ok: "\<And>h w. hm_get (waiting_queue p) h = Some w \<Longrightarrow> waiting_ok h w"
    and rq: "\<And>m hs'. hm_get (required_markers p) m = Some hs' \<Longrightarrow> hs' \<noteq> [] \<and> distinct hs'"
    and eq: "\<And>m' h'. h' \<in> (if m = m' then set (h # hs) else waits_for p m') \<longleftrightarrow> m' \<in> misses p h'"
    and none: "hm_get (required_markers p) m = None" and dist: "distinct (h # hs)"
    and wm: "\<And>ps h. hm_get (waiting_markers p) ps = Some h \<Longrightarrow>
         \<exists>w. hm_get (waiting_queue p) h = Some w \<and> provides (pp_transaction w) = ps"
    unfolding pend_inv_at_def by auto
  have mh: "misses p h = set (missing_markers w)" using w by (simp add: misses_def)
  {
    assume rdy: "is_ready (mark m w)"
    let ?p = "p\<lparr>waiting_queue := hm_remove h (hm_insert h (mark m w) (waiting_queue p)),
            waiting_markers := hm_remove (provides (pp_transaction w)) (waiting_markers p)\<rparr>"
    have miss: "misses ?p h' = (if h' = h then {} else misses p h')" for h'
      by (simp add: misses_def hm_simps)
    have only: "set (missing_markers w) \<subseteq> {m}" using rdy by (auto simp: is_ready_set)
    have "h' \<in> (if m = m' then set hs else waits_for ?p m') \<longleftrightarrow> m' \<in> misses ?p h'" for m' h'
      using eq [of h' m'] only dist mh by (auto simp: miss waits_for_def split: if_splits)
    moreover have "\<exists>w'. hm_get (waiting_queue ?p) h' = Some w' \<and> provides (pp_transaction w') = ps"
      if "hm_get (waiting_markers ?p) ps = Some h'" for ps h'
    proof -
      from that have ne: "ps \<noteq> provides (pp_transaction w)"
        and "hm_get (waiting_markers p) ps = Some h'"
        by (auto simp: hm_simps split: if_splits)
      with wm obtain w' where "hm_get (waiting_queue p) h' = Some w'" "provides (pp_transaction w') = ps"
        by blast
      with ne w show ?thesis by (auto simp: hm_simps)
    qed
    ultimately show "pend_inv_at (Some m) hs ?p"
      unfolding pend_inv_at_def
      using wf ok rq none dist by (auto simp: hm_simps split: if_splits)
  }
  {
    assume nrdy: "\<not> is_ready (mark m w)"
    let ?p = "p\<lparr>waiting_queue := hm_insert h (mark m w) (waiting_queue p)\<rparr>"
    have miss: "misses ?p h' = (if h' = h then misses p h - {m} else misses p h')" for h'
      by (simp add: misses_def hm_simps w)
    have "h' \<in> (if m = m' then set hs else waits_for ?p m') \<longleftrightarrow> m' \<in> misses ?p h'" for m' h'
      using eq [of h' m'] dist by (auto simp: miss waits_for_def split: if_splits)
    moreover have "waiting_ok h (mark m w)"
      using ok [OF w] nrdy by (simp add: waiting_ok_def is_ready_def)
    moreover have "\<exists>w'. hm_get (waiting_queue ?p) h' = Some w' \<and> provides (pp_transaction w') = ps"
      if "hm_get (waiting_markers ?p) ps = Some h'" for ps h'
      using wm [of ps h'] that w by (auto simp: hm_simps)
    ultimately show "pend_inv_at (Some m) hs ?p"
      unfolding pend_inv_at_def
      using wf ok rq none dist by (auto simp: hm_simps split: if_splits)
  }
qed

text \<open>
  What checking off the markers \<open>ms\<close> does to the queue: every waiting transaction misses
  the markers it missed except these, those that miss nothing any more are the unlocked
  ones, each exactly once, and all others stay.
\<close>

definition unlock_post ::
    "TxMarker set \<Rightarrow> PendingTransactions \<Rightarrow> PendingPoolTransaction list \<Rightarrow> PendingTransactions \<Rightarrow> bool" where
  "unlock_post ms p us p' =
     ((\<forall>h. misses p' h = misses p h - ms) \<and>
      distinct (map pp_hash us) \<and>
      pp_hash ` set us = {h \<in> dom (hm_get (waiting_queue p)). misses p h \<subseteq> ms} \<and>
      dom (hm_get (waiting_queue p')) = dom (hm_get (waiting_queue p)) - pp_hash ` set us \<and>
      (\<forall>u \<in> set us. is_ready u \<and>
         (\<exists>w. hm_get (waiting_queue p) (pp_hash u) = Some w \<and> pp_transaction u = pp_transaction w)) \<and>
      (\<forall>h w'. hm_get (waiting_queue p') h = Some w' \<longrightarrow>
         (\<exists>w. hm_get (waiting_queue p) h = Some w \<and> pp_transaction w' = pp_transaction w)))"

lemma pend_inv_at_misses:
  assumes "pend_inv_at mo hs p" "hm_get (waiting_queue p) h = Some w"
  shows "misses p h \<noteq> {}" "pp_hash w = h" "tx_ok (pp_transaction w)"
  using assms by (auto simp: pend_inv_at_def misses_def waiting_ok_def)

lemma pend_inv_at_mem:
  assumes "pend_inv_at (Some m) hs p"
  shows "h \<in> set hs \<longleftrightarrow> m \<in> misses p h" "distinct hs"
  using assms unfolding pend_inv_at_def by (metis (full_types))+

lemma pend_inv_mem: "pend_inv p \<Longrightarrow> h \<in> waits_for p m \<longleftrightarrow> m \<in> misses p h"
  unfolding pend_inv_at_def by simp

lemma unlock_post_refl:
  assumes "pend_inv_at mo hs p" "\<And>h. misses p h \<inter> ms = {}"
  shows "unlock_post ms p [] p"
proof -
  have "\<not> misses p h \<subseteq> ms" if "h \<in> dom (hm_get (waiting_queue p))" for h
    using pend_inv_at_misses(1) [OF assms(1)] assms(2) [of h] that by blast
  then show ?thesis
    using assms(2) unfolding unlock_post_def by auto
qed

lemma unlock_postD:
  assumes "unlock_post ms p us p'"
  shows unlock_post_misses: "misses p' h = misses p h - ms"
    and unlock_post_distinct: "distinct (map pp_hash us)"
    and unlock_post_hashes:
      "pp_hash ` set us = {h \<in> dom (hm_get (waiting_queue p)). misses p h \<subseteq> ms}"
    and unlock_post_dom:
      "dom (hm_get (waiting_queue p')) = dom (hm_get (waiting_queue p)) - pp_hash ` set us"
    and unlock_post_unlocked:
      "u \<in> set us \<Longrightarrow> is_ready u \<and>
         (\<exists>w. hm_get (waiting_queue p) (pp_hash u) = Some w \<and> pp_transaction u = pp_transaction w)"
    and unlock_post_kept:
      "hm_get (waiting_queue p') h = Some w' \<Longrightarrow>
         \<exists>w. hm_get (waiting_queue p) h = Some w \<and> pp_transaction w' = pp_transaction w"
  using assms unfolding unlock_post_def by simp_all

lemma unlock_post_trans:
  assumes 1: "unlock_post A p us1 p1" and 2: "unlock_post B p1 us2 p2"
  shows "unlock_post (A \<union> B) p (us1 @ us2) p2"
proof -
  note d1 = unlock_post_dom [OF 1] and d2 = unlock_post_dom [OF 2]
  note h1 = unlock_post_hashes [OF 1] and h2 = unlock_post_hashes [OF 2]
  note m1 = unlock_post_misses [OF 1] and m2 = unlock_post_misses [OF 2]
  have im: "pp_hash ` set (us1 @ us2) = pp_hash ` set us1 \<union> pp_hash ` set us2"
    by (simp add: image_Un)
  have disj: "pp_hash ` set us1 \<inter> pp_hash ` set us2 = {}"
    using h2 d1 by blast
  have hashes: "h \<in> pp_hash ` set (us1 @ us2) \<longleftrightarrow>
      h \<in> dom (hm_get (waiting_queue p)) \<and> misses p h \<subseteq> A \<union> B" for h
  proof -
    have "h \<in> pp_hash ` set us2 \<longleftrightarrow>
        h \<in> dom (hm_get (waiting_queue p)) \<and> \<not> misses p h \<subseteq> A \<and> misses p h - A \<subseteq> B"
      by (simp add: h2 d1 h1 m1) blast
    moreover have "h \<in> pp_hash ` set us1 \<longleftrightarrow> h \<in> dom (hm_get (waiting_queue p)) \<and> misses p h \<subseteq> A"
      by (simp add: h1)
    ultimately show ?thesis unfolding im by (auto simp del: domIff)
  qed
  have "distinct (map pp_hash (us1 @ us2))"
    using unlock_post_distinct [OF 1] unlock_post_distinct [OF 2] disj by simp
  moreover have "pp_hash ` set (us1 @ us2) =
      {h \<in> dom (hm_get (waiting_queue p)). misses p h \<subseteq> A \<union> B}"
    by (rule set_eqI) (simp only: hashes mem_Collect_eq)
  moreover have "dom (hm_get (waiting_queue p2)) =
      dom (hm_get (waiting_queue p)) - pp_hash ` set (us1 @ us2)"
    by (simp only: d2 d1 im Diff_eq Compl_Un Int_assoc)
  moreover have "is_ready u \<and>
      (\<exists>w. hm_get (waiting_queue p) (pp_hash u) = Some w \<and> pp_transaction u = pp_transaction w)"
    if "u \<in> set (us1 @ us2)" for u
    using that unlock_post_unlocked [OF 1, of u] unlock_post_unlocked [OF 2, of u]
      unlock_post_kept [OF 1, of "pp_hash u"] by (auto simp del: domIff)
  moreover have "\<exists>w. hm_get (waiting_queue p) h = Some w \<and> pp_transaction w' = pp_transaction w"
    if "hm_get (waiting_queue p2) h = Some w'" for h w'
    using unlock_post_kept [OF 2 that] unlock_post_kept [OF 1, of h] by force
  ultimately show ?thesis
    unfolding unlock_post_def by (simp add: m1 m2 Diff_eq Int_assoc)
qed

text \<open>The inner loop in closed form.\<close>

definition unlocked_of ::
    "TxMarker \<Rightarrow> (TxHash \<rightharpoonup> PendingPoolTransaction) \<Rightarrow> TxHash list \<Rightarrow> PendingPoolTransaction list" where
  "unlocked_of m q hs =
     map (\<lambda>h. mark m (the (q h))) (filter (\<lambda>h. is_ready (mark m (the (q h)))) hs)"

definition marked_queue ::
    "TxMarker \<Rightarrow> TxHash set \<Rightarrow> (TxHash \<rightharpoonup> PendingPoolTransaction) \<Rightarrow> TxHash \<rightharpoonup> PendingPoolTransaction" where
  "marked_queue m H q h =
     (if h \<in> H
      then Option.bind (q h) (\<lambda>w. if is_ready (mark m w) then None else Some (mark m w))
      else q h)"

lemma unlocked_of_fun_upd:
  "h \<notin> set hs \<Longrightarrow> unlocked_of m (q(h := x)) hs = unlocked_of m q hs"
  by (induction hs) (auto simp: unlocked_of_def)

lemma marked_queue_Cons:
  assumes "h \<notin> H" "q h = Some w"
    "q' = (if is_ready (mark m w) then q(h := None) else q(h \<mapsto> mark m w))"
  shows "marked_queue m H q' = marked_queue m (insert h H) q"
  using assms by (auto simp: marked_queue_def fun_eq_iff)

lemma unlock_hashes_closed:
  assumes "pend_inv_at (Some m) hs p"
  shows "\<exists>p'. unlock_hashes m hs p ul = Ret (ul @ unlocked_of m (hm_get (waiting_queue p)) hs, p') \<and>
           pend_inv_at (Some m) [] p' \<and>
           hm_get (waiting_queue p') = marked_queue m (set hs) (hm_get (waiting_queue p))"
  using assms
proof (induction hs arbitrary: p ul)
  case Nil
  then show ?case by (simp add: unlocked_of_def marked_queue_def fun_eq_iff)
next
  case (Cons h hs)
  note inv = Cons.prems
  let ?q = "hm_get (waiting_queue p)"
  have "m \<in> misses p h" and nin: "h \<notin> set hs"
    using pend_inv_at_mem [OF inv] by auto
  then obtain w where w: "?q h = Some w"
    by (auto simp: misses_def split: option.splits)
  show ?case
  proof (cases "is_ready (mark m w)")
    case True
    have "unlocked_of m ?q (h # hs) = mark m w # unlocked_of m (?q(h := None)) hs"
      using True w nin by (simp add: unlocked_of_fun_upd) (simp add: unlocked_of_def)
    moreover have "marked_queue m (set hs) (?q(h := None)) = marked_queue m (set (h # hs)) ?q"
      using marked_queue_Cons [where q = ?q and q' = "?q(h := None)" and m = m, OF nin w] True by simp
    ultimately show ?thesis
      using Cons.IH [OF pend_inv_at_step_ready [OF inv w True], of "ul @ [mark m w]"] True w
      by (simp add: Let_def hm_simps delete_update_same fun_upd_def)
  next
    case False
    have "unlocked_of m ?q (h # hs) = unlocked_of m (?q(h \<mapsto> mark m w)) hs"
      using False w nin by (simp add: unlocked_of_fun_upd) (simp add: unlocked_of_def)
    moreover have "marked_queue m (set hs) (?q(h \<mapsto> mark m w)) = marked_queue m (set (h # hs)) ?q"
      using marked_queue_Cons [where q = ?q and q' = "?q(h \<mapsto> mark m w)" and m = m, OF nin w] False by simp
    ultimately show ?thesis
      using Cons.IH [OF pend_inv_at_step_wait [OF inv w False], of ul] False w
      by (simp add: Let_def hm_simps fun_upd_def)
  qed
qed

text \<open>The closed form gives the specification for one marker.\<close>

lemma misses_conv:
  "misses p h = (case hm_get (waiting_queue p) h of Some w \<Rightarrow> set (missing_markers w) | None \<Rightarrow> {})"
  by (simp add: misses_def)

lemma unlock_post_marker:
  assumes inv: "pend_inv_at (Some m) hs p"
    and q': "hm_get (waiting_queue p') = marked_queue m (set hs) (hm_get (waiting_queue p))"
  shows "unlock_post {m} p (unlocked_of m (hm_get (waiting_queue p)) hs) p'"
proof -
  let ?q = "hm_get (waiting_queue p)" and ?us = "unlocked_of m (hm_get (waiting_queue p)) hs"
  have mem: "h \<in> set hs \<longleftrightarrow> m \<in> misses p h" for h
    by (rule pend_inv_at_mem [OF inv])
  have dist: "distinct hs" by (rule pend_inv_at_mem [OF inv])
  have ready: "is_ready (mark m w) \<longleftrightarrow> misses p h \<subseteq> {m}" if "?q h = Some w" for h w
    using that by (auto simp: is_ready_set misses_conv)
  have hash: "pp_hash w = h" "misses p h \<noteq> {}" if "?q h = Some w" for h w
    using pend_inv_at_misses [OF inv that] by simp_all
  have dom_hs: "\<exists>w. ?q h = Some w" if "h \<in> set hs" for h
    using that mem by (auto simp: misses_conv split: option.splits)
  have us: "u \<in> set ?us \<longleftrightarrow> (\<exists>h w. h \<in> set hs \<and> ?q h = Some w \<and> is_ready (mark m w) \<and> u = mark m w)" for u
    using dom_hs by (force simp: unlocked_of_def)
  have hs_eq: "map pp_hash ?us = filter (\<lambda>h. is_ready (mark m (the (?q h)))) hs"
    using dom_hs hash(1) by (force simp: unlocked_of_def intro!: map_idI)
  have hashes: "pp_hash ` set ?us = {h \<in> dom ?q. misses p h \<subseteq> {m}}"
  proof (rule set_eqI)
    fix h
    have "h \<in> pp_hash ` set ?us \<longleftrightarrow> h \<in> set hs \<and> is_ready (mark m (the (?q h)))"
      by (simp flip: set_map add: hs_eq)
    also have "\<dots> \<longleftrightarrow> h \<in> {h \<in> dom ?q. misses p h \<subseteq> {m}}"
      using dom_hs [of h] ready [of h] mem [of h] hash(2) [of h] by fastforce
    finally show "h \<in> pp_hash ` set ?us \<longleftrightarrow> h \<in> {h \<in> dom ?q. misses p h \<subseteq> {m}}" .
  qed
  have miss: "misses p' h = misses p h - {m}" for h
    using mem [of h] ready [of h]
    by (cases "?q h") (auto simp: misses_conv q' marked_queue_def)
  have dom': "dom (hm_get (waiting_queue p')) = dom ?q - pp_hash ` set ?us"
    unfolding hashes
  proof (rule set_eqI)
    fix h
    show "h \<in> dom (hm_get (waiting_queue p')) \<longleftrightarrow> h \<in> dom ?q - {h \<in> dom ?q. misses p h \<subseteq> {m}}"
      using mem [of h] ready [of h] hash(2) [of h]
      by (cases "?q h") (auto simp: q' marked_queue_def)
  qed
  have kept: "\<exists>w. ?q h = Some w \<and> pp_transaction w' = pp_transaction w"
    if "hm_get (waiting_queue p') h = Some w'" for h w'
    using that by (cases "?q h") (auto simp: q' marked_queue_def split: if_splits)
  have unl: "is_ready u \<and> (\<exists>w. ?q (pp_hash u) = Some w \<and> pp_transaction u = pp_transaction w)"
    if "u \<in> set ?us" for u
    using that hash(1) unfolding us by fastforce
  show ?thesis
    unfolding unlock_post_def
    using miss hashes dom' kept unl dist by (simp add: hs_eq)
qed
text \<open>All markers: the outer loop.\<close>

lemma pend_inv_enter:
  assumes inv: "pend_inv p" and hs: "hm_get (required_markers p) m = Some hs"
    and it: "iteration_order it"
  shows "pend_inv_at (Some m) (it hs) (p\<lparr>required_markers := hm_remove m (required_markers p)\<rparr>)"
proof -
  let ?p = "p\<lparr>required_markers := hm_remove m (required_markers p)\<rparr>"
  have ms: "misses ?p = misses p" by (simp add: misses_def fun_eq_iff)
  have wf: "waits_for ?p m' = (if m' = m then {} else waits_for p m')" for m'
    by (simp add: waits_for_def hm_simps)
  have rq: "waits_for p m = set (it hs)"
    using hs by (simp add: waits_for_def iteration_order_set [OF it])
  have "distinct (it hs)"
    using inv hs by (auto simp: pend_inv_at_def iteration_order_distinct [OF it])
  then show ?thesis
    using inv unfolding pend_inv_at_def by (auto simp: ms wf rq [symmetric] hm_simps split: if_splits)
qed

lemma pend_inv_exit: "pend_inv_at (Some m) [] p \<Longrightarrow> pend_inv p"
proof -
  assume inv: "pend_inv_at (Some m) [] p"
  then have "waits_for p m = {}" by (simp add: pend_inv_at_def waits_for_def)
  moreover have "(if Some m = Some m' then set [] else waits_for p m') = waits_for p m'" for m'
    using calculation by auto
  ultimately show ?thesis
    using inv unfolding pend_inv_at_def by (simp del: option.inject)
qed

lemma mark_and_unlock_from_spec:
  assumes "pend_inv p" "iteration_order it"
  shows "\<exists>us p'. mark_and_unlock_from it ms p ul = Ret (ul @ us, p') \<and> pend_inv p' \<and>
           unlock_post (set ms) p us p'"
  using assms
proof (induction ms arbitrary: p ul)
  case Nil
  then show ?case by (auto intro!: exI [of _ "[]"] unlock_post_refl)
next
  case (Cons m ms)
  show ?case
  proof (cases "hm_get (required_markers p) m")
    case None
    then have "misses p h \<inter> {m} = {}" for h
      using pend_inv_mem [OF Cons.prems(1), of h m] by (simp add: waits_for_def)
    then have here: "unlock_post {m} p [] p"
      by (rule unlock_post_refl [OF Cons.prems(1)])
    from Cons.IH [OF Cons.prems, of ul] None unlock_post_trans [OF here]
    show ?thesis by fastforce
  next
    case (Some hs)
    let ?p = "p\<lparr>required_markers := hm_remove m (required_markers p)\<rparr>"
    note enter = pend_inv_enter [OF Cons.prems(1) Some Cons.prems(2)]
    from unlock_hashes_closed [OF enter, of ul] obtain us1 p1 where
      run: "unlock_hashes m (it hs) ?p ul = Ret (ul @ us1, p1)"
      and inv1: "pend_inv p1" and post: "unlock_post {m} ?p us1 p1"
      using unlock_post_marker [OF enter] pend_inv_exit by blast
    from post have here: "unlock_post {m} p us1 p1"
      by (simp add: unlock_post_def misses_def)
    from Cons.IH [OF inv1 Cons.prems(2), of "ul @ us1"] run Some unlock_post_trans [OF here]
    show ?thesis by fastforce
  qed
qed

lemma mark_and_unlock_spec:
  assumes "pend_inv p" "iteration_order it"
  obtains us p' where "mark_and_unlock it ms p = Ret (us, p')" "pend_inv p'"
    "unlock_post (set ms) p us p'"
  using mark_and_unlock_from_spec [OF assms, of ms "[]"] that
  unfolding mark_and_unlock_def by auto

text \<open>Adding to and removing from the pending queue.\<close>

definition marker_table_ok :: "(TxMarker, TxHash list) hmap \<Rightarrow> bool" where
  "marker_table_ok rm = (\<forall>m hs. hm_get rm m = Some hs \<longrightarrow> hs \<noteq> [] \<and> distinct hs)"

definition marker_set :: "(TxMarker, TxHash list) hmap \<Rightarrow> TxMarker \<Rightarrow> TxHash set" where
  "marker_set rm m = (case hm_get rm m of Some hs \<Rightarrow> set hs | None \<Rightarrow> {})"

lemma waits_for_marker_set: "waits_for p m = marker_set (required_markers p) m"
  by (simp add: waits_for_def marker_set_def)

lemma require_marker_set:
  "marker_set (require_marker h m rm) m' = marker_set rm m' \<union> (if m' = m then {h} else {})"
  by (auto simp: marker_set_def require_marker_def hm_simps split: option.splits)

lemma require_marker_ok: "marker_table_ok rm \<Longrightarrow> marker_table_ok (require_marker h m rm)"
  by (auto simp: marker_table_ok_def require_marker_def hm_simps hs_insert_def
        split: option.splits if_splits)

lemma fold_require_marker:
  "marker_set (fold (require_marker h) ms rm) m = marker_set rm m \<union> (if m \<in> set ms then {h} else {})"
  "marker_table_ok rm \<Longrightarrow> marker_table_ok (fold (require_marker h) ms rm)"
  by (induction ms arbitrary: rm) (auto simp: require_marker_set require_marker_ok)

lemma unrequire_marker_set:
  "marker_set (unrequire_marker h m rm) m' = marker_set rm m' - (if m' = m then {h} else {})"
proof (cases "hm_get rm m")
  case None
  then show ?thesis by (auto simp: marker_set_def unrequire_marker_def)
next
  case (Some hs)
  then have "marker_set rm m = set hs" by (simp add: marker_set_def)
  moreover have "hs_remove h hs = [] \<longleftrightarrow> set hs - {h} = {}"
    using set_removeAll [of h hs] by (simp add: hs_remove_def flip: set_empty)
  ultimately show ?thesis
    using Some by (auto simp: marker_set_def unrequire_marker_def Let_def hm_simps hs_remove_def)
qed

lemma unrequire_marker_ok: "marker_table_ok rm \<Longrightarrow> marker_table_ok (unrequire_marker h m rm)"
  by (auto simp: marker_table_ok_def unrequire_marker_def Let_def hm_simps
        split: option.splits if_splits)

lemma fold_unrequire_marker:
  "marker_set (fold (unrequire_marker h) ms rm) m = marker_set rm m - (if m \<in> set ms then {h} else {})"
  "marker_table_ok rm \<Longrightarrow> marker_table_ok (fold (unrequire_marker h) ms rm)"
  by (induction ms arbitrary: rm) (auto simp: unrequire_marker_set unrequire_marker_ok)

lemma pend_invI:
  assumes "hm_wf (waiting_queue p)"
    and "\<And>h w. hm_get (waiting_queue p) h = Some w \<Longrightarrow> waiting_ok h w"
    and "marker_table_ok (required_markers p)"
    and "\<And>m h. h \<in> marker_set (required_markers p) m \<longleftrightarrow> m \<in> misses p h"
    and "\<And>ps h. hm_get (waiting_markers p) ps = Some h \<Longrightarrow>
           \<exists>w. hm_get (waiting_queue p) h = Some w \<and> provides (pp_transaction w) = ps"
  shows "pend_inv p"
  using assms unfolding pend_inv_at_def marker_table_ok_def waits_for_marker_set by simp

lemma pend_invD:
  assumes "pend_inv p"
  shows "hm_wf (waiting_queue p)"
    and "hm_get (waiting_queue p) h = Some w \<Longrightarrow> waiting_ok h w"
    and "marker_table_ok (required_markers p)"
    and "h \<in> marker_set (required_markers p) m \<longleftrightarrow> m \<in> misses p h"
    and "hm_get (waiting_markers p) ps = Some h \<Longrightarrow>
           \<exists>w. hm_get (waiting_queue p) h = Some w \<and> provides (pp_transaction w) = ps"
  using assms unfolding pend_inv_at_def marker_table_ok_def waits_for_marker_set by simp_all

lemma pending_add_spec:
  assumes inv: "pend_inv p" and nr: "\<not> is_ready tx" and new: "\<not> pending_contains p (pp_hash tx)"
    and ok: "tx_ok (pp_transaction tx)"
  obtains res p' where "pending_add_transaction tx p = Ret (res, p')" "pend_inv p'"
    "res = Inr () \<Longrightarrow> hm_get (waiting_queue p') = (hm_get (waiting_queue p))(pp_hash tx \<mapsto> tx)"
    "res \<noteq> Inr () \<Longrightarrow> p' = p"
proof -
  let ?h = "pp_hash tx"
  let ?p = "p\<lparr>required_markers := fold (require_marker ?h) (missing_markers tx) (required_markers p),
      waiting_markers := hm_insert (provides (pp_transaction tx)) ?h (waiting_markers p),
      waiting_queue := hm_insert ?h tx (waiting_queue p)\<rparr>"
  note D = pend_invD [OF inv]
  have none: "hm_get (waiting_queue p) ?h = None"
    using new by (simp add: pending_contains_def hm_contains_def)
  have "pend_inv ?p"
  proof (rule pend_invI)
    show "hm_wf (waiting_queue ?p)" using D(1) by simp
    show "waiting_ok h w" if "hm_get (waiting_queue ?p) h = Some w" for h w
      using that D(2) nr ok by (auto simp: hm_simps waiting_ok_def is_ready_def split: if_splits)
    show "marker_table_ok (required_markers ?p)"
      using D(3) by (simp add: fold_require_marker)
    have "misses p ?h = {}" using none by (simp add: misses_def)
    then show "h \<in> marker_set (required_markers ?p) m \<longleftrightarrow> m \<in> misses ?p h" for m h
      using D(4) [of h m] by (auto simp: fold_require_marker misses_def hm_simps)
    show "\<exists>w. hm_get (waiting_queue ?p) h = Some w \<and> provides (pp_transaction w) = ps"
      if "hm_get (waiting_markers ?p) ps = Some h" for ps h
      using that D(5) [of ps h] none by (auto simp: hm_simps split: if_splits)
  qed
  moreover have "hm_get (waiting_queue ?p) = (hm_get (waiting_queue p))(?h \<mapsto> tx)"
    by (simp add: hm_simps)
  moreover have "pending_add_transaction tx p = Ret (Inr (), ?p) \<or>
      (\<exists>e. pending_add_transaction tx p = Ret (Inl e, p))"
    using nr none unfolding pending_add_transaction_def by (simp add: hm_contains_def rassert_def)
  ultimately show thesis using that inv by blast
qed

definition remove_waiting :: "TxHash \<Rightarrow> PendingPoolTransaction \<Rightarrow> PendingTransactions \<Rightarrow> PendingTransactions" where
  "remove_waiting h w p =
     p\<lparr>waiting_queue := hm_remove h (waiting_queue p),
       waiting_markers := hm_remove (provides (pp_transaction w)) (waiting_markers p),
       required_markers := fold (unrequire_marker h) (missing_markers w) (required_markers p)\<rparr>"

lemma remove_waiting_inv:
  assumes inv: "pend_inv p" and w: "hm_get (waiting_queue p) h = Some w"
  shows "pend_inv (remove_waiting h w p)"
proof (rule pend_invI)
  note D = pend_invD [OF inv]
  show "hm_wf (waiting_queue (remove_waiting h w p))"
    using D(1) by (simp add: remove_waiting_def)
  show "waiting_ok h' w'" if "hm_get (waiting_queue (remove_waiting h w p)) h' = Some w'" for h' w'
    using that D(2) by (auto simp: remove_waiting_def hm_simps split: if_splits)
  show "marker_table_ok (required_markers (remove_waiting h w p))"
    using D(3) by (simp add: remove_waiting_def fold_unrequire_marker)
  show "h' \<in> marker_set (required_markers (remove_waiting h w p)) m \<longleftrightarrow>
      m \<in> misses (remove_waiting h w p) h'" for m h'
    using D(4) [of h' m] w
    by (auto simp: remove_waiting_def fold_unrequire_marker misses_def hm_simps split: if_splits)
  show "\<exists>w'. hm_get (waiting_queue (remove_waiting h w p)) h' = Some w' \<and> provides (pp_transaction w') = ps"
    if "hm_get (waiting_markers (remove_waiting h w p)) ps = Some h'" for ps h'
    using that D(5) [of ps h'] w by (auto simp: remove_waiting_def hm_simps split: if_splits)
qed

lemma pending_remove_from_unfold:
  "pending_remove_from (h # hs) p removed =
     (case hm_get (waiting_queue p) h of
        None \<Rightarrow> pending_remove_from hs p removed
      | Some w \<Rightarrow> pending_remove_from hs (remove_waiting h w p) (removed @ [pp_transaction w]))"
  by (simp add: remove_waiting_def split: option.split)

lemma waiting_queue_remove_waiting [simp]:
  "hm_get (waiting_queue (remove_waiting h w p)) = (hm_get (waiting_queue p))(h := None)"
  by (simp add: remove_waiting_def hm_simps)

lemma pending_remove_from_spec:
  "pend_inv p \<Longrightarrow> pending_remove_from hs p removed = (removed', p') \<Longrightarrow>
   pend_inv p' \<and>
   hm_get (waiting_queue p') = (\<lambda>h. if h \<in> set hs then None else hm_get (waiting_queue p) h)"
proof (induction hs arbitrary: p removed)
  case Nil
  then show ?case by simp
next
  case (Cons h hs)
  show ?case
  proof (cases "hm_get (waiting_queue p) h")
    case None
    with Cons show ?thesis by (auto simp: pending_remove_from_unfold fun_eq_iff)
  next
    case (Some w)
    from Cons.IH [OF remove_waiting_inv [OF Cons.prems(1) Some]] Cons.prems(2) Some
    show ?thesis
      by (auto simp: pending_remove_from_unfold fun_eq_iff simp del: pending_remove_from.simps)
  qed
qed

lemma pending_remove_spec:
  assumes "pend_inv p" "pending_remove hs p = (removed, p')"
  shows "pend_inv p'"
    and "hm_get (waiting_queue p') = (\<lambda>h. if h \<in> set hs then None else hm_get (waiting_queue p) h)"
  using pending_remove_from_spec [OF assms(1), of hs "[]"] assms(2)
  by (simp_all add: pending_remove_def)

end
