(* ===== verification/Pool_Ready_Inv.thy ===== *)
theory Pool_Ready_Inv
  imports Pool_Pending_Inv
begin

text \<open>
  The invariant of the queue of ready transactions (\<open>ReadyTransactions\<close> of
  \<open>anvil/src/eth/pool/transactions.rs\<close>) and what its operations do: none of them reaches
  one of its panics, each keeps the invariant, a replacement leaves no other provider of
  the new transaction's markers, and removal and pruning return exactly the transactions
  that left the queue.
\<close>

subsection \<open>The references of a table of ready transactions\<close>

definition refs :: "(TxHash, ReadyTransaction) hmap \<Rightarrow> TxHash \<Rightarrow> PoolTransactionRef option" where
  "refs ready h = map_option rt_transaction (hm_get ready h)"

text \<open>Two tables that differ in the links between transactions only.\<close>

definition same_refs :: "(TxHash, ReadyTransaction) hmap \<Rightarrow> (TxHash, ReadyTransaction) hmap \<Rightarrow> bool" where
  "same_refs ready ready' = (refs ready' = refs ready \<and> (hm_wf ready \<longrightarrow> hm_wf ready'))"

lemma same_refs_refl [simp]: "same_refs ready ready"
  by (simp add: same_refs_def)

lemma same_refs_trans [trans]: "same_refs a b \<Longrightarrow> same_refs b c \<Longrightarrow> same_refs a c"
  by (simp add: same_refs_def)

lemma refs_insert: "refs (hm_insert h t ready) = (refs ready)(h \<mapsto> rt_transaction t)"
  by (simp add: refs_def fun_eq_iff hm_simps)

lemma refs_remove: "refs (hm_remove h ready) = (refs ready)(h := None)"
  by (simp add: refs_def fun_eq_iff hm_simps)

lemma refs_None: "refs ready h = None \<longleftrightarrow> hm_get ready h = None"
  by (simp add: refs_def)

lemma refs_Some: "hm_get ready h = Some t \<Longrightarrow> refs ready h = Some (rt_transaction t)"
  by (simp add: refs_def)

lemma same_refs_insert:
  assumes "hm_get ready h = Some t" "rt_transaction t' = rt_transaction t"
  shows "same_refs ready (hm_insert h t' ready)"
  using assms by (auto simp: same_refs_def refs_insert refs_Some fun_upd_idem)

lemma same_refs_remove_unlock: "same_refs ready (remove_unlock pm m ready)"
  by (auto simp: remove_unlock_def intro: same_refs_insert split: option.splits)

lemma same_refs_fold_remove_unlock: "same_refs ready (fold (remove_unlock pm) ms ready)"
  by (induction ms arbitrary: ready) (auto intro: same_refs_trans same_refs_remove_unlock)

lemma same_refs_prune_previous: "same_refs ready (fst (prune_previous hash pm ms ready remove))"
proof (induction ms arbitrary: ready remove)
  case (Cons m ms)
  show ?case
  proof (cases "Option.bind (hm_get pm m) (hm_get ready)")
    case None
    then show ?thesis using Cons.IH by (cases "hm_get pm m") simp_all
  next
    case (Some tx2)
    then obtain prev where prev: "hm_get pm m = Some prev" "hm_get ready prev = Some tx2"
      by (auto simp: bind_eq_Some_conv)
    let ?tx2 = "case position (\<lambda>i. i = hash) (unlocks tx2) of
        Some idx \<Rightarrow> tx2\<lparr>unlocks := swap_remove idx (unlocks tx2)\<rparr> | None \<Rightarrow> tx2"
    have "same_refs ready (hm_insert prev ?tx2 ready)"
      by (rule same_refs_insert [OF prev(2)]) (simp split: option.splits)
    from same_refs_trans [OF this Cons.IH] show ?thesis by (simp add: prev Let_def)
  qed
qed simp

lemma same_refs_prune_unlocked: "same_refs ready (fst (prune_unlocked hs ready ind))"
proof (induction hs arbitrary: ready ind)
  case (Cons h hs)
  show ?case
  proof (cases "hm_get ready h")
    case (Some t)
    have "same_refs ready (hm_insert h (t\<lparr>requires_offset := requires_offset t + 1\<rparr>) ready)"
      by (rule same_refs_insert [OF Some]) simp
    from same_refs_trans [OF this Cons.IH] show ?thesis by (simp add: Some Let_def)
  qed (simp add: Cons.IH)
qed simp

subsection \<open>Ordered sets of references\<close>

lemma set_bts_insert: "set (bts_insert x ys) \<subseteq> insert x (set ys)"
  by (induction ys) auto

lemma bts_insert_keys:
  "bts_sorted ys \<Longrightarrow> ref_key ` set (bts_insert x ys) = insert (ref_key x) (ref_key ` set ys)"
  by (induction ys) (auto simp: bts_sorted_def)

lemma bts_sorted_insert: "bts_sorted ys \<Longrightarrow> bts_sorted (bts_insert x ys)"
proof (induction ys)
  case Nil
  then show ?case by (simp add: bts_sorted_def)
next
  case (Cons y ys)
  then have s: "bts_sorted ys" and lt: "\<forall>k \<in> ref_key ` set ys. ref_key y < k"
    by (simp_all add: bts_sorted_def)
  from lt have "\<forall>k \<in> ref_key ` set (bts_insert x ys). ref_key y < k"
    if "ref_key y < ref_key x"
    using that by (simp add: bts_insert_keys [OF s] del: image_insert)
  with Cons.IH [OF s] Cons.prems lt show ?case by (auto simp: bts_sorted_def)
qed

lemma bts_sorted_remove: "bts_sorted ys \<Longrightarrow> bts_sorted (bts_remove x ys)"
  by (simp add: bts_sorted_def bts_remove_def sorted_wrt_map sorted_wrt_filter)

lemma set_bts_remove: "set (bts_remove x ys) = {y \<in> set ys. ref_key y \<noteq> ref_key x}"
  by (simp add: bts_remove_def)

lemma last_bts_max: "bts_sorted ys \<Longrightarrow> y \<in> set ys \<Longrightarrow> ref_key y \<le> ref_key (last ys)"
  by (induction ys) (auto simp: bts_sorted_def dest: order_less_imp_le)

subsection \<open>The invariant of the ready queue\<close>

text \<open>
  Every ready transaction is filed under its hash, the index of provided markers names
  exactly the ready transaction that provides the marker, and the independent references
  are an ordered set of ready ones. While transactions are replaced the index may still
  name removed transactions for the markers \<open>F\<close> of the new one.
\<close>

definition ready_inv_upto :: "TxMarker set \<Rightarrow> ReadyTransactions \<Rightarrow> bool" where
  "ready_inv_upto F r =
     (hm_wf (ready_tx r) \<and>
      (\<forall>h t. refs (ready_tx r) h = Some t \<longrightarrow> ref_hash t = h \<and> tx_ok (ref_transaction t)) \<and>
      (\<forall>h t m. refs (ready_tx r) h = Some t \<and> m \<in> set (provides (ref_transaction t)) \<longrightarrow>
         hm_get (provided_markers r) m = Some h) \<and>
      (\<forall>m h. hm_get (provided_markers r) m = Some h \<and> m \<notin> F \<longrightarrow>
         (\<exists>t. refs (ready_tx r) h = Some t \<and> m \<in> set (provides (ref_transaction t)))) \<and>
      bts_sorted (independent_transactions r) \<and>
      (\<forall>x \<in> set (independent_transactions r). refs (ready_tx r) (ref_hash x) = Some x))"

abbreviation ready_inv :: "ReadyTransactions \<Rightarrow> bool" where
  "ready_inv r \<equiv> ready_inv_upto {} r"

lemma ready_invI:
  assumes "hm_wf (ready_tx r)"
    and "\<And>h t. refs (ready_tx r) h = Some t \<Longrightarrow> ref_hash t = h \<and> tx_ok (ref_transaction t)"
    and "\<And>h t m. refs (ready_tx r) h = Some t \<Longrightarrow> m \<in> set (provides (ref_transaction t)) \<Longrightarrow>
         hm_get (provided_markers r) m = Some h"
    and "\<And>m h. hm_get (provided_markers r) m = Some h \<Longrightarrow> m \<notin> F \<Longrightarrow>
         \<exists>t. refs (ready_tx r) h = Some t \<and> m \<in> set (provides (ref_transaction t))"
    and "bts_sorted (independent_transactions r)"
    and "\<And>x. x \<in> set (independent_transactions r) \<Longrightarrow> refs (ready_tx r) (ref_hash x) = Some x"
  shows "ready_inv_upto F r"
  using assms unfolding ready_inv_upto_def by blast

lemma ready_invD:
  assumes "ready_inv_upto F r"
  shows "hm_wf (ready_tx r)"
    and "refs (ready_tx r) h = Some t \<Longrightarrow> ref_hash t = h"
    and "refs (ready_tx r) h = Some t \<Longrightarrow> tx_ok (ref_transaction t)"
    and "refs (ready_tx r) h = Some t \<Longrightarrow> m \<in> set (provides (ref_transaction t)) \<Longrightarrow>
         hm_get (provided_markers r) m = Some h"
    and "hm_get (provided_markers r) m = Some h \<Longrightarrow> m \<notin> F \<Longrightarrow>
         \<exists>t. refs (ready_tx r) h = Some t \<and> m \<in> set (provides (ref_transaction t))"
    and "bts_sorted (independent_transactions r)"
    and "x \<in> set (independent_transactions r) \<Longrightarrow> refs (ready_tx r) (ref_hash x) = Some x"
  using assms unfolding ready_inv_upto_def by blast+

lemma ready_inv_default: "ready_inv ready_default"
  by (rule ready_invI) (simp_all add: ready_default_def refs_def bts_sorted_def)

lemma ready_inv_clear: "ready_inv (ready_clear r)"
  by (rule ready_invI) (simp_all add: ready_clear_def refs_def bts_sorted_def)

lemma ready_inv_upto_mono: "ready_inv_upto F r \<Longrightarrow> F \<subseteq> G \<Longrightarrow> ready_inv_upto G r"
  unfolding ready_inv_upto_def by blast

text \<open>A queue that shrank: what is left was there before.\<close>

definition ready_sub :: "ReadyTransactions \<Rightarrow> ReadyTransactions \<Rightarrow> bool" where
  "ready_sub r' r =
     (refs (ready_tx r') \<subseteq>\<^sub>m refs (ready_tx r) \<and>
      hm_get (provided_markers r') \<subseteq>\<^sub>m hm_get (provided_markers r))"

lemma ready_sub_refl [simp]: "ready_sub r r"
  by (simp add: ready_sub_def)

lemma ready_sub_trans [trans]: "ready_sub a b \<Longrightarrow> ready_sub b c \<Longrightarrow> ready_sub a c"
  unfolding ready_sub_def by (blast intro: map_le_trans)

text \<open>Removing one ready transaction.\<close>

lemma ready_inv_remove_one:
  assumes inv: "ready_inv_upto F r"
    and t: "refs (ready_tx r) h = Some t"
    and ready': "refs ready' = (refs (ready_tx r))(h := None)" "hm_wf ready'"
    and pm: "\<And>m. hm_get pm m =
        (if m \<in> set (provides (ref_transaction t)) - F then None else hm_get (provided_markers r) m)"
    and ind: "bts_sorted ind"
      "\<And>x. x \<in> set ind \<Longrightarrow> refs ready' (ref_hash x) = Some x"
  shows "ready_inv_upto F (r\<lparr>provided_markers := pm, ready_tx := ready',
           independent_transactions := ind\<rparr>)" (is "ready_inv_upto F ?r")
proof (rule ready_invI)
  note D = ready_invD [OF inv]
  show "hm_wf (ready_tx ?r)" using ready' by simp
  show "ref_hash t' = h' \<and> tx_ok (ref_transaction t')" if "refs (ready_tx ?r) h' = Some t'" for h' t'
    using that D(2,3) by (auto simp: ready' split: if_splits)
  show "hm_get (provided_markers ?r) m = Some h'"
    if "refs (ready_tx ?r) h' = Some t'" "m \<in> set (provides (ref_transaction t'))" for h' t' m
  proof -
    from that have ne: "h' \<noteq> h" and r: "refs (ready_tx r) h' = Some t'"
      by (auto simp: ready' split: if_splits)
    from D(4) [OF r that(2)] D(4) [OF t, of m] ne show ?thesis by (auto simp: pm)
  qed
  show "\<exists>t'. refs (ready_tx ?r) h' = Some t' \<and> m \<in> set (provides (ref_transaction t'))"
    if "hm_get (provided_markers ?r) m = Some h'" "m \<notin> F" for m h'
    using that D(5) [of m h'] t by (auto simp: pm ready' split: if_splits)
  show "bts_sorted (independent_transactions ?r)" using ind by simp
  show "refs (ready_tx ?r) (ref_hash x) = Some x" if "x \<in> set (independent_transactions ?r)" for x
    using that ind(2) [of x] by simp
qed

lemma bts_remove_refs:
  assumes "ready_inv_upto F r" "refs (ready_tx r) h = Some t"
    and "x \<in> set (bts_remove t (independent_transactions r))"
  shows "((refs (ready_tx r))(h := None)) (ref_hash x) = Some x"
proof -
  from assms(3) have "x \<in> set (independent_transactions r)" "ref_key x \<noteq> ref_key t"
    by (auto simp: set_bts_remove)
  with ready_invD(7) [OF assms(1)] assms(2) show ?thesis by auto
qed

subsection \<open>Removing ready transactions\<close>

definition filter_set :: "TxMarker list option \<Rightarrow> TxMarker set" where
  "filter_set marker_filter = (case marker_filter of Some f \<Rightarrow> set f | None \<Rightarrow> {})"

lemma marker_allowed_iff: "marker_allowed f m \<longleftrightarrow> m \<notin> filter_set f"
  by (simp add: marker_allowed_def filter_set_def split: option.splits)

text \<open>One round of the removal loop.\<close>

definition removed_ready ::
    "TxMarker list option \<Rightarrow> TxHash \<Rightarrow> ReadyTransaction \<Rightarrow> ReadyTransactions \<Rightarrow> ReadyTransactions" where
  "removed_ready f h tx r =
     (let pm = fold hm_remove (filter (marker_allowed f) (rt_provides tx)) (provided_markers r)
      in r\<lparr>provided_markers := pm,
           ready_tx := fold (remove_unlock pm) (requires (rt_pool_tx tx)) (hm_remove h (ready_tx r)),
           independent_transactions := bts_remove (rt_transaction tx) (independent_transactions r)\<rparr>)"

lemma removed_ready_refs:
  "refs (ready_tx (removed_ready f h tx r)) = (refs (ready_tx r))(h := None)"
  "hm_wf (ready_tx r) \<Longrightarrow> hm_wf (ready_tx (removed_ready f h tx r))"
  using same_refs_fold_remove_unlock [of "hm_remove h (ready_tx r)"
      "fold hm_remove (filter (marker_allowed f) (rt_provides tx)) (provided_markers r)"
      "requires (rt_pool_tx tx)"]
  by (simp_all add: removed_ready_def Let_def same_refs_def refs_remove)

lemma removed_ready_markers:
  "hm_get (provided_markers (removed_ready f h tx r)) m =
     (if m \<in> set (rt_provides tx) - filter_set f then None else hm_get (provided_markers r) m)"
  by (simp add: removed_ready_def Let_def hm.fold_del marker_allowed_iff)

lemma removed_ready_id [simp]: "ready_id (removed_ready f h tx r) = ready_id r"
  by (simp add: removed_ready_def Let_def)

lemma removed_ready_inv:
  assumes inv: "ready_inv_upto (filter_set f) r" and tx: "hm_get (ready_tx r) h = Some tx"
  shows "ready_inv_upto (filter_set f) (removed_ready f h tx r)"
proof -
  let ?r = "removed_ready f h tx r"
  note t = refs_Some [OF tx]
  have "ready_inv_upto (filter_set f)
      (r\<lparr>provided_markers := provided_markers ?r, ready_tx := ready_tx ?r,
         independent_transactions := independent_transactions ?r\<rparr>)"
  proof (rule ready_inv_remove_one [OF inv t])
    show "refs (ready_tx ?r) = (refs (ready_tx r))(h := None)" "hm_wf (ready_tx ?r)"
      using ready_invD(1) [OF inv] by (simp_all add: removed_ready_refs)
    show "hm_get (provided_markers ?r) m =
        (if m \<in> set (provides (ref_transaction (rt_transaction tx))) - filter_set f then None
         else hm_get (provided_markers r) m)" for m
      by (simp add: removed_ready_markers rt_provides_def rt_pool_tx_def)
    have ind: "independent_transactions ?r = bts_remove (rt_transaction tx) (independent_transactions r)"
      by (simp add: removed_ready_def Let_def)
    show "bts_sorted (independent_transactions ?r)"
      by (simp add: ind bts_sorted_remove ready_invD(6) [OF inv])
    show "refs (ready_tx ?r) (ref_hash x) = Some x" if "x \<in> set (independent_transactions ?r)" for x
      using bts_remove_refs [OF inv t, of x] that by (simp add: removed_ready_refs ind)
  qed
  then show ?thesis by (simp add: removed_ready_def Let_def)
qed

lemma removed_ready_sub: "ready_sub (removed_ready f h tx r) r"
  by (auto simp: ready_sub_def map_le_def removed_ready_refs removed_ready_markers split: if_splits)

lemma remove_loop_unfold:
  "remove_with_markers_loop f [] removed r = (removed, r)"
  "hm_get (ready_tx r) h = None \<Longrightarrow>
   remove_with_markers_loop f (hs @ [h]) removed r = remove_with_markers_loop f hs removed r"
  "hm_get (ready_tx r) h = Some tx \<Longrightarrow>
   remove_with_markers_loop f (hs @ [h]) removed r =
     remove_with_markers_loop f
       (if filter (marker_allowed f) (rt_provides tx) \<noteq> [] then hs @ unlocks tx else hs)
       (removed @ [rt_pool_tx tx]) (removed_ready f h tx r)"
  by (subst remove_with_markers_loop.simps; simp add: Let_def removed_ready_def)+

definition removal_post ::
    "TxHash list \<Rightarrow> PoolTransaction list \<Rightarrow> ReadyTransactions \<Rightarrow> ReadyTransactions \<Rightarrow> bool" where
  "removal_post hs txs r r' =
     (ready_sub r' r \<and> (\<forall>h \<in> set hs. refs (ready_tx r') h = None) \<and>
      pool_tx_hash ` set txs = dom (refs (ready_tx r)) - dom (refs (ready_tx r')) \<and>
      ready_id r' = ready_id r)"

lemma remove_loop_spec:
  "ready_inv_upto (filter_set f) r \<Longrightarrow>
   remove_with_markers_loop f hs removed r = (removed', r') \<Longrightarrow>
   ready_inv_upto (filter_set f) r' \<and> (\<exists>txs. removed' = removed @ txs \<and> removal_post hs txs r r')"
proof (induction f hs removed r rule: remove_with_markers_loop.induct)
  case (1 f hs removed r)
  show ?case
  proof (cases hs rule: rev_cases)
    case Nil
    with 1 show ?thesis by (simp add: remove_loop_unfold removal_post_def)
  next
    case (snoc rest h)
    show ?thesis
    proof (cases "hm_get (ready_tx r) h")
      case None
      from "1.IH"(1) [of "(h, rest)" h rest] "1.prems" None
      obtain txs where "ready_inv_upto (filter_set f) r'" "removed' = removed @ txs"
        "removal_post rest txs r r'"
        by (auto simp: snoc remove_loop_unfold)
      moreover from this(3) None have "refs (ready_tx r') h = None"
        by (auto simp: removal_post_def ready_sub_def map_le_def refs_def dom_def)
      ultimately show ?thesis by (auto simp: snoc removal_post_def)
    next
      case (Some tx)
      let ?hs = "if filter (marker_allowed f) (rt_provides tx) \<noteq> [] then rest @ unlocks tx else rest"
      note t = refs_Some [OF Some]
      have "vec_pop hs = Some (h, rest)" by (simp add: snoc)
      note IH = "1.IH"(2) [OF this refl Some refl refl refl refl refl,
          folded removed_ready_def [unfolded Let_def]]
      have "remove_with_markers_loop f ?hs (removed @ [rt_pool_tx tx]) (removed_ready f h tx r) = (removed', r')"
        using "1.prems"(2) Some by (simp add: snoc remove_loop_unfold)
      from IH [OF removed_ready_inv [OF "1.prems"(1) Some] this]
      obtain txs where inv: "ready_inv_upto (filter_set f) r'"
        and txs: "removed' = (removed @ [rt_pool_tx tx]) @ txs"
        and post: "removal_post ?hs txs (removed_ready f h tx r) r'"
        by blast
      have hash: "pool_tx_hash (rt_pool_tx tx) = h"
        using ready_invD(2) [OF "1.prems"(1) t] by (simp add: ref_hash_def rt_pool_tx_def)
      from post have sub: "ready_sub r' (removed_ready f h tx r)" by (simp add: removal_post_def)
      then have gone: "refs (ready_tx r') h = None"
        by (auto simp: ready_sub_def map_le_def removed_ready_refs dom_def)
      have "removal_post hs (rt_pool_tx tx # txs) r r'"
        using post gone t ready_sub_trans [OF sub removed_ready_sub]
        by (auto simp: removal_post_def removed_ready_refs snoc hash split: if_splits)
      with inv txs show ?thesis by auto
    qed
  qed
qed

lemma remove_with_markers_spec:
  assumes "ready_inv_upto (filter_set f) r" "remove_with_markers hs f r = (removed, r')"
  shows "ready_inv_upto (filter_set f) r'" "removal_post hs removed r r'"
  using remove_loop_spec [OF assms(1), of hs "[]"] assms(2)
  by (auto simp: remove_with_markers_def)

lemma remove_unfiltered_spec:
  assumes "ready_inv r" "remove_with_markers hs None r = (removed, r')"
  shows "ready_inv r'" "removal_post hs removed r r'"
  using remove_with_markers_spec [of None r hs removed r'] assms by (simp_all add: filter_set_def)

subsection \<open>Adding a ready transaction\<close>

lemma replaced_check_Inl:
  "replaced_check tx ready hs ul = Inl e \<Longrightarrow>
   e = ReplacementUnderpriced tx \<and>
   (\<exists>h t. hm_get ready h = Some t \<and> rt_provides t = provides tx \<and>
      pool_tx_gas_price tx \<le> rt_gas_price t)"
  by (induction tx ready hs ul rule: replaced_check.induct) (auto split: option.splits if_splits)

lemma ready_inv_drop_filter:
  assumes inv: "ready_inv_upto F r"
    and gone: "\<And>m h. m \<in> F \<Longrightarrow> hm_get (provided_markers r) m = Some h \<Longrightarrow> refs (ready_tx r) h = None"
    and h: "refs (ready_tx r) h = Some t" and m: "m \<in> set (provides (ref_transaction t))"
  shows "m \<notin> F"
  using gone [of m h] ready_invD(4) [OF inv h m] h by auto

text \<open>The replaced transactions are gone, and with them every provider of the new markers.\<close>

lemma replaced_transactions_spec:
  assumes inv: "ready_inv r" and it: "iteration_order it"
    and eq: "replaced_transactions it tx r = (res, r1)"
  shows "res = Inl e \<Longrightarrow> r1 = r \<and> e = ReplacementUnderpriced tx \<and>
           set (provides tx) \<subseteq> dom (hm_get (provided_markers r))"
    and "res = Inr (removed, unlocks0) \<Longrightarrow>
           ready_inv_upto (set (provides tx)) r1 \<and> removal_post [] removed r r1 \<and>
           (\<forall>h t. refs (ready_tx r1) h = Some t \<longrightarrow>
              set (provides (ref_transaction t)) \<inter> set (provides tx) = {})"
proof -
  define hs where "hs = it (remdups (List.map_filter (hm_get (provided_markers r)) (provides tx)))"
  have hs: "h \<in> set hs \<longleftrightarrow> (\<exists>m \<in> set (provides tx). hm_get (provided_markers r) m = Some h)" for h
    unfolding hs_def by (force simp: iteration_order_set [OF it] map_filter_def)
  note eq' = eq [unfolded replaced_transactions_def Let_def, folded hs_def]
  have up: "ready_inv_upto (set (provides tx)) r"
    by (rule ready_inv_upto_mono [OF inv]) simp
  {
    assume "res = Inl e"
    with eq' have r1: "r1 = r" and "replaced_check tx (ready_tx r) hs [] = Inl e"
      by (auto split: if_splits sum.splits prod.splits)
    from replaced_check_Inl [OF this(2)] obtain h t
      where t: "hm_get (ready_tx r) h = Some t" "rt_provides t = provides tx"
        and e: "e = ReplacementUnderpriced tx"
      by blast
    have "set (provides tx) \<subseteq> dom (hm_get (provided_markers r))"
      using ready_invD(4) [OF inv refs_Some [OF t(1)]] t(2)
      by (auto simp: rt_provides_def rt_pool_tx_def)
    with r1 e show "r1 = r \<and> e = ReplacementUnderpriced tx \<and>
        set (provides tx) \<subseteq> dom (hm_get (provided_markers r))" by simp
  }
  {
    assume res: "res = Inr (removed, unlocks0)"
    have "ready_inv_upto (set (provides tx)) r1 \<and> removal_post hs removed r r1"
    proof (cases "hs = []")
      case True
      with eq' res up show ?thesis by (auto simp: removal_post_def)
    next
      case False
      with eq' res have "remove_with_markers hs (Some (provides tx)) r = (removed, r1)"
        by (auto split: sum.splits prod.splits)
      from remove_with_markers_spec [OF _ this] up show ?thesis by (simp add: filter_set_def)
    qed
    then have inv1: "ready_inv_upto (set (provides tx)) r1" and post: "removal_post hs removed r r1"
      by simp_all
    have "set (provides (ref_transaction t)) \<inter> set (provides tx) = {}"
      if t: "refs (ready_tx r1) h = Some t" for h t
    proof -
      from post have none: "\<And>h. h \<in> set hs \<Longrightarrow> refs (ready_tx r1) h = None"
        and sub: "hm_get (provided_markers r1) \<subseteq>\<^sub>m hm_get (provided_markers r)"
        by (simp_all add: removal_post_def ready_sub_def)
      have "refs (ready_tx r1) h' = None"
        if "m \<in> set (provides tx)" "hm_get (provided_markers r1) m = Some h'" for m h'
      proof (rule none)
        from that(2) sub have "hm_get (provided_markers r) m = Some h'"
          unfolding map_le_def by (metis domI)
        with that(1) show "h' \<in> set hs" by (auto simp: hs)
      qed
      from ready_inv_drop_filter [OF inv1 this t] show ?thesis by auto
    qed
    moreover have "removal_post [] removed r r1" using post by (simp add: removal_post_def)
    ultimately show "ready_inv_upto (set (provides tx)) r1 \<and> removal_post [] removed r r1 \<and>
        (\<forall>h t. refs (ready_tx r1) h = Some t \<longrightarrow>
           set (provides (ref_transaction t)) \<inter> set (provides tx) = {})"
      using inv1 by blast
  }
qed

lemma link_requires_spec:
  assumes "\<forall>m \<in> set ms. \<forall>h. hm_get pm m = Some h \<longrightarrow> refs ready h \<noteq> None"
  shows "\<exists>ready' ind' off'. link_requires hash pm ms ready ind off = Ret (ready', ind', off') \<and>
           same_refs ready ready'"
  using assms
proof (induction ms arbitrary: ready ind off)
  case Nil
  then show ?case by simp
next
  case (Cons m ms)
  show ?case
  proof (cases "hm_get pm m")
    case None
    with Cons.IH [of ready ind "off + 1"] Cons.prems show ?thesis by simp
  next
    case (Some other)
    with Cons.prems obtain tx where tx: "hm_get ready other = Some tx"
      by (auto simp: refs_None)
    let ?ready = "hm_insert other (tx\<lparr>unlocks := unlocks tx @ [hash]\<rparr>) ready"
    have same: "same_refs ready ?ready" by (rule same_refs_insert [OF tx]) simp
    with Cons.prems have "\<forall>m \<in> set ms. \<forall>h. hm_get pm m = Some h \<longrightarrow> refs ?ready h \<noteq> None"
      by (simp add: same_refs_def)
    from Cons.IH [OF this, of False off] same show ?thesis
      by (auto simp: Some tx intro: same_refs_trans)
  qed
qed

lemma ready_inv_insert_one:
  assumes inv: "ready_inv_upto (set (provides (ref_transaction t))) r"
    and disj: "\<And>h' t'. refs (ready_tx r) h' = Some t' \<Longrightarrow>
        set (provides (ref_transaction t')) \<inter> set (provides (ref_transaction t)) = {}"
    and ok: "tx_ok (ref_transaction t)" "ref_hash t = h" "refs (ready_tx r) h = None"
    and ready': "refs ready' = (refs (ready_tx r))(h \<mapsto> t)" "hm_wf ready'"
    and pm: "\<And>m. hm_get pm m =
        (if m \<in> set (provides (ref_transaction t)) then Some h else hm_get (provided_markers r) m)"
    and ind: "ind = independent_transactions r \<or> ind = bts_insert t (independent_transactions r)"
  shows "ready_inv \<lparr>ready_id = i, provided_markers = pm, ready_tx = ready',
           independent_transactions = ind\<rparr>" (is "ready_inv ?r")
proof (rule ready_invI)
  note D = ready_invD [OF inv]
  show "hm_wf (ready_tx ?r)" using ready' by simp
  show "ref_hash t' = h' \<and> tx_ok (ref_transaction t')" if "refs (ready_tx ?r) h' = Some t'" for h' t'
    using that D(2,3) ok by (auto simp: ready' split: if_splits)
  show "hm_get (provided_markers ?r) m = Some h'"
    if "refs (ready_tx ?r) h' = Some t'" "m \<in> set (provides (ref_transaction t'))" for h' t' m
    using that D(4) [of h' t' m] disj [of h' t'] by (auto simp: ready' pm split: if_splits)
  show "\<exists>t'. refs (ready_tx ?r) h' = Some t' \<and> m \<in> set (provides (ref_transaction t'))"
    if "hm_get (provided_markers ?r) m = Some h'" "m \<notin> {}" for m h'
    using that D(5) [of m h'] ok(3) by (auto simp: pm ready' split: if_splits)
  show "bts_sorted (independent_transactions ?r)"
    using ind D(6) by (auto intro: bts_sorted_insert)
  have "set ind \<subseteq> insert t (set (independent_transactions r))"
    using ind set_bts_insert by fastforce
  then show "refs (ready_tx ?r) (ref_hash x) = Some x" if "x \<in> set (independent_transactions ?r)" for x
    using that D(7) [of x] ok by (auto simp: ready')
qed

text \<open>
  What adding a ready transaction gives. An underpriced one changes nothing, and all its
  markers are provided already; otherwise it is ready, provides its markers, and what it
  replaced is gone.
\<close>

definition ready_add_post ::
    "PoolTransaction \<Rightarrow> ReadyTransactions \<Rightarrow> PoolError + PoolTransaction list \<Rightarrow> ReadyTransactions \<Rightarrow> bool" where
  "ready_add_post tx r res r' =
     (case res of
        Inl e \<Rightarrow> r' = r \<and> e = ReplacementUnderpriced tx \<and>
          set (provides tx) \<subseteq> dom (hm_get (provided_markers r))
      | Inr replaced \<Rightarrow>
          (\<exists>i. refs (ready_tx r') (pool_tx_hash tx) = Some \<lparr>ref_transaction = tx, ref_id = i\<rparr>) \<and>
          (\<forall>h. h \<noteq> pool_tx_hash tx \<longrightarrow> refs (ready_tx r') h \<in> {None, refs (ready_tx r) h}) \<and>
          dom (hm_get (provided_markers r')) \<subseteq>
            set (provides tx) \<union> dom (hm_get (provided_markers r)) \<and>
          pool_tx_hash ` set replaced = dom (refs (ready_tx r)) - dom (refs (ready_tx r')))"

lemma ready_add_transaction_spec:
  assumes inv: "ready_inv r" and it: "iteration_order it"
    and rdy: "is_ready tx" and new: "\<not> ready_contains r (pp_hash tx)"
    and ok: "tx_ok (pp_transaction tx)"
  obtains res r' where "ready_add_transaction it tx r = Ret (res, r')" "ready_inv r'"
    "ready_add_post (pp_transaction tx) r res r'"
proof -
  let ?tx = "pp_transaction tx" and ?h = "pp_hash tx"
  obtain res r1 where rt: "replaced_transactions it ?tx r = (res, r1)" by fastforce
  note RS = replaced_transactions_spec [OF inv it rt]
  have nc: "\<not> hm_contains (ready_tx r) ?h" using new by (simp add: ready_contains_def)
  show thesis
  proof (cases res)
    case (Inl e)
    have "ready_add_transaction it tx r = Ret (Inl e, r)"
      using rdy nc RS(1) [OF Inl] by (simp add: ready_add_transaction_def rassert_def rt Inl)
    with RS(1) [OF Inl] inv show thesis by (intro that) (auto simp: ready_add_post_def)
  next
    case (Inr ru)
    then obtain removed ul where res: "res = Inr (removed, ul)" by (cases ru) auto
    from RS(2) [OF res] have inv1: "ready_inv_upto (set (provides ?tx)) r1"
      and post: "removal_post [] removed r r1"
      and disj: "\<And>h t. refs (ready_tx r1) h = Some t \<Longrightarrow>
          set (provides (ref_transaction t)) \<inter> set (provides ?tx) = {}"
      by blast+
    let ?t = "\<lparr>ref_transaction = ?tx, ref_id = ready_id r1\<rparr>"
    have "\<forall>m \<in> set (requires ?tx). \<forall>h. hm_get (provided_markers r1) m = Some h \<longrightarrow>
        refs (ready_tx r1) h \<noteq> None"
      using ready_invD(5) [OF inv1] ok by (fastforce simp: tx_ok_def)
    from link_requires_spec [OF this] obtain ready' ind off where
      link: "link_requires ?h (provided_markers r1) (requires ?tx) (ready_tx r1) True 0
               = Ret (ready', ind, off)" and same: "same_refs (ready_tx r1) ready'"
      by blast
    let ?entry = "\<lparr>rt_transaction = ?t, unlocks = ul, requires_offset = off\<rparr>"
    let ?pm = "fold (\<lambda>m. hm_insert m ?h) (provides ?tx) (provided_markers r1)"
    let ?ind = "if ind then bts_insert ?t (independent_transactions r1)
                else independent_transactions r1"
    let ?r = "\<lparr>ready_id = ready_id r1 + 1, provided_markers = ?pm,
               ready_tx = hm_insert ?h ?entry ready', independent_transactions = ?ind\<rparr>"
    have none: "refs (ready_tx r) ?h = None"
      using nc by (simp add: refs_None hm_contains_def)
    with post have none1: "refs (ready_tx r1) ?h = None"
      by (auto simp: removal_post_def ready_sub_def map_le_def dom_def)
    have refs': "refs (ready_tx ?r) = (refs (ready_tx r1))(?h \<mapsto> ?t)"
      using same by (simp add: refs_insert same_refs_def)
    have "ready_inv ?r"
    proof (rule ready_inv_insert_one [where t = ?t and h = ?h and r = r1])
      show "hm_wf (hm_insert ?h ?entry ready')"
        using same ready_invD(1) [OF inv1] by (auto simp: same_refs_def)
    qed (use inv1 disj ok none1 refs' in \<open>auto simp: ref_hash_def pp_hash_def hm.fold_put\<close>)
    moreover have "ready_add_transaction it tx r = Ret (Inr removed, ?r)"
      using rdy nc by (simp add: ready_add_transaction_def rassert_def rt res next_id_def link Let_def)
    moreover have "ready_add_post ?tx r (Inr removed) ?r"
      using post none none1 refs'
      by (auto simp: ready_add_post_def removal_post_def ready_sub_def pp_hash_def hm.fold_put
            map_le_def dom_def split: if_splits)
    ultimately show thesis by (intro that)
  qed
qed

subsection \<open>Pruning\<close>

lemma prune_provided_spec:
  "distinct ms \<Longrightarrow> \<forall>m \<in> set ms. hm_get pm m = (if current = m then None else Some hash) \<Longrightarrow>
   prune_provided current hash ms pm = Ret (fold hm_remove ms pm)"
proof (induction ms arbitrary: pm)
  case (Cons m ms)
  then have "prune_provided current hash ms (hm_remove m pm) = Ret (fold hm_remove ms (hm_remove m pm))"
    by (auto simp: hm_simps)
  with Cons.prems(2) show ?case by (simp add: rassert_def)
qed simp

lemma prune_unlocked_ind:
  assumes "\<forall>x \<in> set ind. refs ready (ref_hash x) = Some x"
    and "\<forall>h t. refs ready h = Some t \<longrightarrow> ref_hash t = h" and "bts_sorted ind"
  shows "bts_sorted (snd (prune_unlocked hs ready ind)) \<and>
    (\<forall>x \<in> set (snd (prune_unlocked hs ready ind)). refs ready (ref_hash x) = Some x)"
  using assms
proof (induction hs arbitrary: ready ind)
  case (Cons h hs)
  show ?case
  proof (cases "hm_get ready h")
    case (Some t)
    let ?t = "t\<lparr>requires_offset := requires_offset t + 1\<rparr>"
    let ?ready = "hm_insert h ?t ready"
    let ?ind = "if requires_offset ?t = length (requires (rt_pool_tx ?t))
        then bts_insert (rt_transaction ?t) ind else ind"
    have refs: "refs ?ready = refs ready"
      using same_refs_insert [OF Some, of ?t] by (simp add: same_refs_def)
    have "\<forall>x \<in> set ?ind. refs ready (ref_hash x) = Some x"
    proof
      fix x assume "x \<in> set ?ind"
      then have "x = rt_transaction t \<or> x \<in> set ind"
        using set_bts_insert [of "rt_transaction t" ind] by (auto split: if_splits)
      with Cons.prems refs_Some [OF Some] show "refs ready (ref_hash x) = Some x" by auto
    qed
    moreover have "bts_sorted ?ind" using Cons.prems(3) by (simp add: bts_sorted_insert)
    ultimately have "bts_sorted (snd (prune_unlocked hs ?ready ?ind)) \<and>
        (\<forall>x \<in> set (snd (prune_unlocked hs ?ready ?ind)). refs ready (ref_hash x) = Some x)"
      using Cons.IH [of ?ind ?ready] Cons.prems(2) unfolding refs by blast
    then show ?thesis unfolding prune_unlocked.simps Some Let_def option.case .
  qed (use Cons in simp)
qed simp

text \<open>One round of the pruning loop.\<close>

definition pruned_ready ::
    "TxMarker list \<Rightarrow> TxMarker \<Rightarrow> TxHash \<Rightarrow> ReadyTransaction \<Rightarrow> ReadyTransactions \<Rightarrow> ReadyTransactions" where
  "pruned_ready rest marker h tx r =
     (let unl = prune_unlocked (unlocks tx)
            (fst (prune_previous (pool_tx_hash (rt_pool_tx tx)) (hm_remove marker (provided_markers r))
                   (requires (rt_pool_tx tx)) (hm_remove h (ready_tx r)) rest))
            (bts_remove (rt_transaction tx) (independent_transactions r))
      in r\<lparr>provided_markers := fold hm_remove (rt_provides tx) (hm_remove marker (provided_markers r)),
           ready_tx := fst unl, independent_transactions := snd unl\<rparr>)"

lemma pruned_ready_refs:
  "refs (ready_tx (pruned_ready rest m h tx r)) = (refs (ready_tx r))(h := None)"
  "hm_wf (ready_tx r) \<Longrightarrow> hm_wf (ready_tx (pruned_ready rest m h tx r))"
proof -
  let ?r0 = "hm_remove h (ready_tx r)"
  let ?r1 = "fst (prune_previous (pool_tx_hash (rt_pool_tx tx)) (hm_remove m (provided_markers r))
       (requires (rt_pool_tx tx)) ?r0 rest)"
  have "same_refs ?r0 (ready_tx (pruned_ready rest m h tx r))"
    by (simp add: pruned_ready_def Let_def)
       (rule same_refs_trans [OF same_refs_prune_previous same_refs_prune_unlocked])
  then show "refs (ready_tx (pruned_ready rest m h tx r)) = (refs (ready_tx r))(h := None)"
    "hm_wf (ready_tx r) \<Longrightarrow> hm_wf (ready_tx (pruned_ready rest m h tx r))"
    by (auto simp: same_refs_def refs_remove)
qed

lemma pruned_ready_markers:
  "hm_get (provided_markers (pruned_ready rest m h tx r)) m' =
     (if m' \<in> insert m (set (rt_provides tx)) then None else hm_get (provided_markers r) m')"
  by (simp add: pruned_ready_def Let_def hm.fold_del hm_simps)

lemma pruned_ready_inv:
  assumes inv: "ready_inv r" and tx: "hm_get (ready_tx r) h = Some tx"
    and m: "hm_get (provided_markers r) m = Some h"
  shows "ready_inv (pruned_ready rest m h tx r)"
proof -
  let ?r = "pruned_ready rest m h tx r"
  note t = refs_Some [OF tx]
  from ready_invD(5) [OF inv m] t have mp: "m \<in> set (rt_provides tx)"
    by (simp add: rt_provides_def rt_pool_tx_def)
  let ?prev = "fst (prune_previous (pool_tx_hash (rt_pool_tx tx)) (hm_remove m (provided_markers r))
       (requires (rt_pool_tx tx)) (hm_remove h (ready_tx r)) rest)"
  let ?ind = "bts_remove (rt_transaction tx) (independent_transactions r)"
  have prev: "refs ?prev = (refs (ready_tx r))(h := None)"
    using same_refs_prune_previous by (simp add: same_refs_def refs_remove)
  have "bts_sorted (snd (prune_unlocked (unlocks tx) ?prev ?ind)) \<and>
    (\<forall>x \<in> set (snd (prune_unlocked (unlocks tx) ?prev ?ind)). refs ?prev (ref_hash x) = Some x)"
    using bts_remove_refs [OF inv t] ready_invD(2,6) [OF inv]
    by (intro prune_unlocked_ind) (auto simp: prev bts_sorted_remove split: if_splits)
  then have ind: "bts_sorted (independent_transactions ?r)"
    "\<And>x. x \<in> set (independent_transactions ?r) \<Longrightarrow> refs (ready_tx ?r) (ref_hash x) = Some x"
    unfolding pruned_ready_refs(1) prev by (auto simp: pruned_ready_def Let_def split: if_splits)
  have "ready_inv (r\<lparr>provided_markers := provided_markers ?r, ready_tx := ready_tx ?r,
         independent_transactions := independent_transactions ?r\<rparr>)"
    by (rule ready_inv_remove_one [OF inv t])
       (use ready_invD(1) [OF inv] ind mp in
         \<open>auto simp: pruned_ready_refs pruned_ready_markers rt_provides_def rt_pool_tx_def\<close>)
  then show ?thesis by (simp add: pruned_ready_def Let_def)
qed

lemma prune_tags_unfold:
  "prune_tags_loop [] removed r = Ret (removed, r)"
  "Option.bind (hm_get (provided_markers r) m) (\<lambda>h. map_option (Pair h) (hm_get (ready_tx r) h)) = None \<Longrightarrow>
   prune_tags_loop (ms @ [m]) removed r =
     prune_tags_loop ms removed (r\<lparr>provided_markers := hm_remove m (provided_markers r)\<rparr>)"
  "hm_get (provided_markers r) m = Some h \<Longrightarrow> hm_get (ready_tx r) h = Some tx \<Longrightarrow>
   prune_provided m (pool_tx_hash (rt_pool_tx tx)) (rt_provides tx) (hm_remove m (provided_markers r)) =
     Ret (fold hm_remove (rt_provides tx) (hm_remove m (provided_markers r))) \<Longrightarrow>
   prune_tags_loop (ms @ [m]) removed r =
     prune_tags_loop
       (snd (prune_previous (pool_tx_hash (rt_pool_tx tx)) (hm_remove m (provided_markers r))
              (requires (rt_pool_tx tx)) (hm_remove h (ready_tx r)) ms))
       (removed @ [rt_pool_tx tx]) (pruned_ready ms m h tx r)"
  by (subst prune_tags_loop.simps; simp add: Let_def pruned_ready_def)+

lemma ready_inv_forget_unprovided:
  assumes "ready_inv r" "hm_get (provided_markers r) m = None"
  shows "ready_inv (r\<lparr>provided_markers := hm_remove m (provided_markers r)\<rparr>)"
  using assms unfolding ready_inv_upto_def by (auto simp: hm_simps)

lemma pruned_ready_id [simp]: "ready_id (pruned_ready rest m h tx r) = ready_id r"
  by (simp add: pruned_ready_def Let_def)

lemma pruned_ready_sub: "ready_sub (pruned_ready rest m h tx r) r"
  by (auto simp: ready_sub_def map_le_def pruned_ready_refs pruned_ready_markers split: if_splits)

lemma prune_previous_rest: "set rest \<subseteq> set (snd (prune_previous hash pm ms ready rest))"
proof (induction ms arbitrary: ready rest)
  case (Cons m ms)
  note IH = Cons.IH
  have "set rest \<subseteq> set (snd (prune_previous hash pm ms ready' (rest @ ys)))" for ready' ys
    using IH [of "rest @ ys" ready'] by simp
  with IH show ?case by (simp add: Let_def split: option.split)
qed simp

lemma removal_post_step:
  assumes refs: "refs (ready_tx r1) = (refs (ready_tx r))(h := None)"
    and t: "refs (ready_tx r) h = Some t" "pool_tx_hash tx = h" and sub: "ready_sub r1 r"
    and post: "removal_post [] txs r1 r'" and id: "ready_id r1 = ready_id r"
  shows "removal_post [] (tx # txs) r r'"
proof -
  from post have sub': "ready_sub r' r1" by (simp add: removal_post_def)
  then have "refs (ready_tx r') h = None"
    by (auto simp: ready_sub_def map_le_def refs dom_def)
  with post t refs id ready_sub_trans [OF sub' sub] show ?thesis
    by (auto simp: removal_post_def split: if_splits)
qed

lemma prune_tags_loop_spec:
  "ready_inv r \<Longrightarrow>
   \<exists>txs r'. prune_tags_loop ms removed r = Ret (removed @ txs, r') \<and> ready_inv r' \<and>
     removal_post [] txs r r' \<and> (\<forall>m \<in> set ms. hm_get (provided_markers r') m = None)"
proof (induction ms removed r rule: prune_tags_loop.induct)
  case (1 ms removed r)
  show ?case
  proof (cases ms rule: rev_cases)
    case Nil
    with 1 show ?thesis by (simp add: prune_tags_unfold removal_post_def)
  next
    case (snoc rest m)
    show ?thesis
    proof (cases "hm_get (provided_markers r) m")
      case None
      let ?r = "r\<lparr>provided_markers := hm_remove m (provided_markers r)\<rparr>"
      have "vec_pop ms = Some (m, rest)" by (simp add: snoc)
      from "1.IH"(1) [OF this refl refl _ ready_inv_forget_unprovided [OF "1.prems" None]] None
      obtain txs r' where r': "prune_tags_loop rest removed ?r = Ret (removed @ txs, r')" "ready_inv r'"
        "removal_post [] txs ?r r'" "\<forall>m \<in> set rest. hm_get (provided_markers r') m = None"
        by auto
      have "ready_sub ?r r" by (auto simp: ready_sub_def map_le_def hm_simps)
      with r'(3) have "removal_post [] txs r r'"
        by (auto simp: removal_post_def intro: ready_sub_trans)
      moreover from this None have "hm_get (provided_markers r') m = None"
        by (auto simp: removal_post_def ready_sub_def map_le_def dom_def)
      ultimately show ?thesis using r' None by (auto simp: snoc prune_tags_unfold)
    next
      case (Some h)
      from ready_invD(5) [OF "1.prems" Some] obtain tx where tx: "hm_get (ready_tx r) h = Some tx"
        by (auto simp: refs_def)
      note t = refs_Some [OF tx]
      let ?r = "pruned_ready rest m h tx r"
      let ?ms = "snd (prune_previous (pool_tx_hash (rt_pool_tx tx)) (hm_remove m (provided_markers r))
              (requires (rt_pool_tx tx)) (hm_remove h (ready_tx r)) rest)"
      have hash: "pool_tx_hash (rt_pool_tx tx) = h"
        using ready_invD(2) [OF "1.prems" t] by (simp add: ref_hash_def rt_pool_tx_def)
      have pp: "prune_provided m (pool_tx_hash (rt_pool_tx tx)) (rt_provides tx)
              (hm_remove m (provided_markers r)) =
            Ret (fold hm_remove (rt_provides tx) (hm_remove m (provided_markers r)))"
        using ready_invD(3,4) [OF "1.prems" t] hash
        by (intro prune_provided_spec) (auto simp: rt_provides_def rt_pool_tx_def tx_ok_def hm_simps)
      have pop: "vec_pop ms = Some (m, rest)" by (simp add: snoc)
      have b: "Option.bind (hm_get (provided_markers r) m)
          (\<lambda>h. map_option (Pair h) (hm_get (ready_tx r) h)) = Some (h, tx)"
        by (simp add: Some tx)
      note IH = "1.IH"(2) [OF pop refl refl b refl refl refl refl refl refl pp,
          folded pruned_ready_def [unfolded Let_def]]
      from IH [OF pruned_ready_inv [OF "1.prems" tx Some]] obtain txs r' where
        r': "prune_tags_loop ?ms (removed @ [rt_pool_tx tx]) ?r = Ret ((removed @ [rt_pool_tx tx]) @ txs, r')"
        "ready_inv r'" "removal_post [] txs ?r r'"
        "\<forall>m \<in> set ?ms. hm_get (provided_markers r') m = None"
        by blast
      have "hm_get (provided_markers r') m = None"
        using r'(3) by (auto simp: removal_post_def ready_sub_def map_le_def dom_def pruned_ready_markers)
      moreover have "removal_post [] (rt_pool_tx tx # txs) r r'"
        by (rule removal_post_step [OF pruned_ready_refs(1) t hash pruned_ready_sub r'(3)]) simp
      moreover have "\<forall>m \<in> set rest. hm_get (provided_markers r') m = None"
        using r'(4) prune_previous_rest by blast
      ultimately show ?thesis
        using r'(1,2) unfolding snoc prune_tags_unfold(3) [OF Some tx pp]
        by (intro exI [of _ "rt_pool_tx tx # txs"] exI [of _ r']) simp
    qed
  qed
qed

lemma prune_tags_spec:
  assumes "ready_inv r"
  obtains txs r' where "prune_tags m r = Ret (txs, r')" "ready_inv r'" "removal_post [] txs r r'"
    "hm_get (provided_markers r') m = None"
  using prune_tags_loop_spec [OF assms, of "[m]" "[]"] by (auto simp: prune_tags_def)

end
