(* ===== verification/Pool_Inv.thy ===== *)
theory Pool_Inv
  imports Pool_Ready_Inv
begin

text \<open>
  The invariant of the whole pool (\<open>PoolInner\<close> and \<open>Pool\<close> of
  \<open>anvil/src/eth/pool/mod.rs\<close>) and what its operations do: submitting, pruning on a mined
  block, dropping and removing never panic and keep the invariant, a failed submission
  leaves the pool as it was, and a successful one accounts for every transaction.
\<close>

subsection \<open>The invariant of the pool\<close>

abbreviation in_ready :: "PoolInner \<Rightarrow> TxHash set" where
  "in_ready p \<equiv> dom (refs (ready_tx (ready_transactions p)))"

abbreviation in_pending :: "PoolInner \<Rightarrow> TxHash set" where
  "in_pending p \<equiv> dom (hm_get (waiting_queue (pending_transactions p)))"

abbreviation provided :: "PoolInner \<Rightarrow> TxMarker set" where
  "provided p \<equiv> dom (hm_get (provided_markers (ready_transactions p)))"

text \<open>
  Both queues are consistent, no transaction is in both, and a marker that a pending
  transaction misses is provided by no ready one.
\<close>

definition pool_inv :: "PoolInner \<Rightarrow> bool" where
  "pool_inv p =
     (ready_inv (ready_transactions p) \<and> pend_inv (pending_transactions p) \<and>
      in_ready p \<inter> in_pending p = {} \<and>
      (\<forall>h. misses (pending_transactions p) h \<inter> provided p = {}))"

lemma pool_invD:
  assumes "pool_inv p"
  shows "ready_inv (ready_transactions p)" "pend_inv (pending_transactions p)"
    and "in_ready p \<inter> in_pending p = {}"
    and "misses (pending_transactions p) h \<inter> provided p = {}"
  using assms unfolding pool_inv_def by simp_all

lemma inner_contains_iff: "inner_contains p h \<longleftrightarrow> h \<in> in_ready p \<union> in_pending p"
  by (auto simp: inner_contains_def pending_contains_def ready_contains_def hm_contains_def
        refs_def dom_def)

lemma ready_contains_iff: "ready_contains r h \<longleftrightarrow> h \<in> dom (refs (ready_tx r))"
  by (auto simp: ready_contains_def hm_contains_def refs_def dom_def)

lemma pool_inv_default: "pool_inv pool_default"
proof -
  have "refs [] = Map.empty" by (simp add: refs_def fun_eq_iff)
  then show ?thesis
    by (simp add: pool_inv_def pool_default_def ready_inv_default pend_inv_default)
       (simp add: ready_default_def pending_default_def)
qed

lemma pool_inv_clear: "pool_inv (inner_clear p)"
proof -
  have "refs [] = Map.empty" by (simp add: refs_def fun_eq_iff)
  then show ?thesis
    by (simp add: pool_inv_def inner_clear_def ready_inv_clear pend_inv_clear)
       (simp add: ready_clear_def pending_clear_def)
qed

text \<open>A pool whose ready queue shrank.\<close>

lemma ready_sub_doms:
  assumes "ready_sub r' r"
  shows "dom (refs (ready_tx r')) \<subseteq> dom (refs (ready_tx r))"
    and "dom (hm_get (provided_markers r')) \<subseteq> dom (hm_get (provided_markers r))"
  using assms map_le_implies_dom_le unfolding ready_sub_def by blast+

lemma pool_inv_shrink_ready:
  assumes inv: "pool_inv p" and r': "ready_inv r'" "ready_sub r' (ready_transactions p)"
  shows "pool_inv (p\<lparr>ready_transactions := r'\<rparr>)"
proof -
  note D = pool_invD [OF inv] and S = ready_sub_doms [OF r'(2)]
  from D(3) S(1) have "dom (refs (ready_tx r')) \<inter> in_pending p = {}" by blast
  moreover from D(4) S(2)
  have "misses (pending_transactions p) h \<inter> dom (hm_get (provided_markers r')) = {}" for h by blast
  ultimately show ?thesis using D(2) r'(1) by (simp add: pool_inv_def)
qed

text \<open>Checking off markers: what is unlocked leaves the pending queue and is addable.\<close>

definition addable :: "PoolInner \<Rightarrow> PendingPoolTransaction \<Rightarrow> bool" where
  "addable p tx = (is_ready tx \<and> tx_ok (pp_transaction tx) \<and> \<not> inner_contains p (pp_hash tx))"

lemma unlock_pool:
  assumes inv: "pool_inv p" and it: "iteration_order it"
  obtains us pend where "mark_and_unlock it ms (pending_transactions p) = Ret (us, pend)"
    "pool_inv (p\<lparr>pending_transactions := pend\<rparr>)"
    "\<forall>h. misses pend h \<inter> set ms = {}"
    "distinct (map pp_hash us)" "\<forall>u \<in> set us. addable (p\<lparr>pending_transactions := pend\<rparr>) u"
    "pp_hash ` set us \<subseteq> in_pending p"
    "dom (hm_get (waiting_queue pend)) = in_pending p - pp_hash ` set us"
proof -
  note D = pool_invD [OF inv]
  from mark_and_unlock_spec [OF D(2) it, of ms] obtain us pend where
    eq: "mark_and_unlock it ms (pending_transactions p) = Ret (us, pend)" and pinv: "pend_inv pend"
    and post: "unlock_post (set ms) (pending_transactions p) us pend" .
  note U = unlock_postD [OF post]
  have sub: "pp_hash ` set us \<subseteq> in_pending p" unfolding U(3) by blast
  have inv': "pool_inv (p\<lparr>pending_transactions := pend\<rparr>)"
  proof -
    from D(3) U(4) have "in_ready p \<inter> dom (hm_get (waiting_queue pend)) = {}" by blast
    moreover have "misses pend h \<inter> provided p = {}" for h
      using D(4) [of h] unfolding U(1) by blast
    ultimately show ?thesis using D(1) pinv by (simp add: pool_inv_def)
  qed
  have "addable (p\<lparr>pending_transactions := pend\<rparr>) u" if u: "u \<in> set us" for u
  proof -
    from U(5) [OF u] obtain w where "is_ready u"
      and w: "hm_get (waiting_queue (pending_transactions p)) (pp_hash u) = Some w"
        "pp_transaction u = pp_transaction w" by blast
    then have "tx_ok (pp_transaction u)" using pend_inv_at_misses(3) [OF D(2) w(1)] by simp
    moreover have "\<not> inner_contains (p\<lparr>pending_transactions := pend\<rparr>) (pp_hash u)"
    proof -
      from sub u have "pp_hash u \<in> in_pending p" by blast
      with D(3) have "pp_hash u \<notin> in_ready p" by blast
      moreover from u have "pp_hash u \<notin> dom (hm_get (waiting_queue pend))" unfolding U(4) by blast
      ultimately show ?thesis unfolding inner_contains_iff by simp
    qed
    ultimately show ?thesis using \<open>is_ready u\<close> by (simp add: addable_def)
  qed
  then show thesis using that [OF eq inv' _ U(2) _ sub U(4)] U(1) by blast
qed

lemma mark_and_unlock_idle:
  "\<forall>m \<in> set ms. hm_get (required_markers p) m = None \<Longrightarrow> mark_and_unlock_from it ms p ul = Ret (ul, p)"
  by (induction ms) auto

text \<open>Markers that are provided already unlock nothing.\<close>

lemma unlock_provided:
  assumes inv: "pool_inv p" and ms: "set ms \<subseteq> provided p"
  shows "mark_and_unlock it ms (pending_transactions p) = Ret ([], pending_transactions p)"
proof -
  note D = pool_invD [OF inv]
  have "hm_get (required_markers (pending_transactions p)) m = None" if "m \<in> set ms" for m
  proof (rule ccontr)
    assume "hm_get (required_markers (pending_transactions p)) m \<noteq> None"
    then obtain hs where hs: "hm_get (required_markers (pending_transactions p)) m = Some hs" by blast
    with pend_invD(3) [OF D(2)] have "hs \<noteq> []" by (auto simp: marker_table_ok_def)
    then obtain h where "h \<in> set hs" by (cases hs) auto
    with hs pend_invD(4) [OF D(2), of h m] have "m \<in> misses (pending_transactions p) h"
      by (simp add: marker_set_def)
    with D(4) [of h] that ms show False by blast
  qed
  then show ?thesis unfolding mark_and_unlock_def by (intro mark_and_unlock_idle) blast
qed

subsection \<open>Adding a transaction and the ones it unlocks\<close>

text \<open>One round of the queue.\<close>

lemma add_ready_round:
  assumes inv: "pool_inv p" and it: "iteration_order it" and ok: "addable p tx"
  obtains us pend res rdy where
    "mark_and_unlock it (provides (pp_transaction tx)) (pending_transactions p) = Ret (us, pend)"
    "ready_add_transaction it tx (ready_transactions p) = Ret (res, rdy)"
    "ready_add_post (pp_transaction tx) (ready_transactions p) res rdy"
    "pool_inv \<lparr>ready_transactions = rdy, pending_transactions = pend\<rparr>"
    "distinct (map pp_hash us)" "pp_hash ` set us \<subseteq> in_pending p"
    "dom (hm_get (waiting_queue pend)) = in_pending p - pp_hash ` set us"
    "\<forall>u \<in> set us. addable \<lparr>ready_transactions = rdy, pending_transactions = pend\<rparr> u"
proof -
  let ?tx = "pp_transaction tx"
  from ok have h: "pp_hash tx \<notin> in_ready p" "pp_hash tx \<notin> in_pending p"
    by (auto simp: addable_def inner_contains_iff)
  from unlock_pool [OF inv it, of "provides ?tx"] obtain us pend where
    mu: "mark_and_unlock it (provides ?tx) (pending_transactions p) = Ret (us, pend)"
    and inv1: "pool_inv (p\<lparr>pending_transactions := pend\<rparr>)"
    and miss: "\<forall>h. misses pend h \<inter> set (provides ?tx) = {}"
    and dist: "distinct (map pp_hash us)"
    and add1: "\<forall>u \<in> set us. addable (p\<lparr>pending_transactions := pend\<rparr>) u"
    and sub: "pp_hash ` set us \<subseteq> in_pending p"
    and dom: "dom (hm_get (waiting_queue pend)) = in_pending p - pp_hash ` set us"
    by blast
  from ready_add_transaction_spec [OF pool_invD(1) [OF inv] it, of tx] ok h
  obtain res rdy where
    ra: "ready_add_transaction it tx (ready_transactions p) = Ret (res, rdy)"
    and rinv: "ready_inv rdy" and post: "ready_add_post ?tx (ready_transactions p) res rdy"
    by (auto simp: addable_def ready_contains_iff)
  let ?p = "\<lparr>ready_transactions = rdy, pending_transactions = pend\<rparr>"
  have doms: "dom (refs (ready_tx rdy)) \<subseteq> insert (pp_hash tx) (in_ready p)"
    "dom (hm_get (provided_markers rdy)) \<subseteq> set (provides ?tx) \<union> provided p"
  proof -
    have "h \<in> in_ready p"
      if "h \<noteq> pp_hash tx" "refs (ready_tx rdy) h \<in> {None, refs (ready_tx (ready_transactions p)) h}"
        "h \<in> dom (refs (ready_tx rdy))" for h
      using that by (auto simp: dom_def)
    with post show "dom (refs (ready_tx rdy)) \<subseteq> insert (pp_hash tx) (in_ready p)"
      by (auto simp: ready_add_post_def pp_hash_def dom_def split: sum.splits)
    show "dom (hm_get (provided_markers rdy)) \<subseteq> set (provides ?tx) \<union> provided p"
      using post by (auto simp: ready_add_post_def split: sum.splits)
  qed
  have "dom (refs (ready_tx rdy)) \<inter> dom (hm_get (waiting_queue pend)) = {}"
    using doms(1) dom pool_invD(3) [OF inv] h by blast
  moreover have "\<forall>h. misses pend h \<inter> dom (hm_get (provided_markers rdy)) = {}"
    using doms(2) miss pool_invD(4) [OF inv1] by fastforce
  ultimately have inv': "pool_inv ?p"
    using rinv pool_invD(2) [OF inv1] by (simp add: pool_inv_def)
  have "\<forall>u \<in> set us. addable ?p u"
    using add1 doms(1) sub h unfolding addable_def inner_contains_iff by fastforce
  then show thesis using that [OF mu ra post inv' dist sub dom] by blast
qed

text \<open>
  The whole queue of transactions \<open>q\<close>. Nothing appears that was not there, no ready
  transaction is lost but to a replacement, and what was pending or queued is afterwards in
  the pool or reported as replaced or discarded.
\<close>

definition queue_post ::
    "TxHash set \<Rightarrow> PoolInner \<Rightarrow> AddedReady \<Rightarrow> AddedReady \<Rightarrow> PoolInner \<Rightarrow> bool" where
  "queue_post Q p a a' p' =
     (ar_hash a' = ar_hash a \<and>
      set (ar_removed a) \<subseteq> set (ar_removed a') \<and> set (ar_discarded a) \<subseteq> set (ar_discarded a') \<and>
      in_ready p' \<union> in_pending p' \<subseteq> in_ready p \<union> in_pending p \<union> Q \<and>
      in_ready p \<subseteq> in_ready p' \<union> pool_tx_hash ` set (ar_removed a') \<and>
      in_pending p \<union> Q \<subseteq> in_ready p' \<union> in_pending p' \<union> pool_tx_hash ` set (ar_removed a')
        \<union> set (ar_discarded a'))"

lemma queue_post_empty: "queue_post {} p a a p"
  by (auto simp: queue_post_def)

lemma queue_postD:
  assumes "queue_post Q p a a' p'"
  shows "ar_hash a' = ar_hash a"
    and "set (ar_removed a) \<subseteq> set (ar_removed a')" "set (ar_discarded a) \<subseteq> set (ar_discarded a')"
    and "in_ready p' \<union> in_pending p' \<subseteq> in_ready p \<union> in_pending p \<union> Q"
    and "in_ready p \<subseteq> in_ready p' \<union> pool_tx_hash ` set (ar_removed a')"
    and "in_pending p \<union> Q \<subseteq> in_ready p' \<union> in_pending p' \<union> pool_tx_hash ` set (ar_removed a')
        \<union> set (ar_discarded a')"
  using assms unfolding queue_post_def by simp_all

lemma queue_post_step:
  assumes post: "queue_post (Q \<union> U) s b a' p'"
    and U: "U \<subseteq> in_pending p" "in_pending s = in_pending p - U"
    and R: "in_ready s \<subseteq> insert h (in_ready p)"
      "in_ready p \<subseteq> in_ready s \<union> pool_tx_hash ` set (ar_removed b)"
      "h \<in> in_ready s \<union> set (ar_discarded b)"
    and A: "ar_hash b = ar_hash a" "set (ar_removed a) \<subseteq> set (ar_removed b)"
      "set (ar_discarded a) \<subseteq> set (ar_discarded b)"
  shows "queue_post (insert h Q) p a a' p'"
proof -
  note P = queue_postD [OF post]
  have "in_ready p' \<union> in_pending p' \<subseteq> in_ready p \<union> in_pending p \<union> insert h Q"
    using P(4) U R(1) by blast
  moreover have "in_ready p \<subseteq> in_ready p' \<union> pool_tx_hash ` set (ar_removed a')"
    using P(2,5) R(2) by blast
  moreover have "in_pending p \<union> insert h Q \<subseteq> in_ready p' \<union> in_pending p'
      \<union> pool_tx_hash ` set (ar_removed a') \<union> set (ar_discarded a')"
    using P(3,5,6) U R(3) by blast
  moreover have "set (ar_removed a) \<subseteq> set (ar_removed a')" "set (ar_discarded a) \<subseteq> set (ar_discarded a')"
    using P(2,3) A(2,3) by blast+
  ultimately show ?thesis using P(1) A(1) unfolding queue_post_def by simp
qed

lemma ready_add_doms:
  assumes post: "ready_add_post tx r res r'"
  shows "res = Inr replaced \<Longrightarrow>
      pool_tx_hash tx \<in> dom (refs (ready_tx r')) \<and>
      dom (refs (ready_tx r')) \<subseteq> insert (pool_tx_hash tx) (dom (refs (ready_tx r))) \<and>
      dom (refs (ready_tx r)) \<subseteq> dom (refs (ready_tx r')) \<union> pool_tx_hash ` set replaced"
    and "res = Inl e \<Longrightarrow> r' = r"
proof -
  show "pool_tx_hash tx \<in> dom (refs (ready_tx r')) \<and>
      dom (refs (ready_tx r')) \<subseteq> insert (pool_tx_hash tx) (dom (refs (ready_tx r))) \<and>
      dom (refs (ready_tx r)) \<subseteq> dom (refs (ready_tx r')) \<union> pool_tx_hash ` set replaced"
    if "res = Inr replaced"
  proof (intro conjI)
    show "dom (refs (ready_tx r')) \<subseteq> insert (pool_tx_hash tx) (dom (refs (ready_tx r)))"
    proof
      fix h assume "h \<in> dom (refs (ready_tx r'))"
      moreover have "h \<noteq> pool_tx_hash tx \<Longrightarrow> refs (ready_tx r') h \<in> {None, refs (ready_tx r) h}"
        using post that by (simp add: ready_add_post_def)
      ultimately show "h \<in> insert (pool_tx_hash tx) (dom (refs (ready_tx r)))"
        by (cases "h = pool_tx_hash tx") (auto simp: dom_def)
    qed
  qed (use post that in \<open>auto simp: ready_add_post_def\<close>)
  show "res = Inl e \<Longrightarrow> r' = r" using post by (simp add: ready_add_post_def)
qed

lemma addable_queue:
  assumes q: "\<forall>u \<in> set q. addable p u" and h: "h \<notin> pp_hash ` set q"
    and r: "in_ready p1 \<subseteq> insert h (in_ready p)" and w: "in_pending p1 \<subseteq> in_pending p"
  shows "\<forall>u \<in> set q. addable p1 u"
  using assms unfolding addable_def inner_contains_iff by blast

lemma add_ready_loop_spec:
  "\<lbrakk>pool_inv p; iteration_order it; \<not> is_new; distinct (map pp_hash q); \<forall>u \<in> set q. addable p u\<rbrakk> \<Longrightarrow>
   \<exists>a' p'. add_ready_loop it q is_new a p = Ret (Inr a', p') \<and> pool_inv p' \<and>
     queue_post (pp_hash ` set q) p a a' p'"
proof (induction it q is_new a p rule: add_ready_loop.induct)
  case (1 it is_new a p)
  then show ?case by (simp add: queue_post_empty)
next
  case (2 it tx q is_new a p)
  from "2.prems" have ok: "addable p tx" by simp
  from add_ready_round [OF "2.prems"(1,2) ok] obtain us pend res rdy where
    mu: "mark_and_unlock it (provides (pp_transaction tx)) (pending_transactions p) = Ret (us, pend)"
    and ra: "ready_add_transaction it tx (ready_transactions p) = Ret (res, rdy)"
    and post: "ready_add_post (pp_transaction tx) (ready_transactions p) res rdy"
    and inv: "pool_inv \<lparr>ready_transactions = rdy, pending_transactions = pend\<rparr>"
    and dist: "distinct (map pp_hash us)" and sub: "pp_hash ` set us \<subseteq> in_pending p"
    and dom: "dom (hm_get (waiting_queue pend)) = in_pending p - pp_hash ` set us"
    and us: "\<forall>u \<in> set us. addable \<lparr>ready_transactions = rdy, pending_transactions = pend\<rparr> u" .
  let ?p1 = "\<lparr>ready_transactions = rdy, pending_transactions = pend\<rparr>"
  from "2.prems"(5) have qp: "pp_hash ` set q \<inter> in_pending p = {}"
    by (auto simp: addable_def inner_contains_iff)
  have r1: "in_ready ?p1 \<subseteq> insert (pp_hash tx) (in_ready p)"
    using ready_add_doms [OF post] by (cases res) (auto simp: pp_hash_def)
  have "\<forall>u \<in> set q. addable ?p1 u"
    by (rule addable_queue [where p = p and h = "pp_hash tx"]) (use "2.prems" r1 dom in auto)
  with us have all: "\<forall>u \<in> set (q @ us). addable ?p1 u" by auto
  have dq: "distinct (map pp_hash (q @ us))"
    using "2.prems"(4) dist sub qp by auto
  show ?case
  proof (cases res)
    case (Inl e)
    let ?a = "a\<lparr>ar_discarded := ar_discarded a @ [pp_hash tx]\<rparr>"
    from "2.IH"(1) [OF mu refl ra refl refl Inl "2.prems"(3) inv "2.prems"(2) _ dq all]
    obtain a' p' where r: "add_ready_loop it (q @ us) False ?a ?p1 = Ret (Inr a', p')" "pool_inv p'"
      "queue_post (pp_hash ` set (q @ us)) ?p1 ?a a' p'" by auto
    from r(3) have "queue_post (insert (pp_hash tx) (pp_hash ` set q)) p a a' p'"
      by (intro queue_post_step [where s = ?p1 and b = ?a, OF _ sub])
         (use ready_add_doms(2) [OF post Inl] dom r1 in \<open>auto simp: image_Un\<close>)
    with r "2.prems"(3) show ?thesis by (simp add: mu ra Inl)
  next
    case (Inr replaced)
    let ?a = "a\<lparr>ar_promoted := ar_promoted a @ [pp_hash tx], ar_removed := ar_removed a @ replaced\<rparr>"
    from "2.IH"(2) [OF mu refl ra refl refl Inr inv "2.prems"(2) _ dq all] "2.prems"(3)
    obtain a' p' where r: "add_ready_loop it (q @ us) False ?a ?p1 = Ret (Inr a', p')" "pool_inv p'"
      "queue_post (pp_hash ` set (q @ us)) ?p1 ?a a' p'" by auto
    from r(3) have "queue_post (insert (pp_hash tx) (pp_hash ` set q)) p a a' p'"
      by (intro queue_post_step [where s = ?p1 and b = ?a, OF _ sub])
         (use ready_add_doms(1) [OF post Inr] dom r1 in \<open>auto simp: image_Un pp_hash_def\<close>)
    with r "2.prems"(3) show ?thesis by (simp add: mu ra Inr)
  qed
qed

text \<open>The submitted transaction together with what it unlocks.\<close>

lemma add_ready_submitted:
  assumes inv: "pool_inv p" and it: "iteration_order it" and ok: "addable p tx"
  obtains
    (underpriced) "add_ready_loop it [tx] True a p =
        Ret (Inl (ReplacementUnderpriced (pp_transaction tx)), p)"
  | (added) a' p' where "add_ready_loop it [tx] True a p = Ret (Inr a', p')" "pool_inv p'"
      "queue_post {pp_hash tx} p a a' p'"
      "pp_hash tx \<in> in_ready p' \<union> pool_tx_hash ` set (ar_removed a')"
proof -
  from add_ready_round [OF inv it ok] obtain us pend res rdy where
    mu: "mark_and_unlock it (provides (pp_transaction tx)) (pending_transactions p) = Ret (us, pend)"
    and ra: "ready_add_transaction it tx (ready_transactions p) = Ret (res, rdy)"
    and post: "ready_add_post (pp_transaction tx) (ready_transactions p) res rdy"
    and inv1: "pool_inv \<lparr>ready_transactions = rdy, pending_transactions = pend\<rparr>"
    and dist: "distinct (map pp_hash us)" and sub: "pp_hash ` set us \<subseteq> in_pending p"
    and dom: "dom (hm_get (waiting_queue pend)) = in_pending p - pp_hash ` set us"
    and us: "\<forall>u \<in> set us. addable \<lparr>ready_transactions = rdy, pending_transactions = pend\<rparr> u" .
  let ?p1 = "\<lparr>ready_transactions = rdy, pending_transactions = pend\<rparr>"
  show thesis
  proof (cases res)
    case (Inl e)
    with post have "rdy = ready_transactions p" "e = ReplacementUnderpriced (pp_transaction tx)"
      and "set (provides (pp_transaction tx)) \<subseteq> provided p"
      by (simp_all add: ready_add_post_def)
    with unlock_provided [OF inv this(3), of it] mu have "?p1 = p" by (simp add: PoolInner.equality)
    with mu ra Inl \<open>e = _\<close> show thesis by (intro underpriced) simp
  next
    case (Inr replaced)
    let ?a = "a\<lparr>ar_removed := ar_removed a @ replaced\<rparr>"
    from add_ready_loop_spec [OF inv1 it _ dist us, of False ?a] obtain a' p' where
      r: "add_ready_loop it us False ?a ?p1 = Ret (Inr a', p')" "pool_inv p'"
      "queue_post (pp_hash ` set us) ?p1 ?a a' p'" by auto
    note R = ready_add_doms(1) [OF post Inr]
    from r(3) have "queue_post (insert (pp_hash tx) {}) p a a' p'"
      by (intro queue_post_step [where s = ?p1 and b = ?a, OF _ sub]) (use R dom in \<open>auto simp: pp_hash_def\<close>)
    moreover have "pp_hash tx \<in> in_ready p' \<union> pool_tx_hash ` set (ar_removed a')"
      using queue_postD(5) [OF r(3)] R by (auto simp: pp_hash_def)
    ultimately show thesis using r(1,2) by (intro added) (simp_all add: mu ra Inr)
  qed
qed

text \<open>
  The outcome of submitting a ready transaction: underpriced, and nothing changed; cyclic,
  because a transaction it unlocked replaced it again; or ready.
\<close>

definition add_ready_post ::
    "PendingPoolTransaction \<Rightarrow> PoolInner \<Rightarrow> PoolError + AddedTransaction \<Rightarrow> PoolInner \<Rightarrow> bool" where
  "add_ready_post tx p res p' =
     (in_ready p' \<union> in_pending p' \<subseteq> insert (pp_hash tx) (in_ready p \<union> in_pending p) \<and>
      (case res of
         Inl e \<Rightarrow> e = CyclicTransaction \<or> e = ReplacementUnderpriced (pp_transaction tx) \<and> p' = p
       | Inr added \<Rightarrow>
           pp_hash tx \<in> in_ready p' \<and>
           (\<exists>a. added = AddedReadyTx a \<and> ar_hash a = pp_hash tx \<and>
             queue_post {pp_hash tx} p (AddedReady_new (pp_hash tx)) a p')))"

lemma add_ready_transaction_spec:
  assumes inv: "pool_inv p" and it: "iteration_order it" and ok: "addable p tx"
  obtains res p' where "add_ready_transaction it tx p = Ret (res, p')" "pool_inv p'"
    "add_ready_post tx p res p'"
proof (cases rule: add_ready_submitted [OF inv it ok, of "AddedReady_new (pp_hash tx)"])
  case 1
  then show thesis
    using inv that [of "Inl (ReplacementUnderpriced (pp_transaction tx))" p]
    by (auto simp: add_ready_transaction_def Let_def add_ready_post_def)
next
  case (2 a' p')
  note P = queue_postD [OF 2(3)]
  show thesis
  proof (cases "list_ex (\<lambda>t. pool_tx_hash t = pp_hash tx) (ar_removed a')")
    case True
    obtain txs rdy where c: "clear_transactions (ar_promoted a') (ready_transactions p') = (txs, rdy)"
      by fastforce
    then have rm: "ready_inv rdy" "removal_post (ar_promoted a') txs (ready_transactions p') rdy"
      using remove_unfiltered_spec [OF pool_invD(1) [OF 2(2)]] unfolding clear_transactions_def by blast+
    then have sub: "ready_sub rdy (ready_transactions p')" by (simp add: removal_post_def)
    let ?p = "p'\<lparr>ready_transactions := rdy\<rparr>"
    have "pool_inv ?p" by (rule pool_inv_shrink_ready [OF 2(2) rm(1) sub])
    moreover have "add_ready_transaction it tx p = Ret (Inl CyclicTransaction, ?p)"
      using True 2(1) c by (simp add: add_ready_transaction_def Let_def)
    moreover have "add_ready_post tx p (Inl CyclicTransaction) ?p"
    proof -
      from P(4) ready_sub_doms(1) [OF sub]
      have "in_ready ?p \<union> in_pending ?p \<subseteq> insert (pp_hash tx) (in_ready p \<union> in_pending p)"
        by simp blast
      then show ?thesis by (simp add: add_ready_post_def)
    qed
    ultimately show thesis using that by blast
  next
    case False
    then have "pp_hash tx \<notin> pool_tx_hash ` set (ar_removed a')" by (auto simp: list_ex_iff)
    then have "add_ready_post tx p (Inr (AddedReadyTx a')) p'"
      using 2(3,4) P(1,4) by (auto simp: add_ready_post_def AddedReady_new_def)
    moreover have "add_ready_transaction it tx p = Ret (Inr (AddedReadyTx a'), p')"
      using False 2(1) by (simp add: add_ready_transaction_def Let_def)
    ultimately show thesis using that 2(2) by blast
  qed
qed

subsection \<open>Submitting\<close>

definition add_post ::
    "PoolTransaction \<Rightarrow> PoolInner \<Rightarrow> PoolError + AddedTransaction \<Rightarrow> PoolInner \<Rightarrow> bool" where
  "add_post tx p res p' =
     (case res of
        Inl e \<Rightarrow> e = CyclicTransaction \<or> p' = p
      | Inr (AddedReadyTx a) \<Rightarrow> ar_hash a = pool_tx_hash tx \<and> pool_tx_hash tx \<in> in_ready p' \<and>
          queue_post {pool_tx_hash tx} p (AddedReady_new (pool_tx_hash tx)) a p'
      | Inr (AddedPending h) \<Rightarrow> h = pool_tx_hash tx \<and>
          in_ready p' = in_ready p \<and> in_pending p' = insert (pool_tx_hash tx) (in_pending p))"

lemma PendingPoolTransaction_new_simps:
  "pp_transaction (PendingPoolTransaction_new tx pm now) = tx"
  "pp_hash (PendingPoolTransaction_new tx pm now) = pool_tx_hash tx"
  "set (missing_markers (PendingPoolTransaction_new tx pm now)) = set (requires tx) - dom (hm_get pm)"
  by (auto simp: PendingPoolTransaction_new_def pp_hash_def hm_contains_def)

lemma inner_add_transaction_spec:
  assumes inv: "pool_inv p" and it: "iteration_order it" and ok: "tx_ok tx"
  obtains res p' where "inner_add_transaction it now tx p = Ret (res, p')" "pool_inv p'"
    "add_post tx p res p'"
proof (cases "inner_contains p (pool_tx_hash tx)")
  case True
  then show thesis
    using that [of "Inl (AlreadyImported tx)" p] inv
    by (simp add: inner_add_transaction_def add_post_def)
next
  case new: False
  note D = pool_invD [OF inv]
  define ptx where "ptx = PendingPoolTransaction_new tx (provided_markers (ready_transactions p)) now"
  note ptx = PendingPoolTransaction_new_simps [of tx "provided_markers (ready_transactions p)" now,
      folded ptx_def]
  show thesis
  proof (cases "is_ready ptx")
    case True
    with new ok have "addable p ptx" by (simp add: addable_def ptx)
    from add_ready_transaction_spec [OF inv it this] obtain res p' where
      r: "add_ready_transaction it ptx p = Ret (res, p')" "pool_inv p'" "add_ready_post ptx p res p'" .
    have "add_post tx p res p'"
      using r(3) by (auto simp: add_ready_post_def add_post_def ptx split: sum.splits)
    moreover have "inner_add_transaction it now tx p = Ret (res, p')"
      using new True r(1) by (simp add: inner_add_transaction_def Let_def flip: ptx_def)
    ultimately show thesis using that r(2) by blast
  next
    case False
    have "\<not> pending_contains (pending_transactions p) (pp_hash ptx)"
      using new by (simp add: inner_contains_def ptx)
    from pending_add_spec [OF D(2) False this] ok obtain res pend where
      r: "pending_add_transaction ptx (pending_transactions p) = Ret (res, pend)" "pend_inv pend"
      and add: "res = Inr () \<Longrightarrow> hm_get (waiting_queue pend) =
         (hm_get (waiting_queue (pending_transactions p)))(pp_hash ptx \<mapsto> ptx)"
      and same: "res \<noteq> Inr () \<Longrightarrow> pend = pending_transactions p"
      by (auto simp: ptx)
    let ?p = "p\<lparr>pending_transactions := pend\<rparr>"
    have eq: "inner_add_transaction it now tx p =
        Ret (case res of Inl e \<Rightarrow> Inl e | Inr _ \<Rightarrow> Inr (AddedPending (pp_hash ptx)), ?p)"
      using new False r(1)
      by (simp add: inner_add_transaction_def Let_def flip: ptx_def split: sum.splits)
    show thesis
    proof (cases res)
      case (Inl e)
      with same have "?p = p" by simp
      with eq Inl show thesis using that [of "Inl e" p] inv by (simp add: add_post_def)
    next
      case (Inr x)
      with add have wq: "hm_get (waiting_queue pend) =
         (hm_get (waiting_queue (pending_transactions p)))(pp_hash ptx \<mapsto> ptx)" by simp
      have "misses pend h = (if h = pp_hash ptx then set (missing_markers ptx)
          else misses (pending_transactions p) h)" for h
        by (simp add: misses_def wq)
      then have "misses pend h \<inter> provided p = {}" for h
        using D(4) [of h] by (auto simp: ptx)
      then have "pool_inv ?p"
        using D r(2) new by (simp add: pool_inv_def wq ptx inner_contains_iff)
      moreover have "add_post tx p (Inr (AddedPending (pp_hash ptx))) ?p"
        by (auto simp: add_post_def ptx wq)
      ultimately show thesis using that eq Inr by simp
    qed
  qed
qed

subsection \<open>Removing and pruning\<close>

lemma inner_remove_invalid_spec:
  assumes inv: "pool_inv p" and eq: "inner_remove_invalid hs p = (removed, p')"
  shows "pool_inv p'" "set hs \<inter> (in_ready p' \<union> in_pending p') = {}"
    and "in_ready p' \<subseteq> in_ready p" "in_pending p' = in_pending p - set hs"
proof -
  note D = pool_invD [OF inv]
  have *: "pool_inv p' \<and> set hs \<inter> (in_ready p' \<union> in_pending p') = {} \<and>
      in_ready p' \<subseteq> in_ready p \<and> in_pending p' = in_pending p - set hs"
  proof (cases "hs = []")
    case True
    with eq inv show ?thesis by (auto simp: inner_remove_invalid_def)
  next
    case False
    obtain txs rdy where r: "remove_with_markers hs None (ready_transactions p) = (txs, rdy)" by fastforce
    obtain txs' pend where w: "pending_remove hs (pending_transactions p) = (txs', pend)" by fastforce
    note R = remove_unfiltered_spec [OF D(1) r] and W = pending_remove_spec [OF D(2) w]
    from eq False r w have p': "p' = \<lparr>ready_transactions = rdy, pending_transactions = pend\<rparr>"
      by (simp add: inner_remove_invalid_def)
    from R(2) have sub: "ready_sub rdy (ready_transactions p)"
      and gone: "\<forall>h \<in> set hs. refs (ready_tx rdy) h = None"
      by (simp_all add: removal_post_def)
    have inv1: "pool_inv (p\<lparr>ready_transactions := rdy\<rparr>)"
      by (rule pool_inv_shrink_ready [OF inv R(1) sub])
    have pend: "in_pending p' = in_pending p - set hs"
      by (auto simp: p' W(2) dom_def)
    have "misses pend h = (if h \<in> set hs then {} else misses (pending_transactions p) h)" for h
      by (simp add: misses_def W(2))
    then have "misses pend h \<inter> dom (hm_get (provided_markers rdy)) = {}" for h
      using pool_invD(4) [OF inv1, of h] by simp
    moreover have "dom (refs (ready_tx rdy)) \<inter> dom (hm_get (waiting_queue pend)) = {}"
      using pool_invD(3) [OF inv1] pend p' by simp blast
    ultimately have "pool_inv p'" using R(1) W(1) by (simp add: pool_inv_def p')
    with pend gone ready_sub_doms(1) [OF sub] show ?thesis by (auto simp: p')
  qed
  from * show "pool_inv p'" "set hs \<inter> (in_ready p' \<union> in_pending p') = {}"
    "in_ready p' \<subseteq> in_ready p" "in_pending p' = in_pending p - set hs" by blast+
qed

lemma addable_shrink:
  assumes "addable p u" "in_ready p1 \<union> in_pending p1 \<subseteq> insert h (in_ready p \<union> in_pending p)" "pp_hash u \<noteq> h"
  shows "addable p1 u"
  using assms unfolding addable_def inner_contains_iff by blast

lemma addable_mono:
  assumes "addable p u" "in_ready p1 \<subseteq> in_ready p" "in_pending p1 \<subseteq> in_pending p"
  shows "addable p1 u"
  using assms unfolding addable_def inner_contains_iff by blast

text \<open>Pruning one marker.\<close>

lemma prune_one:
  assumes inv: "pool_inv p" and it: "iteration_order it"
  obtains us pend txs rdy where
    "mark_and_unlock it [m] (pending_transactions p) = Ret (us, pend)"
    "prune_tags m (ready_transactions p) = Ret (txs, rdy)"
    "pool_inv \<lparr>ready_transactions = rdy, pending_transactions = pend\<rparr>"
    "distinct (map pp_hash us)" "pp_hash ` set us \<subseteq> in_pending p"
    "\<forall>u \<in> set us. addable \<lparr>ready_transactions = rdy, pending_transactions = pend\<rparr> u"
    "dom (refs (ready_tx rdy)) \<subseteq> in_ready p" "dom (hm_get (waiting_queue pend)) \<subseteq> in_pending p"
    "dom (hm_get (provided_markers rdy)) \<subseteq> provided p - {m}"
proof -
  from unlock_pool [OF inv it, of "[m]"] obtain us pend where
    mu: "mark_and_unlock it [m] (pending_transactions p) = Ret (us, pend)"
    and inv1: "pool_inv (p\<lparr>pending_transactions := pend\<rparr>)"
    and "\<forall>h. misses pend h \<inter> set [m] = {}"
    and dist: "distinct (map pp_hash us)"
    and add1: "\<forall>u \<in> set us. addable (p\<lparr>pending_transactions := pend\<rparr>) u"
    and sub: "pp_hash ` set us \<subseteq> in_pending p"
    and dom: "dom (hm_get (waiting_queue pend)) = in_pending p - pp_hash ` set us" .
  from prune_tags_spec [OF pool_invD(1) [OF inv], of m] obtain txs rdy where
    pt: "prune_tags m (ready_transactions p) = Ret (txs, rdy)" and rinv: "ready_inv rdy"
    and post: "removal_post [] txs (ready_transactions p) rdy"
    and m: "hm_get (provided_markers rdy) m = None" .
  from post have rs: "ready_sub rdy (ready_transactions p)" by (simp add: removal_post_def)
  note S = ready_sub_doms [OF rs]
  have inv2: "pool_inv \<lparr>ready_transactions = rdy, pending_transactions = pend\<rparr>"
    using pool_inv_shrink_ready [OF inv1 rinv] rs
    by (cases p) (simp add: PoolInner.defs)
  have us: "addable \<lparr>ready_transactions = rdy, pending_transactions = pend\<rparr> u" if "u \<in> set us" for u
    by (rule addable_mono [of "p\<lparr>pending_transactions := pend\<rparr>"]) (use add1 that S(1) in simp_all)
  from m have "m \<notin> dom (hm_get (provided_markers rdy))" by (simp add: domIff)
  with S(2) have pm: "dom (hm_get (provided_markers rdy)) \<subseteq> provided p - {m}"
    by (simp add: subset_Diff_insert)
  have "dom (hm_get (waiting_queue pend)) \<subseteq> in_pending p" using dom by blast
  from that [OF mu pt inv2 dist sub _ S(1) this pm] us show thesis by simp
qed

lemma prune_collect_spec:
  "\<lbrakk>pool_inv p; iteration_order it; distinct (map pp_hash is); \<forall>u \<in> set is. addable p u\<rbrakk> \<Longrightarrow>
   \<exists>is' pruned' p'. prune_markers_collect it ms is pruned p = Ret (is', pruned', p') \<and> pool_inv p' \<and>
     distinct (map pp_hash is') \<and> (\<forall>u \<in> set is'. addable p' u) \<and>
     pp_hash ` set is' \<subseteq> pp_hash ` set is \<union> in_pending p \<and>
     in_ready p' \<subseteq> in_ready p \<and> in_pending p' \<subseteq> in_pending p \<and>
     provided p' \<subseteq> provided p - set ms"
proof (induction ms arbitrary: "is" pruned p)
  case (Cons m ms)
  from prune_one [OF Cons.prems(1,2), of m] obtain us pend txs rdy where
    mu: "mark_and_unlock it [m] (pending_transactions p) = Ret (us, pend)"
    and pt: "prune_tags m (ready_transactions p) = Ret (txs, rdy)"
    and inv: "pool_inv \<lparr>ready_transactions = rdy, pending_transactions = pend\<rparr>"
    and dist: "distinct (map pp_hash us)" and sub: "pp_hash ` set us \<subseteq> in_pending p"
    and us: "\<forall>u \<in> set us. addable \<lparr>ready_transactions = rdy, pending_transactions = pend\<rparr> u"
    and doms: "dom (refs (ready_tx rdy)) \<subseteq> in_ready p" "dom (hm_get (waiting_queue pend)) \<subseteq> in_pending p"
      "dom (hm_get (provided_markers rdy)) \<subseteq> provided p - {m}" .
  let ?p = "\<lparr>ready_transactions = rdy, pending_transactions = pend\<rparr>"
  have old: "\<forall>u \<in> set is. addable ?p u"
    using Cons.prems(4) doms(1,2) addable_mono [of p _ ?p] by simp
  have disj: "pp_hash ` set is \<inter> in_pending p = {}"
    using Cons.prems(4) by (auto simp: addable_def inner_contains_iff)
  have "distinct (map pp_hash (is @ us))" using Cons.prems(3) dist sub disj by auto
  moreover have "\<forall>u \<in> set (is @ us). addable ?p u" using old us by auto
  ultimately obtain is' pruned' p' where
    r: "prune_markers_collect it ms (is @ us) (pruned @ txs) ?p = Ret (is', pruned', p')" "pool_inv p'"
      "distinct (map pp_hash is')" "\<forall>u \<in> set is'. addable p' u"
    and s: "pp_hash ` set is' \<subseteq> pp_hash ` set (is @ us) \<union> in_pending ?p"
      "in_ready p' \<subseteq> in_ready ?p" "in_pending p' \<subseteq> in_pending ?p" "provided p' \<subseteq> provided ?p - set ms"
    using Cons.IH [OF inv Cons.prems(2)] by blast
  have "pp_hash ` set is' \<subseteq> pp_hash ` set is \<union> in_pending p" using s(1) doms(2) sub by simp blast
  moreover have "in_ready p' \<subseteq> in_ready p" "in_pending p' \<subseteq> in_pending p" using s(2,3) doms(1,2) by simp_all
  moreover have "provided p' \<subseteq> provided p - set (m # ms)" using s(4) doms(3) by simp blast
  ultimately show ?case using r by (simp add: mu pt)
qed auto

lemma prune_import_spec:
  "\<lbrakk>pool_inv p; iteration_order it; distinct (map pp_hash txs); \<forall>u \<in> set txs. addable p u\<rbrakk> \<Longrightarrow>
   \<exists>pro' fail' p'. prune_markers_import it txs pro fail p = Ret (pro', fail', p') \<and> pool_inv p' \<and>
     in_ready p' \<union> in_pending p' \<subseteq> in_ready p \<union> in_pending p \<union> pp_hash ` set txs"
proof (induction txs arbitrary: pro fail p)
  case (Cons tx txs)
  from Cons.prems(4) have "addable p tx" by simp
  from add_ready_transaction_spec [OF Cons.prems(1,2) this] obtain res p1 where
    a: "add_ready_transaction it tx p = Ret (res, p1)" "pool_inv p1" "add_ready_post tx p res p1" .
  then have sub: "in_ready p1 \<union> in_pending p1 \<subseteq> insert (pp_hash tx) (in_ready p \<union> in_pending p)"
    by (simp add: add_ready_post_def)
  have "pp_hash tx \<notin> pp_hash ` set txs" using Cons.prems(3) by auto
  then have "\<forall>u \<in> set txs. addable p1 u"
    using addable_shrink [OF _ sub] Cons.prems(4) by (metis image_eqI list.set_intros(2))
  note IH = Cons.IH [OF a(2) Cons.prems(2) _ this]
  from Cons.prems(3) have "distinct (map pp_hash txs)" by simp
  from IH [OF this] obtain pro' fail' p' where
    r: "prune_markers_import it txs (case res of Inr x \<Rightarrow> pro @ [x] | Inl _ \<Rightarrow> pro)
          (case res of Inr x \<Rightarrow> fail | Inl _ \<Rightarrow> fail @ [pp_hash tx]) p1 = Ret (pro', fail', p')"
      "pool_inv p'" "in_ready p' \<union> in_pending p' \<subseteq> in_ready p1 \<union> in_pending p1 \<union> pp_hash ` set txs"
    by blast
  from r(3) sub have "in_ready p' \<union> in_pending p' \<subseteq> in_ready p \<union> in_pending p \<union> pp_hash ` set (tx # txs)"
    by simp blast
  with r(1,2) show ?case by (cases res) (simp_all add: a(1))
qed auto

lemma inner_prune_markers_spec:
  assumes inv: "pool_inv p" and it: "iteration_order it"
  obtains res p' where "inner_prune_markers it ms p = Ret (res, p')" "pool_inv p'"
    "in_ready p' \<union> in_pending p' \<subseteq> in_ready p \<union> in_pending p"
proof -
  from prune_collect_spec [OF inv it, of "[]" ms "[]"] obtain is' pruned p1 where
    c: "prune_markers_collect it ms [] [] p = Ret (is', pruned, p1)" "pool_inv p1"
      "distinct (map pp_hash is')" "\<forall>u \<in> set is'. addable p1 u"
    and s: "pp_hash ` set is' \<subseteq> in_pending p" "in_ready p1 \<subseteq> in_ready p" "in_pending p1 \<subseteq> in_pending p"
    by auto
  from prune_import_spec [OF c(2) it c(3,4), of "[]" "[]"] obtain pro fail p' where
    i: "prune_markers_import it is' [] [] p1 = Ret (pro, fail, p')" "pool_inv p'"
      "in_ready p' \<union> in_pending p' \<subseteq> in_ready p1 \<union> in_pending p1 \<union> pp_hash ` set is'"
    by blast
  from i(3) s have "in_ready p' \<union> in_pending p' \<subseteq> in_ready p \<union> in_pending p" by blast
  with i(2) show thesis by (rule that [rotated]) (simp add: inner_prune_markers_def c(1) i(1))
qed

lemma on_mined_block_spec:
  assumes inv: "pool_inv p" and it: "iteration_order it"
  obtains res p' where "on_mined_block it outcome p = Ret (res, p')" "pool_inv p'"
    "in_ready p' \<union> in_pending p' \<subseteq>
       in_ready p \<union> in_pending p - pool_tx_hash ` set (mb_invalid outcome)"
proof -
  obtain removed p1 where r: "inner_remove_invalid (map pool_tx_hash (mb_invalid outcome)) p = (removed, p1)"
    by fastforce
  note R = inner_remove_invalid_spec [OF inv r]
  from inner_prune_markers_spec [OF R(1) it] obtain res p' where
    m: "inner_prune_markers it (concat (map provides (mb_included outcome))) p1 = Ret (res, p')"
      "pool_inv p'" "in_ready p' \<union> in_pending p' \<subseteq> in_ready p1 \<union> in_pending p1" .
  have "in_ready p' \<union> in_pending p' \<subseteq>
      in_ready p \<union> in_pending p - pool_tx_hash ` set (mb_invalid outcome)"
    using m(3) R(2,3,4) by (simp only: set_map) blast
  with m(2) show thesis by (rule that [rotated]) (simp add: on_mined_block_def r m(1))
qed

lemma drop_transaction_spec:
  assumes inv: "pool_inv p" and eq: "drop_transaction h p = (res, p')"
  shows "pool_inv p'" "h \<notin> in_ready p'" "in_pending p' = in_pending p"
    and "res \<noteq> None \<longleftrightarrow> h \<in> in_ready p"
    and "res = Some tx \<Longrightarrow> pool_tx_hash tx = h"
proof -
  obtain txs rdy where r: "remove_with_markers [h] None (ready_transactions p) = (txs, rdy)" by fastforce
  note R = remove_unfiltered_spec [OF pool_invD(1) [OF inv] r]
  from R(2) have sub: "ready_sub rdy (ready_transactions p)" and gone: "refs (ready_tx rdy) h = None"
    and hs: "pool_tx_hash ` set txs = in_ready p - dom (refs (ready_tx rdy))"
    by (simp_all add: removal_post_def)
  from eq r have p': "p' = p\<lparr>ready_transactions := rdy\<rparr>"
    and res: "res = find (\<lambda>t. pool_tx_hash t = h) txs"
    by (auto simp: drop_transaction_def split: if_splits)
  show "pool_inv p'" unfolding p' by (rule pool_inv_shrink_ready [OF inv R(1) sub])
  show "h \<notin> in_ready p'" using gone by (simp add: p' domIff)
  show "in_pending p' = in_pending p" by (simp add: p')
  have "res \<noteq> None \<longleftrightarrow> h \<in> pool_tx_hash ` set txs" by (auto simp: res find_None_iff)
  with hs gone show "res \<noteq> None \<longleftrightarrow> h \<in> in_ready p" by (simp add: domIff)
  show "res = Some tx \<Longrightarrow> pool_tx_hash tx = h" by (auto simp: res find_Some_iff)
qed

lemma remove_transactions_by_address_eq:
  "remove_transactions_by_address fuel it sender p =
     map_option (\<lambda>txs. inner_remove_invalid (map pool_tx_hash txs) p)
       (transactions_by_sender fuel it p sender)"
  by (simp add: remove_transactions_by_address_def inner_remove_invalid_def Let_def)

lemma remove_transactions_by_address_spec:
  assumes "pool_inv p" "remove_transactions_by_address fuel it sender p = Some (removed, p')"
  shows "pool_inv p'"
  using assms inner_remove_invalid_spec(1) [OF assms(1)]
  by (auto simp: remove_transactions_by_address_eq)

subsection \<open>Listeners\<close>

text \<open>
  One listener's turn: it is offered the hash and kept unless its channel is closed.
\<close>

definition notify_one :: "(TxHash \<Rightarrow> 'l \<Rightarrow> send_result \<times> 'l) \<Rightarrow> TxHash \<Rightarrow> 'l \<Rightarrow> 'l list" where
  "notify_one try_send h l = (case try_send h l of (res, l') \<Rightarrow> if res = SendClosed then [] else [l'])"

text \<open>
  The loop with its swaps: after the last \<open>length ls - n\<close> listeners were visited, the
  first \<open>n\<close> are untouched, and each visited one was offered the hash once.
\<close>

lemma notify_loop_mset:
  "n \<le> length ls \<Longrightarrow>
   mset (notify_loop try_send n h ls) =
     mset (concat (map (notify_one try_send h) (take n ls))) + mset (drop n ls)"
proof (induction n arbitrary: ls)
  case (Suc n)
  then have n: "n < length ls" by simp
  obtain res l where t: "try_send h (ls ! n) = (res, l)" by fastforce
  let ?ls = "if res = SendClosed then swap_remove n ls else swap_remove n ls @ [l]"
  have take: "take n ?ls = take n ls"
    using n by (auto simp: swap_remove_def take_butlast butlast_conv_take)
  have "mset (take n ?ls) + mset (drop n ?ls) = mset ?ls"
    by (simp add: union_code [symmetric] flip: mset_append)
  also have "\<dots> = mset (notify_one try_send h (ls ! n)) + (mset ls - {#ls ! n#})"
    using n by (simp add: notify_one_def t mset_swap_remove)
  also have "mset ls - {#ls ! n#} = mset (take n ls) + mset (drop (Suc n) ls)"
  proof -
    have "mset ls = mset (take n ls @ ls ! n # drop (Suc n) ls)" using n by (simp flip: id_take_nth_drop)
    then show ?thesis by simp
  qed
  finally have drop: "mset (drop n ?ls) = mset (notify_one try_send h (ls ! n)) + mset (drop (Suc n) ls)"
    by (simp add: take)
  have "n \<le> length ?ls" using n by (auto simp: length_swap_remove)
  from Suc.IH [OF this] have "mset (notify_loop try_send n h ?ls) =
      mset (concat (map (notify_one try_send h) (take n ls))) + mset (drop n ?ls)"
    by (simp only: take)
  then show ?case
    using n by (simp add: t drop take_Suc_conv_app_nth Let_def split del: if_split)
qed simp

end
