(* ===== verification/Pool_Api.thy ===== *)
theory Pool_Api
  imports Pool_Inv
begin

text \<open>
  The way transactions reach the pool, \<^verbatim>\<open>anvil/src/eth/api.rs\<close>: the markers of a
  submitted transaction, the check of its type against the hard fork and
  \<open>send_raw_transaction\<close>; then the pool as a system of states and steps, and its properties
  in every reachable state.
\<close>

subsection \<open>Markers of submitted transactions\<close>

definition required_marker :: "u64 \<Rightarrow> u64 \<Rightarrow> address \<Rightarrow> TxMarker list" where
  "required_marker provided_nonce on_chain_nonce from =
     (if provided_nonce = on_chain_nonce then []
      else
        let prev_nonce = saturating_sub provided_nonce 1
        in if on_chain_nonce \<le> prev_nonce then [to_marker prev_nonce from] else [])"

text \<open>Little-endian bytes determine the number, so markers determine nonce and sender.\<close>

lemma length_u64_to_le_bytes [simp]: "length (u64_to_le_bytes n) = 8"
  by (simp add: u64_to_le_bytes_def)

lemma u64_to_le_bytes_inj: "u64_to_le_bytes m = u64_to_le_bytes n \<Longrightarrow> m = n"
proof (rule bit_word_eqI)
  fix k
  assume eq: "u64_to_le_bytes m = u64_to_le_bytes n" and k: "k < LENGTH(64)"
  let ?i = "k div 8"
  have i: "?i < 8" using k by simp
  from eq have "u64_to_le_bytes m ! ?i = u64_to_le_bytes n ! ?i" by simp
  with i have "(ucast (drop_bit (8 * ?i) m) :: u8) = ucast (drop_bit (8 * ?i) n)"
    by (simp add: u64_to_le_bytes_def)
  then have "bit (ucast (drop_bit (8 * ?i) m) :: u8) (k mod 8) =
      bit (ucast (drop_bit (8 * ?i) n) :: u8) (k mod 8)" by simp
  then show "bit m k = bit n k"
    using k by (simp add: bit_unsigned_iff bit_drop_bit_eq)
qed

lemma to_marker_inj: "to_marker m a = to_marker n b \<longleftrightarrow> m = n \<and> a = b"
  by (auto simp: to_marker_def append_eq_append_conv dest: u64_to_le_bytes_inj)

lemma required_marker_cases:
  "required_marker n k a = [] \<or> 0 < n \<and> k < n \<and> required_marker n k a = [to_marker (n - 1) a]"
proof (cases "n = 0")
  case True
  then show ?thesis
    by (auto simp: required_marker_def Let_def saturating_sub_def)
next
  case False
  then have "0 < n" by (simp add: word_neq_0_conv)
  then have "1 \<le> n" by (simp add: word_le_nat_alt word_less_nat_alt)
  then have sub: "saturating_sub n 1 = n - 1" "unat (n - 1) = unat n - 1"
    by (simp_all add: saturating_sub_def unat_sub)
  show ?thesis
    using \<open>0 < n\<close> by (auto simp: required_marker_def Let_def sub word_le_nat_alt word_less_nat_alt)
qed

subsection \<open>Submitting through the API\<close>

text \<open>
  The numbers of the hard forks, and the backend's answers, are parameters: decoding and
  signature recovery are library code, the validation needs the state of the chain.
\<close>

record SpecIds =
  BERLIN :: u8
  LONDON :: u8
  CANCUN :: u8
  PRAGUE :: u8

datatype BlockchainError =
    EmptyRawTransactionData
  | FailedToDecodeSignedTransaction
  | SignatureError
  | EIP1559TransactionUnsupportedAtHardfork
  | EIP2930TransactionUnsupportedAtHardfork
  | EIP4844TransactionUnsupportedAtHardfork
  | EIP7702TransactionUnsupportedAtHardfork
  | DepositTransactionUnsupported
  | InvalidTransaction string
  | TxPoolError PoolError

record ApiBackend =
  spec_ids :: SpecIds
  spec_id :: u8
  is_optimism :: bool
  decode_2718 :: "bytes \<Rightarrow> TypedTransaction option"
  recover_signer :: "TypedTransaction \<Rightarrow> unit + address"
  typed_hash :: "TypedTransaction \<Rightarrow> B256"
  validate_pool_transaction :: "PendingTransaction \<Rightarrow> string option"
  current_nonce :: "address \<Rightarrow> BlockchainError + u64"

definition backend_is_eip1559 :: "ApiBackend \<Rightarrow> bool" where
  "backend_is_eip1559 b = (LONDON (spec_ids b) \<le> spec_id b)"

definition backend_is_eip2930 :: "ApiBackend \<Rightarrow> bool" where
  "backend_is_eip2930 b = (BERLIN (spec_ids b) \<le> spec_id b)"

definition backend_is_eip4844 :: "ApiBackend \<Rightarrow> bool" where
  "backend_is_eip4844 b = (CANCUN (spec_ids b) \<le> spec_id b)"

definition backend_is_eip7702 :: "ApiBackend \<Rightarrow> bool" where
  "backend_is_eip7702 b = (PRAGUE (spec_ids b) \<le> spec_id b)"

fun ensure_typed_transaction_supported :: "ApiBackend \<Rightarrow> TypedTransaction \<Rightarrow> BlockchainError + unit" where
  "ensure_typed_transaction_supported b (EIP2930 _) =
     (if backend_is_eip2930 b then Inr () else Inl EIP2930TransactionUnsupportedAtHardfork)"
| "ensure_typed_transaction_supported b (EIP1559 _) =
     (if backend_is_eip1559 b then Inr () else Inl EIP1559TransactionUnsupportedAtHardfork)"
| "ensure_typed_transaction_supported b (EIP4844 _) =
     (if backend_is_eip4844 b then Inr () else Inl EIP4844TransactionUnsupportedAtHardfork)"
| "ensure_typed_transaction_supported b (EIP7702 _) =
     (if backend_is_eip7702 b then Inr () else Inl EIP7702TransactionUnsupportedAtHardfork)"
| "ensure_typed_transaction_supported b (Deposit _) =
     (if is_optimism b then Inr () else Inl DepositTransactionUnsupported)"
| "ensure_typed_transaction_supported b (Legacy _) = Inr ()"

definition api_transaction ::
    "TransactionOrder \<Rightarrow> u64 \<Rightarrow> PendingTransaction \<Rightarrow> PoolTransaction" where
  "api_transaction order on_chain_nonce pt =
     \<lparr>pending_transaction = pt,
      requires = required_marker (pt_nonce pt) on_chain_nonce (pt_sender pt),
      provides = [to_marker (pt_nonce pt) (pt_sender pt)],
      priority = order_priority order (pt_typed pt)\<rparr>"

definition send_raw_transaction ::
    "ApiBackend \<Rightarrow> TransactionOrder \<Rightarrow> (TxHash \<Rightarrow> 'l \<Rightarrow> send_result \<times> 'l) \<Rightarrow>
     (TxHash list \<Rightarrow> TxHash list) \<Rightarrow> nat \<Rightarrow> bytes \<Rightarrow> 'l Pool \<Rightarrow>
     ((BlockchainError + TxHash) \<times> 'l Pool) rust" where
  "send_raw_transaction b order try_send it now data pool =
     (if data = [] then Ret (Inl EmptyRawTransactionData, pool)
      else case decode_2718 b data of
        None \<Rightarrow> Ret (Inl FailedToDecodeSignedTransaction, pool)
      | Some transaction \<Rightarrow>
          (case ensure_typed_transaction_supported b transaction of
             Inl e \<Rightarrow> Ret (Inl e, pool)
           | Inr _ \<Rightarrow>
               (case PendingTransaction_new (recover_signer b) (typed_hash b) transaction of
                  Inl _ \<Rightarrow> Ret (Inl SignatureError, pool)
                | Inr pt \<Rightarrow>
                    (case validate_pool_transaction b pt of
                       Some e \<Rightarrow> Ret (Inl (InvalidTransaction e), pool)
                     | None \<Rightarrow>
                         (case current_nonce b (pt_sender pt) of
                            Inl e \<Rightarrow> Ret (Inl e, pool)
                          | Inr on_chain_nonce \<Rightarrow>
                              rbind (pool_add_transaction try_send it now
                                       (api_transaction order on_chain_nonce pt) pool)
                                (\<lambda>(res, pool').
                                  case res of
                                    Inl e \<Rightarrow> Ret (Inl (TxPoolError e), pool')
                                  | Inr added \<Rightarrow> Ret (Inr (added_hash added), pool')))))))"

lemma tx_ok_api: "tx_ok (api_transaction order k pt)"
proof -
  have "n - 1 \<noteq> n" if "0 < n" for n :: u64 by simp
  then show ?thesis
    using required_marker_cases [of "pt_nonce pt" k "pt_sender pt"]
    by (auto simp: tx_ok_def api_transaction_def to_marker_inj)
qed

subsection \<open>The pool as a system\<close>

text \<open>
  The states of the pool change by a submission through the API, a mined block, a removal
  or a dropped transaction, with any iteration order of its hash tables.
\<close>

inductive pool_step :: "PoolInner \<Rightarrow> PoolInner \<Rightarrow> bool" where
  submit: "iteration_order it \<Longrightarrow>
    inner_add_transaction it now (api_transaction order k pt) p = Ret (res, p') \<Longrightarrow> pool_step p p'"
| mined: "iteration_order it \<Longrightarrow> on_mined_block it outcome p = Ret (pruned, p') \<Longrightarrow> pool_step p p'"
| remove_invalid: "inner_remove_invalid hs p = (removed, p') \<Longrightarrow> pool_step p p'"
| remove_address: "remove_transactions_by_address fuel it sender p = Some (removed, p') \<Longrightarrow> pool_step p p'"
| dropped: "drop_transaction h p = (found, p') \<Longrightarrow> pool_step p p'"
| cleared: "pool_step p (inner_clear p)"

abbreviation pool_init :: "PoolInner \<Rightarrow> bool" where
  "pool_init p \<equiv> p = pool_default"

lemma pool_step_inv: "pool_step p p' \<Longrightarrow> pool_inv p \<Longrightarrow> pool_inv p'"
proof (induction rule: pool_step.induct)
  case (submit it now order k pt p res p')
  from inner_add_transaction_spec [OF submit(3,1) tx_ok_api] submit(2) show ?case
    by (metis prod.inject rust.inject(1))
next
  case (mined it outcome p pruned p')
  from on_mined_block_spec [OF mined(3,1)] mined(2) show ?case
    by (metis prod.inject rust.inject(1))
qed (auto dest: inner_remove_invalid_spec(1) remove_transactions_by_address_spec drop_transaction_spec(1)
       intro: pool_inv_clear)

interpretation txpool_system: invariant_system pool_init pool_step pool_inv
  by unfold_locales (auto intro: pool_inv_default pool_step_inv)

subsection \<open>Properties\<close>

lemmas reachable_pool = txpool_system.reachable_inv [OF refl]

text \<open>A sample transaction of a sender, for the concrete instances below.\<close>

definition sample_pending :: "u64 \<Rightarrow> u128 \<Rightarrow> B256 \<Rightarrow> PendingTransaction" where
  "sample_pending nonce price hash =
     \<lparr>pt_transaction =
        \<lparr>mi_transaction = Legacy
           \<lparr>sg_tx = \<lparr>l_chain_id = None, l_nonce = nonce, l_gas_price = price, l_gas_limit = 21000,
                     l_to = Call (replicate 20 1), l_value = 0, l_input = []\<rparr>,
            sg_signature = [], sg_hash = hash\<rparr>,
         mi_impersonated_sender = None\<rparr>,
      pt_sender = replicate 20 7, pt_hash = hash\<rparr>"

definition sample_tx :: "u64 \<Rightarrow> u128 \<Rightarrow> B256 \<Rightarrow> PoolTransaction" where
  "sample_tx nonce price hash = api_transaction Fees 0 (sample_pending nonce price hash)"

definition after_submits :: "(u64 \<times> u128 \<times> B256) list \<Rightarrow> PoolInner" where
  "after_submits xs =
     fold (\<lambda>(n, g, h) p. case inner_add_transaction id 0 (sample_tx n g h) p of
             Ret (_, p') \<Rightarrow> p' | Panic _ \<Rightarrow> p)
       xs pool_default"

lemma after_submits_reachable:
  "pool_step\<^sup>*\<^sup>* pool_default (after_submits xs)"
proof (induction xs rule: rev_induct)
  case Nil
  then show ?case by (simp add: after_submits_def)
next
  case (snoc x xs)
  obtain n g h where x: "x = (n, g, h)" by (cases x)
  let ?p = "after_submits xs"
  show ?case
  proof (cases "inner_add_transaction id 0 (sample_tx n g h) ?p")
    case (Ret rp)
    obtain res p' where "rp = (res, p')" by (cases rp)
    with Ret have "pool_step ?p p'"
      unfolding sample_tx_def by (intro pool_step.submit [of id]) auto
    with snoc Ret \<open>rp = _\<close> x show ?thesis by (simp add: after_submits_def)
  next
    case (Panic e)
    with snoc x show ?thesis by (simp add: after_submits_def)
  qed
qed

text \<open>
  C1: In every state the pool can reach, submitting a transaction through the API and
  handling a mined block return: none of the assertions, \<^verbatim>\<open>expect\<close> calls and index
  accesses on the way fails, for every iteration order of the hash tables.
\<close>

theorem pool_never_panics:
  assumes "pool_step\<^sup>*\<^sup>* pool_default p" "iteration_order it"
  shows "(\<exists>res p'. inner_add_transaction it now (api_transaction order k pt) p = Ret (res, p')) \<and>
         (\<exists>res p'. on_mined_block it outcome p = Ret (res, p'))"
  using inner_add_transaction_spec [OF reachable_pool [OF assms(1)] assms(2) tx_ok_api]
    on_mined_block_spec [OF reachable_pool [OF assms(1)] assms(2)]
  by metis

theorem pool_never_panics_witness:
  "pool_step\<^sup>*\<^sup>* pool_default (after_submits [(1, 5, 11), (0, 5, 10)]) \<and>
   iteration_order rev \<and>
   (\<exists>res p'. on_mined_block rev \<lparr>mb_block_number = 1, mb_included = [sample_tx 0 5 10], mb_invalid = []\<rparr>
      (after_submits [(1, 5, 11), (0, 5, 10)]) = Ret (res, p'))"
  using pool_never_panics [OF after_submits_reachable [of "[(1, 5, 11), (0, 5, 10)]"] iteration_order_rev]
    after_submits_reachable [of "[(1, 5, 11), (0, 5, 10)]"] iteration_order_rev
  by blast

text \<open>
  C14: In every reachable state the index of provided markers is exact: a marker is mapped
  to a hash if and only if the ready transaction with this hash provides it; no
  transaction is both ready and pending, and no pending one misses a provided marker.
\<close>

theorem pool_index_exact:
  assumes "pool_step\<^sup>*\<^sup>* pool_default p"
  shows "(hm_get (provided_markers (ready_transactions p)) m = Some h \<longleftrightarrow>
           (\<exists>t. ready_get (ready_transactions p) h = Some t \<and> m \<in> set (rt_provides t))) \<and>
         \<not> (ready_contains (ready_transactions p) h' \<and> pending_contains (pending_transactions p) h') \<and>
         (pending_get (pending_transactions p) h' = Some w \<longrightarrow>
           (\<forall>x \<in> set (missing_markers w). hm_get (provided_markers (ready_transactions p)) x = None))"
proof -
  note inv = reachable_pool [OF assms] note D = pool_invD [OF inv]
  have "hm_get (provided_markers (ready_transactions p)) m = Some h \<longleftrightarrow>
      (\<exists>t. ready_get (ready_transactions p) h = Some t \<and> m \<in> set (rt_provides t))"
    using ready_invD(4,5) [OF D(1)]
    by (fastforce simp: ready_get_def rt_provides_def rt_pool_tx_def refs_def)
  moreover have "\<not> (ready_contains (ready_transactions p) h' \<and>
      pending_contains (pending_transactions p) h')"
  proof
    assume "ready_contains (ready_transactions p) h' \<and> pending_contains (pending_transactions p) h'"
    then have "h' \<in> in_ready p \<inter> in_pending p"
      by (auto simp: ready_contains_iff pending_contains_def hm_contains_def)
    with D(3) show False by simp
  qed
  moreover have "hm_get (provided_markers (ready_transactions p)) x = None"
    if "pending_get (pending_transactions p) h' = Some w" "x \<in> set (missing_markers w)" for x
  proof -
    from that have "x \<in> misses (pending_transactions p) h'" by (simp add: misses_def pending_get_def)
    with D(4) [of h'] have "x \<notin> provided p" by blast
    then show ?thesis by (simp add: domIff)
  qed
  ultimately show ?thesis by blast
qed

theorem pool_index_exact_witness:
  "pool_step\<^sup>*\<^sup>* pool_default (after_submits [(0, 5, 10), (2, 5, 12)]) \<and>
   hm_get (provided_markers (ready_transactions (after_submits [(0, 5, 10), (2, 5, 12)])))
     (to_marker 0 (replicate 20 7)) = Some 10 \<and>
   (\<exists>t. ready_get (ready_transactions (after_submits [(0, 5, 10), (2, 5, 12)])) 10 = Some t \<and>
      to_marker 0 (replicate 20 7) \<in> set (rt_provides t))"
proof -
  have "hm_get (provided_markers (ready_transactions (after_submits [(0, 5, 10), (2, 5, 12)])))
     (to_marker 0 (replicate 20 7)) = Some 10" by code_simp
  with pool_index_exact [OF after_submits_reachable [of "[(0, 5, 10), (2, 5, 12)]"]]
    after_submits_reachable [of "[(0, 5, 10), (2, 5, 12)]"]
  show ?thesis by blast
qed

lemma reachable_add:
  assumes "pool_step\<^sup>*\<^sup>* pool_default p" "iteration_order it"
    and "inner_add_transaction it now (api_transaction order k pt) p = Ret (res, p')"
  shows "add_post (api_transaction order k pt) p res p'"
  using inner_add_transaction_spec [OF reachable_pool [OF assms(1)] assms(2) tx_ok_api] assms(3)
  by (metis prod.inject rust.inject(1))

text \<open>
  C6: A submission that succeeds reports the hash of the transaction, the pool contains it,
  and nothing is lost silently: each transaction that was in the pool is still there, or the
  result lists it as replaced or discarded.
\<close>

theorem submit_accounts_for_all:
  assumes "pool_step\<^sup>*\<^sup>* pool_default p" "iteration_order it"
    and "inner_add_transaction it now (api_transaction order k pt) p = Ret (Inr added, p')"
  shows "added_hash added = pt_hash pt \<and> inner_contains p' (pt_hash pt) \<and>
    (\<forall>h. inner_contains p h \<longrightarrow> inner_contains p' h \<or>
       (\<exists>a. added = AddedReadyTx a \<and> h \<in> pool_tx_hash ` set (ar_removed a) \<union> set (ar_discarded a)))"
proof -
  have h: "pool_tx_hash (api_transaction order k pt) = pt_hash pt"
    by (simp add: pool_tx_hash_def api_transaction_def)
  show ?thesis
  proof (cases added)
    case (AddedReadyTx a)
    with reachable_add [OF assms] have a: "ar_hash a = pt_hash pt" "pt_hash pt \<in> in_ready p'"
      and q: "queue_post {pt_hash pt} p (AddedReady_new (pt_hash pt)) a p'"
      by (simp_all add: add_post_def h)
    from queue_postD(5,6) [OF q] have "h' \<in> in_ready p \<union> in_pending p \<Longrightarrow>
        h' \<in> in_ready p' \<union> in_pending p' \<union> (pool_tx_hash ` set (ar_removed a) \<union> set (ar_discarded a))" for h'
      by blast
    with a AddedReadyTx show ?thesis unfolding inner_contains_iff by (simp only: added_hash.simps) blast
  next
    case (AddedPending x)
    with reachable_add [OF assms] show ?thesis
      unfolding inner_contains_iff by (simp add: add_post_def h)
  qed
qed

theorem submit_accounts_for_all_witness:
  "pool_step\<^sup>*\<^sup>* pool_default (after_submits [(1, 5, 11)]) \<and>
   (\<exists>added p'. inner_add_transaction id 0 (api_transaction Fees 0 (sample_pending 0 5 10))
        (after_submits [(1, 5, 11)]) = Ret (Inr added, p') \<and>
      added_hash added = 10 \<and> inner_contains p' 10)"
proof -
  let ?p = "after_submits [(1, 5, 11)]"
  let ?r = "inner_add_transaction id 0 (api_transaction Fees 0 (sample_pending 0 5 10)) ?p"
  have "(case ?r of Ret (Inr _, _) \<Rightarrow> True | _ \<Rightarrow> False)" by code_simp
  then obtain added p' where r: "?r = Ret (Inr added, p')" by (auto split: rust.splits sum.splits)
  have "pt_hash (sample_pending 0 5 10) = 10" by (simp add: sample_pending_def)
  with submit_accounts_for_all [OF after_submits_reachable iteration_order_id(1) r] r
    after_submits_reachable [of "[(1, 5, 11)]"]
  show ?thesis by auto
qed

text \<open>
  C16: A submission that fails with anything but the cyclic-transaction error leaves the
  pool exactly as it was, although the markers of the transaction are checked off in the
  pending queue before the replacement rule rejects it.
\<close>

theorem submit_error_unchanged:
  assumes "pool_step\<^sup>*\<^sup>* pool_default p" "iteration_order it"
    and "inner_add_transaction it now (api_transaction order k pt) p = Ret (Inl e, p')"
    and "e \<noteq> CyclicTransaction"
  shows "p' = p"
  using reachable_add [OF assms(1-3)] assms(4) by (simp add: add_post_def)

theorem submit_error_unchanged_witness:
  "pool_step\<^sup>*\<^sup>* pool_default (after_submits [(0, 5, 10)]) \<and>
   (\<exists>e. inner_add_transaction id 0 (api_transaction Fees 0 (sample_pending 0 4 20))
        (after_submits [(0, 5, 10)]) = Ret (Inl e, after_submits [(0, 5, 10)]))"
proof -
  let ?p = "after_submits [(0, 5, 10)]"
  let ?r = "inner_add_transaction id 0 (api_transaction Fees 0 (sample_pending 0 4 20)) ?p"
  have "(case ?r of Ret (Inl e, _) \<Rightarrow> e \<noteq> CyclicTransaction | _ \<Rightarrow> False)" by code_simp
  then obtain e p' where r: "?r = Ret (Inl e, p')" "e \<noteq> CyclicTransaction"
    by (auto split: rust.splits sum.splits)
  with submit_error_unchanged [OF after_submits_reachable iteration_order_id(1) r]
    after_submits_reachable [of "[(0, 5, 10)]"]
  show ?thesis by auto
qed

text \<open>
  C18: Handling a mined block returns, keeps the index of the pool exact, leaves none of the
  block's invalid transactions in the pool, and adds nothing.
\<close>

theorem mined_block_cleans_pool:
  assumes "pool_step\<^sup>*\<^sup>* pool_default p" "iteration_order it"
  shows "\<exists>res p'. on_mined_block it outcome p = Ret (res, p') \<and> pool_inv p' \<and>
    (\<forall>h. inner_contains p' h \<longrightarrow> inner_contains p h \<and> h \<notin> pool_tx_hash ` set (mb_invalid outcome))"
proof -
  from on_mined_block_spec [OF reachable_pool [OF assms(1)] assms(2), of outcome]
  obtain res p' where r: "on_mined_block it outcome p = Ret (res, p')" "pool_inv p'"
    "in_ready p' \<union> in_pending p' \<subseteq>
       in_ready p \<union> in_pending p - pool_tx_hash ` set (mb_invalid outcome)" .
  then show ?thesis unfolding inner_contains_iff by blast
qed

theorem mined_block_cleans_pool_witness:
  "pool_step\<^sup>*\<^sup>* pool_default (after_submits [(0, 5, 10), (1, 6, 11)]) \<and> iteration_order rev \<and>
   inner_contains (after_submits [(0, 5, 10), (1, 6, 11)]) 11 \<and>
   (\<exists>res p'. on_mined_block rev
        \<lparr>mb_block_number = 1, mb_included = [sample_tx 0 5 10], mb_invalid = [sample_tx 1 6 11]\<rparr>
        (after_submits [(0, 5, 10), (1, 6, 11)]) = Ret (res, p') \<and> \<not> inner_contains p' 11)"
proof -
  let ?p = "after_submits [(0, 5, 10), (1, 6, 11)]"
  have h: "pool_tx_hash (sample_tx 1 6 11) = 11"
    by (simp add: pool_tx_hash_def sample_tx_def api_transaction_def sample_pending_def)
  have "inner_contains ?p 11" by code_simp
  with mined_block_cleans_pool [OF after_submits_reachable iteration_order_rev,
      of "\<lparr>mb_block_number = 1, mb_included = [sample_tx 0 5 10], mb_invalid = [sample_tx 1 6 11]\<rparr>"
         "[(0, 5, 10), (1, 6, 11)]"]
    after_submits_reachable [of "[(0, 5, 10), (1, 6, 11)]"] h
  show ?thesis by (simp only: MinedBlockOutcome.simps list.set image_insert) auto
qed

text \<open>
  C33: Checking markers off the pending queue returns and unlocks exactly the transactions
  whose missing markers are all given, each once; the others stay and miss the rest.
\<close>

theorem mark_and_unlock_exact:
  assumes "pool_step\<^sup>*\<^sup>* pool_default p" "iteration_order it"
  shows "\<exists>us q. mark_and_unlock it ms (pending_transactions p) = Ret (us, q) \<and>
    distinct (map pp_hash us) \<and>
    pp_hash ` set us = {h. \<exists>w. pending_get (pending_transactions p) h = Some w \<and>
                           set (missing_markers w) \<subseteq> set ms} \<and>
    (\<forall>h w'. pending_get q h = Some w' \<longrightarrow>
      (\<exists>w. pending_get (pending_transactions p) h = Some w \<and>
         set (missing_markers w') = set (missing_markers w) - set ms))"
proof -
  note inv = pool_invD(2) [OF reachable_pool [OF assms(1)]]
  from mark_and_unlock_spec [OF inv assms(2), of ms] obtain us q where
    r: "mark_and_unlock it ms (pending_transactions p) = Ret (us, q)"
    and post: "unlock_post (set ms) (pending_transactions p) us q" by blast
  note U = unlock_postD [OF post]
  have "pp_hash ` set us = {h. \<exists>w. pending_get (pending_transactions p) h = Some w \<and>
                           set (missing_markers w) \<subseteq> set ms}"
    unfolding U(3) by (auto simp: misses_def pending_get_def)
  moreover have "\<exists>w. pending_get (pending_transactions p) h = Some w \<and>
         set (missing_markers w') = set (missing_markers w) - set ms"
    if "pending_get q h = Some w'" for h w'
    using U(6) [of h w'] U(1) [of h] that by (auto simp: misses_def pending_get_def)
  ultimately show ?thesis using r U(2) by blast
qed

theorem mark_and_unlock_exact_witness:
  "pool_step\<^sup>*\<^sup>* pool_default (after_submits [(1, 5, 11), (2, 5, 12)]) \<and> iteration_order rev \<and>
   (\<exists>us q. mark_and_unlock rev [to_marker 0 (replicate 20 7)]
        (pending_transactions (after_submits [(1, 5, 11), (2, 5, 12)])) = Ret (us, q) \<and>
      distinct (map pp_hash us))"
  using mark_and_unlock_exact [OF after_submits_reachable [of "[(1, 5, 11), (2, 5, 12)]"] iteration_order_rev]
    after_submits_reachable [of "[(1, 5, 11), (2, 5, 12)]"] iteration_order_rev
  by blast

lemma replaced_check_Inl_iff:
  "replaced_check tx ready hs ul = Inl (ReplacementUnderpriced tx) \<longleftrightarrow>
   (\<exists>h \<in> set hs. \<exists>t. hm_get ready h = Some t \<and> rt_provides t = provides tx \<and>
      pool_tx_gas_price tx \<le> rt_gas_price t)"
  by (induction tx ready hs ul rule: replaced_check.induct) (auto split: option.splits)

lemma replaced_check_total:
  "replaced_check tx ready hs ul \<noteq> Inl (ReplacementUnderpriced tx) \<Longrightarrow>
   \<exists>us. replaced_check tx ready hs ul = Inr us"
  by (induction tx ready hs ul rule: replaced_check.induct) (auto split: option.splits if_splits)

text \<open>
  C32: The replacement rule. A ready transaction is rejected as underpriced if and only if
  a ready transaction that provides exactly the same markers pays at least as much.
\<close>

theorem replacement_underpriced_iff:
  assumes "pool_step\<^sup>*\<^sup>* pool_default p" "iteration_order it"
    and "is_ready tx" "\<not> ready_contains (ready_transactions p) (pp_hash tx)"
    and "tx_ok (pp_transaction tx)"
  shows "(\<exists>r'. ready_add_transaction it tx (ready_transactions p) =
            Ret (Inl (ReplacementUnderpriced (pp_transaction tx)), r')) \<longleftrightarrow>
         (\<exists>h t. ready_get (ready_transactions p) h = Some t \<and> provides (pp_transaction tx) \<noteq> [] \<and>
            rt_provides t = provides (pp_transaction tx) \<and>
            pool_tx_gas_price (pp_transaction tx) \<le> rt_gas_price t)"
    (is "?l \<longleftrightarrow> ?r")
proof -
  let ?tx = "pp_transaction tx" and ?rd = "ready_transactions p"
  define hs where "hs = it (remdups (List.map_filter (hm_get (provided_markers ?rd)) (provides ?tx)))"
  have hs: "h \<in> set hs \<longleftrightarrow> (\<exists>m \<in> set (provides ?tx). hm_get (provided_markers ?rd) m = Some h)" for h
    unfolding hs_def by (force simp: iteration_order_set [OF assms(2)] map_filter_def)
  have nc: "\<not> hm_contains (ready_tx ?rd) (pp_hash tx)" using assms(4) by (simp add: ready_contains_def)
  obtain res r1 where rt: "replaced_transactions it ?tx ?rd = (res, r1)" by fastforce
  have "?l \<longleftrightarrow> res = Inl (ReplacementUnderpriced ?tx)"
    using assms(3) nc
    by (cases res) (auto simp: ready_add_transaction_def rassert_def rt rbind_Ret_iff Let_def
          split: prod.splits)
  also have "\<dots> \<longleftrightarrow> replaced_check ?tx (ready_tx ?rd) hs [] = Inl (ReplacementUnderpriced ?tx)"
    using rt [unfolded replaced_transactions_def Let_def, folded hs_def] replaced_check_total [of ?tx "ready_tx ?rd" hs "[]"]
    by (cases "hs = []") (auto split: sum.splits prod.splits)
  also have "\<dots> \<longleftrightarrow> ?r"
  proof -
    note D = pool_invD(1) [OF reachable_pool [OF assms(1)]]
    have "h \<in> set hs" if "ready_get ?rd h = Some t" "provides ?tx \<noteq> []" "rt_provides t = provides ?tx" for h t
    proof -
      from that(2) have m: "hd (provides ?tx) \<in> set (provides ?tx)" by simp
      with that ready_invD(4) [OF D refs_Some, of h t] have
        "hm_get (provided_markers ?rd) (hd (provides ?tx)) = Some h"
        by (simp add: ready_get_def rt_provides_def rt_pool_tx_def)
      with m show ?thesis unfolding hs by blast
    qed
    moreover have "provides ?tx \<noteq> []" if "h \<in> set hs" for h using that unfolding hs by auto
    ultimately show ?thesis unfolding replaced_check_Inl_iff ready_get_def by blast
  qed
  finally show ?thesis .
qed

theorem replacement_underpriced_iff_witness:
  "pool_step\<^sup>*\<^sup>* pool_default (after_submits [(0, 5, 10)]) \<and>
   (\<exists>r'. ready_add_transaction id \<lparr>pp_transaction = sample_tx 0 5 20, missing_markers = [], added_at = 0\<rparr>
            (ready_transactions (after_submits [(0, 5, 10)])) =
          Ret (Inl (ReplacementUnderpriced (sample_tx 0 5 20)), r'))"
proof -
  let ?tx = "\<lparr>pp_transaction = sample_tx 0 5 20, missing_markers = [], added_at = 0\<rparr>"
  let ?r = "ready_transactions (after_submits [(0, 5, 10)])"
  have "is_ready ?tx" "\<not> ready_contains ?r (pp_hash ?tx)" "tx_ok (pp_transaction ?tx)"
    by code_simp+
  note T = replacement_underpriced_iff [OF after_submits_reachable iteration_order_id(1) this]
  have "case ready_get ?r 10 of None \<Rightarrow> False | Some t \<Rightarrow> provides (sample_tx 0 5 20) \<noteq> [] \<and>
      rt_provides t = provides (sample_tx 0 5 20) \<and> pool_tx_gas_price (sample_tx 0 5 20) \<le> rt_gas_price t"
    by code_simp
  then have "\<exists>h t. ready_get ?r h = Some t \<and> provides (pp_transaction ?tx) \<noteq> [] \<and>
      rt_provides t = provides (pp_transaction ?tx) \<and> pool_tx_gas_price (pp_transaction ?tx) \<le> rt_gas_price t"
    by (auto split: option.splits)
  with T after_submits_reachable [of "[(0, 5, 10)]"] show ?thesis by simp
qed

text \<open>
  Dropping a transaction returns it if and only if it was ready, and afterwards it is
  not; the pending queue is not searched.
\<close>

theorem drop_transaction_result:
  assumes "pool_step\<^sup>*\<^sup>* pool_default p" "drop_transaction h p = (res, p')"
  shows "(res \<noteq> None \<longleftrightarrow> ready_contains (ready_transactions p) h) \<and>
    (\<forall>tx. res = Some tx \<longrightarrow> pool_tx_hash tx = h) \<and>
    \<not> ready_contains (ready_transactions p') h \<and>
    (inner_contains p' h \<longleftrightarrow> pending_contains (pending_transactions p) h)"
proof -
  note D = drop_transaction_spec [OF reachable_pool [OF assms(1)] assms(2)]
  have "inner_contains p' h \<longleftrightarrow> h \<in> in_pending p" using D(2,3) by (simp add: inner_contains_iff)
  moreover have "pending_contains (pending_transactions p) h \<longleftrightarrow> h \<in> in_pending p"
    by (simp add: pending_contains_def hm_contains_def domIff)
  moreover have "res \<noteq> None \<longleftrightarrow> ready_contains (ready_transactions p) h"
    using D(4) unfolding ready_contains_iff .
  moreover have "\<not> ready_contains (ready_transactions p') h" using D(2) unfolding ready_contains_iff .
  ultimately show ?thesis using D(5) by blast
qed

theorem drop_transaction_result_witness:
  "pool_step\<^sup>*\<^sup>* pool_default (after_submits [(0, 5, 10)]) \<and>
   ready_contains (ready_transactions (after_submits [(0, 5, 10)])) 10 \<and>
   (\<exists>tx p'. drop_transaction 10 (after_submits [(0, 5, 10)]) = (Some tx, p') \<and> pool_tx_hash tx = 10)"
proof -
  let ?p = "after_submits [(0, 5, 10)]"
  have c: "ready_contains (ready_transactions ?p) 10" by code_simp
  obtain res p' where r: "drop_transaction 10 ?p = (res, p')" by fastforce
  with drop_transaction_result [OF after_submits_reachable r] c
    after_submits_reachable [of "[(0, 5, 10)]"]
  show ?thesis by blast
qed

text \<open>
  C35: Telling the listeners about a hash: the loop with its swaps offers the hash to every
  listener exactly once and keeps exactly those whose channel is not closed.
\<close>

theorem notify_listener_each_once:
  "mset (transaction_listener (notify_listener try_send h p)) =
   mset (concat (map (notify_one try_send h) (transaction_listener p)))"
  by (simp add: notify_listener_def notify_loop_mset)

text \<open>
  The required markers of a submitted transaction never meet its provided ones, so the
  API's \<^verbatim>\<open>debug_assert\<close> holds and no transaction waits for itself; markers of
  different senders or nonces differ.
\<close>

theorem api_markers_disjoint:
  "set (requires (api_transaction order k pt)) \<inter> set (provides (api_transaction order k pt)) = {} \<and>
   requires (api_transaction order k pt) \<noteq> provides (api_transaction order k pt) \<and>
   (to_marker m a = to_marker n b \<longleftrightarrow> m = n \<and> a = b)"
  using tx_ok_api [of order k pt] by (auto simp: tx_ok_def to_marker_inj api_transaction_def)

lemma notify_listener_inner [simp]: "pool_inner (notify_listener try_send h p) = pool_inner p"
  by (simp add: notify_listener_def)

lemma notify_fold_inner [simp]: "pool_inner (fold (notify_listener try_send) hs p) = pool_inner p"
  by (induction hs arbitrary: p) simp_all

lemma pool_add_transaction_result:
  assumes "pool_step\<^sup>*\<^sup>* pool_default (pool_inner pool)" "iteration_order it"
  obtains
    (failed) e pool' where
      "pool_add_transaction try_send it now (api_transaction order k pt) pool = Ret (Inl e, pool')"
      "e = CyclicTransaction \<or> pool' = pool"
  | (added) a pool' where
      "pool_add_transaction try_send it now (api_transaction order k pt) pool = Ret (Inr a, pool')"
      "added_hash a = pt_hash pt" "inner_contains (pool_inner pool') (pt_hash pt)"
proof -
  from inner_add_transaction_spec [OF reachable_pool [OF assms(1)] assms(2) tx_ok_api]
  obtain res p' where r: "inner_add_transaction it now (api_transaction order k pt) (pool_inner pool) = Ret (res, p')"
    and post: "add_post (api_transaction order k pt) (pool_inner pool) res p'" .
  have h: "pool_tx_hash (api_transaction order k pt) = pt_hash pt"
    by (simp add: pool_tx_hash_def api_transaction_def)
  show thesis
  proof (cases res)
    case (Inl e)
    with post have "e = CyclicTransaction \<or> pool\<lparr>pool_inner := p'\<rparr> = pool" by (auto simp: add_post_def)
    with r Inl show thesis by (intro failed) (auto simp: pool_add_transaction_def Let_def)
  next
    case (Inr a)
    with post have "added_hash a = pt_hash pt" "inner_contains p' (pt_hash pt)"
      unfolding inner_contains_iff by (cases a; simp add: add_post_def h)+
    with r Inr show thesis
      by (cases a; intro added) (auto simp: pool_add_transaction_def Let_def)
  qed
qed



end
