(* ===== verification/Pool_Order.thy ===== *)
theory Pool_Order
  imports Pool_Api
begin

text \<open>
  Running the iterator over the ready transactions to its end
  (\<^verbatim>\<open>ready_transactions().collect()\<close>, \<^verbatim>\<open>anvil/src/eth/pool\<close>). The iterator puts the
  transactions that a taken one unlocks back into its queue, so it ends only if the
  unlocking links have no cycle. Transactions submitted through the API are linked from a
  nonce to a greater one: this is an invariant of all operations of the pool, as long as a
  hash determines sender and nonce.
\<close>

subsection \<open>Links that increase a rank\<close>

definition entry_ranked :: "(PoolTransaction \<Rightarrow> bool) \<Rightarrow> (TxHash \<Rightarrow> nat) \<Rightarrow> TxHash \<Rightarrow> ReadyTransaction \<Rightarrow> bool" where
  "entry_ranked good rank h t =
     (ref_hash (rt_transaction t) = h \<and> good (rt_pool_tx t) \<and> (\<forall>k \<in> set (unlocks t). rank h < rank k))"

definition links_ranked ::
    "(PoolTransaction \<Rightarrow> bool) \<Rightarrow> (TxHash \<Rightarrow> nat) \<Rightarrow> (TxHash, ReadyTransaction) hmap \<Rightarrow> bool" where
  "links_ranked good rank ready = (\<forall>h t. hm_get ready h = Some t \<longrightarrow> entry_ranked good rank h t)"

lemma links_rankedD: "links_ranked good rank ready \<Longrightarrow> hm_get ready h = Some t \<Longrightarrow> entry_ranked good rank h t"
  by (simp add: links_ranked_def)

lemma links_ranked_insert:
  "links_ranked good rank ready \<Longrightarrow> entry_ranked good rank h t \<Longrightarrow> links_ranked good rank (hm_insert h t ready)"
  by (simp add: links_ranked_def hm_simps)

lemma links_ranked_remove: "links_ranked good rank ready \<Longrightarrow> links_ranked good rank (hm_remove h ready)"
  by (simp add: links_ranked_def hm_simps)

lemma entry_ranked_fewer:
  "entry_ranked good rank h t \<Longrightarrow> rt_transaction t' = rt_transaction t \<Longrightarrow> set (unlocks t') \<subseteq> set (unlocks t) \<Longrightarrow>
   entry_ranked good rank h t'"
  by (auto simp: entry_ranked_def rt_pool_tx_def)

lemma unlocks_swap_remove:
  "position P (unlocks t) = Some i \<Longrightarrow> set (swap_remove i (unlocks t)) \<subseteq> set (unlocks t)"
  by (intro set_swap_remove_subset) (auto dest: position_Some_less)

lemma entry_ranked_swap_remove:
  "entry_ranked good rank h t \<Longrightarrow> position P (unlocks t) = Some i \<Longrightarrow>
   entry_ranked good rank h (t\<lparr>unlocks := swap_remove i (unlocks t)\<rparr>)"
  by (rule entry_ranked_fewer [OF _ _ ord_eq_le_trans [OF _ unlocks_swap_remove]]) simp_all

lemma links_ranked_remove_unlock:
  "links_ranked good rank ready \<Longrightarrow> links_ranked good rank (remove_unlock pm m ready)"
  by (auto simp: remove_unlock_def split: option.splits
      intro!: links_ranked_insert entry_ranked_swap_remove dest: links_rankedD)

lemma links_ranked_fold_remove_unlock:
  "links_ranked good rank ready \<Longrightarrow> links_ranked good rank (fold (remove_unlock pm) ms ready)"
  by (induction ms arbitrary: ready) (auto intro: links_ranked_remove_unlock)

lemma links_ranked_prune_previous:
  "links_ranked good rank ready \<Longrightarrow> links_ranked good rank (fst (prune_previous hash pm ms ready remove))"
proof (induction hash pm ms ready remove rule: prune_previous.induct)
  case (2 hash pm m ms ready remove)
  show ?case
  proof (cases "hm_get pm m")
    case None
    with 2 show ?thesis by simp
  next
    case (Some prev)
    show ?thesis
    proof (cases "hm_get ready prev")
      case None
      with 2 Some show ?thesis by simp
    next
      case (Some tx2)
      let ?tx = "case position (\<lambda>i. i = hash) (unlocks tx2) of
          Some idx \<Rightarrow> tx2\<lparr>unlocks := swap_remove idx (unlocks tx2)\<rparr> | None \<Rightarrow> tx2"
      have "entry_ranked good rank prev ?tx"
        using links_rankedD [OF "2.prems" Some]
        by (auto split: option.splits intro: entry_ranked_swap_remove)
      then have "links_ranked good rank (hm_insert prev ?tx ready)"
        using "2.prems" by (rule links_ranked_insert [rotated])
      then show ?thesis
        using "2.IH"(3) [OF \<open>hm_get pm m = Some prev\<close> Some refl] \<open>hm_get pm m = Some prev\<close> Some
        by (simp add: Let_def)
    qed
  qed
qed simp

lemma links_ranked_prune_unlocked:
  "links_ranked good rank ready \<Longrightarrow> links_ranked good rank (fst (prune_unlocked hs ready ind))"
proof (induction hs ready ind rule: prune_unlocked.induct)
  case (2 h hs ready ind)
  show ?case
  proof (cases "hm_get ready h")
    case None
    with 2 show ?thesis by simp
  next
    case (Some tx)
    have tx: "entry_ranked good rank h (tx\<lparr>requires_offset := requires_offset tx + 1\<rparr>)"
      using links_rankedD [OF "2.prems" Some] by (rule entry_ranked_fewer) simp_all
    show ?thesis
      using "2.IH"(2) [OF Some refl links_ranked_insert [OF "2.prems" tx]] Some
      by (simp only: prune_unlocked.simps option.case Let_def)
  qed
qed simp

lemma prune_unlocked_good:
  "links_ranked good rank ready \<Longrightarrow> \<forall>x \<in> set ind. good (ref_transaction x) \<Longrightarrow>
   \<forall>x \<in> set (snd (prune_unlocked hs ready ind)). good (ref_transaction x)"
proof (induction hs ready ind rule: prune_unlocked.induct)
  case (2 h hs ready ind)
  show ?case
  proof (cases "hm_get ready h")
    case None
    with 2 show ?thesis by simp
  next
    case (Some tx)
    let ?tx = "tx\<lparr>requires_offset := requires_offset tx + 1\<rparr>"
    have tx: "entry_ranked good rank h ?tx"
      using links_rankedD [OF "2.prems"(1) Some] by (rule entry_ranked_fewer) simp_all
    then have "good (ref_transaction (rt_transaction ?tx))" by (simp add: entry_ranked_def rt_pool_tx_def)
    then have "\<forall>x \<in> set (if requires_offset ?tx = length (requires (rt_pool_tx ?tx))
        then bts_insert (rt_transaction ?tx) ind else ind). good (ref_transaction x)"
      using "2.prems"(2) set_bts_insert [of "rt_transaction ?tx" ind] by auto
    then show ?thesis
      using "2.IH"(2) [OF Some refl links_ranked_insert [OF "2.prems"(1) tx]] Some
      by (simp only: prune_unlocked.simps option.case Let_def)
  qed
qed simp

subsection \<open>Nonces as ranks\<close>

text \<open>
  \<open>origin\<close> gives sender and nonce of the transaction with a hash, and \<open>good\<close> is any property
  of the submitted transactions. A transaction of the API
  provides the marker of its nonce and requires at most the one before.
\<close>

definition api_shaped ::
    "(PoolTransaction \<Rightarrow> bool) \<Rightarrow> (TxHash \<Rightarrow> address \<times> u64) \<Rightarrow> PoolTransaction \<Rightarrow> bool" where
  "api_shaped good origin tx =
     (good tx \<and> (case origin (pool_tx_hash tx) of (a, n) \<Rightarrow>
        provides tx = [to_marker n a] \<and> (requires tx = [] \<or> 0 < n \<and> requires tx = [to_marker (n - 1) a])))"

definition nonce_rank :: "(TxHash \<Rightarrow> address \<times> u64) \<Rightarrow> TxHash \<Rightarrow> nat" where
  "nonce_rank origin h = unat (snd (origin h))"

definition markers_signed :: "(TxHash \<Rightarrow> address \<times> u64) \<Rightarrow> (TxMarker, TxHash) hmap \<Rightarrow> bool" where
  "markers_signed origin pm =
     (\<forall>m h. hm_get pm m = Some h \<longrightarrow> m = to_marker (snd (origin h)) (fst (origin h)))"

definition ready_signed ::
    "(PoolTransaction \<Rightarrow> bool) \<Rightarrow> (TxHash \<Rightarrow> address \<times> u64) \<Rightarrow> ReadyTransactions \<Rightarrow> bool" where
  "ready_signed good origin r =
     (markers_signed origin (provided_markers r) \<and> links_ranked good (nonce_rank origin) (ready_tx r) \<and>
      (\<forall>x \<in> set (independent_transactions r). good (ref_transaction x)))"

definition pending_signed ::
    "(PoolTransaction \<Rightarrow> bool) \<Rightarrow> (TxHash \<Rightarrow> address \<times> u64) \<Rightarrow> PendingTransactions \<Rightarrow> bool" where
  "pending_signed good origin p = (\<forall>h w. hm_get (waiting_queue p) h = Some w \<longrightarrow> api_shaped good origin (pp_transaction w))"

definition pool_signed ::
    "(PoolTransaction \<Rightarrow> bool) \<Rightarrow> (TxHash \<Rightarrow> address \<times> u64) \<Rightarrow> PoolInner \<Rightarrow> bool" where
  "pool_signed good origin p =
     (ready_signed good origin (ready_transactions p) \<and> pending_signed good origin (pending_transactions p))"

lemma api_shaped_api:
  assumes "origin (pt_hash pt) = (pt_sender pt, pt_nonce pt)" "good (api_transaction order k pt)"
  shows "api_shaped good origin (api_transaction order k pt)"
  using assms required_marker_cases [of "pt_nonce pt" k "pt_sender pt"]
  by (auto simp: api_shaped_def api_transaction_def pool_tx_hash_def)

lemma pool_signed_default: "pool_signed good origin pool_default"
  by (simp add: pool_signed_def ready_signed_def pending_signed_def markers_signed_def links_ranked_def
      pool_default_def ready_default_def pending_default_def)

lemma pool_signed_clear: "pool_signed good origin (inner_clear p)"
  by (simp add: pool_signed_def ready_signed_def pending_signed_def markers_signed_def links_ranked_def
      inner_clear_def ready_clear_def pending_clear_def)

lemma markers_signed_remove: "markers_signed origin pm \<Longrightarrow> markers_signed origin (hm_remove m pm)"
  by (simp add: markers_signed_def hm_simps)

lemma markers_signed_fold_remove: "markers_signed origin pm \<Longrightarrow> markers_signed origin (fold hm_remove ms pm)"
  by (induction ms arbitrary: pm) (auto intro: markers_signed_remove)

lemma markers_signed_provide:
  "markers_signed origin pm \<Longrightarrow> api_shaped good origin tx \<Longrightarrow>
   markers_signed origin (fold (\<lambda>m. hm_insert m (pool_tx_hash tx)) (provides tx) pm)"
  by (auto simp: markers_signed_def api_shaped_def hm_simps split: prod.splits)


subsection \<open>The operations keep the links\<close>

lemma removed_ready_signed: "ready_signed good origin r \<Longrightarrow> ready_signed good origin (removed_ready f h tx r)"
  by (simp add: ready_signed_def removed_ready_def Let_def markers_signed_fold_remove
      links_ranked_fold_remove_unlock links_ranked_remove set_bts_remove)

lemma remove_loop_signed:
  "ready_signed good origin r \<Longrightarrow> ready_signed good origin (snd (remove_with_markers_loop f hs removed r))"
proof (induction f hs removed r rule: remove_with_markers_loop.induct)
  case (1 f hs removed r)
  show ?case
  proof (cases hs rule: rev_cases)
    case Nil
    with 1 show ?thesis by (simp add: remove_loop_unfold)
  next
    case (snoc rest h)
    then have pop: "vec_pop hs = Some (h, rest)" by simp
    show ?thesis
    proof (cases "hm_get (ready_tx r) h")
      case None
      with "1.IH"(1) [OF pop refl] "1.prems" show ?thesis by (simp add: snoc remove_loop_unfold)
    next
      case (Some tx)
      from "1.IH"(2) [OF pop refl Some refl refl refl refl refl, folded removed_ready_def [unfolded Let_def]]
        removed_ready_signed [OF "1.prems"] Some
      show ?thesis by (simp add: snoc remove_loop_unfold)
    qed
  qed
qed

lemma remove_with_markers_signed:
  "ready_signed good origin r \<Longrightarrow> remove_with_markers hs f r = (removed, r') \<Longrightarrow> ready_signed good origin r'"
  using remove_loop_signed [of good origin r f hs "[]"] by (simp add: remove_with_markers_def)

lemma prune_provided_Ret: "prune_provided m h ms pm = Ret pm' \<Longrightarrow> pm' = fold hm_remove ms pm"
  by (induction ms arbitrary: pm) (auto simp: rassert_def split: if_splits)

lemma pruned_ready_signed:
  assumes "ready_signed good origin r"
  shows "ready_signed good origin (pruned_ready rest m h tx r)"
proof -
  let ?ready = "fst (prune_previous (pool_tx_hash (rt_pool_tx tx)) (hm_remove m (provided_markers r))
      (requires (rt_pool_tx tx)) (hm_remove h (ready_tx r)) rest)"
  let ?ind = "bts_remove (rt_transaction tx) (independent_transactions r)"
  have r: "links_ranked good (nonce_rank origin) ?ready"
    using assms by (simp add: ready_signed_def links_ranked_prune_previous links_ranked_remove)
  have "\<forall>x \<in> set ?ind. good (ref_transaction x)"
    using assms by (simp add: ready_signed_def set_bts_remove)
  note ind = prune_unlocked_good [OF r this]
  show ?thesis
    using assms links_ranked_prune_unlocked [OF r] ind
    by (simp add: ready_signed_def pruned_ready_def Let_def markers_signed_fold_remove markers_signed_remove
        del: bex_simps ball_simps)
qed

lemma prune_tags_loop_signed:
  "ready_signed good origin r \<Longrightarrow> prune_tags_loop ms removed r = Ret (removed', r') \<Longrightarrow> ready_signed good origin r'"
proof (induction ms removed r rule: prune_tags_loop.induct)
  case (1 ms removed r)
  show ?case
  proof (cases ms rule: rev_cases)
    case Nil
    with 1 show ?thesis by (simp add: prune_tags_unfold)
  next
    case (snoc rest m)
    then have pop: "vec_pop ms = Some (m, rest)" by simp
    let ?b = "Option.bind (hm_get (provided_markers r) m) (\<lambda>h. map_option (Pair h) (hm_get (ready_tx r) h))"
    show ?thesis
    proof (cases ?b)
      case None
      have "ready_signed good origin (r\<lparr>provided_markers := hm_remove m (provided_markers r)\<rparr>)"
        using "1.prems"(1) by (simp add: ready_signed_def markers_signed_remove)
      from "1.IH"(1) [OF pop refl refl None this] "1.prems"(2) show ?thesis
        by (simp add: snoc prune_tags_unfold(2) [OF None])
    next
      case (Some htx)
      then obtain h tx where h: "hm_get (provided_markers r) m = Some h" "hm_get (ready_tx r) h = Some tx"
        and b: "?b = Some (h, tx)"
        by (auto simp: Option.bind_eq_Some_conv)
      from "1.prems"(2) h obtain pm' where
        pp: "prune_provided m (pool_tx_hash (rt_pool_tx tx)) (rt_provides tx)
          (hm_remove m (provided_markers r)) = Ret pm'"
        by (subst (asm) prune_tags_loop.simps) (auto simp: snoc Let_def rbind_Ret_iff)
      note pp = pp [unfolded prune_provided_Ret [OF pp]]
      from "1.IH"(2) [OF pop refl refl b refl refl refl refl refl refl pp, folded pruned_ready_def [unfolded Let_def]]
        pruned_ready_signed [OF "1.prems"(1)] "1.prems"(2)
      show ?thesis by (simp add: snoc prune_tags_unfold(3) [OF h pp])
    qed
  qed
qed

lemma replaced_check_unlocks:
  "replaced_check tx ready hs ul = Inr ul' \<Longrightarrow>
   set ul' \<subseteq> set ul \<union> {k. \<exists>h \<in> set hs. \<exists>t. hm_get ready h = Some t \<and> k \<in> set (unlocks t)}"
proof (induction tx ready hs ul rule: replaced_check.induct)
  case (2 tx ready h hs ul)
  then show ?case by (auto split: option.splits if_splits)
qed simp

lemma replaced_transactions_signed:
  assumes "ready_signed good origin r" "api_shaped good origin tx" "iteration_order it"
    and "replaced_transactions it tx r = (Inr (removed, ul), r')"
  shows "ready_signed good origin r'"
    "\<forall>k \<in> set ul. nonce_rank origin (pool_tx_hash tx) < nonce_rank origin k"
proof -
  let ?hs = "it (remdups (List.map_filter (hm_get (provided_markers r)) (provides tx)))"
  have hs: "origin h = origin (pool_tx_hash tx)" if "h \<in> set ?hs" for h
  proof -
    from that obtain m where m: "m \<in> set (provides tx)" "hm_get (provided_markers r) m = Some h"
      using iteration_order_set [OF assms(3)] by (auto simp: map_filter_def)
    with assms(1,2) have "to_marker (snd (origin h)) (fst (origin h)) =
        to_marker (snd (origin (pool_tx_hash tx))) (fst (origin (pool_tx_hash tx)))"
      by (auto simp: ready_signed_def markers_signed_def api_shaped_def split: prod.splits)
    then show ?thesis by (simp add: to_marker_inj prod_eq_iff)
  qed
  have "ready_signed good origin r' \<and> (\<forall>k \<in> set ul. nonce_rank origin (pool_tx_hash tx) < nonce_rank origin k)"
  proof (cases "?hs = []")
    case True
    with assms show ?thesis by (simp add: replaced_transactions_def)
  next
    case False
    with assms(4) obtain ul0 where c: "replaced_check tx (ready_tx r) ?hs [] = Inr ul0"
      by (auto simp: replaced_transactions_def Let_def split: sum.splits)
    with assms(4) False have rw: "remove_with_markers ?hs (Some (provides tx)) r = (removed, r')" "ul = ul0"
      by (auto simp: replaced_transactions_def Let_def split: prod.splits)
    have "nonce_rank origin (pool_tx_hash tx) < nonce_rank origin k" if "k \<in> set ul0" for k
    proof -
      from that replaced_check_unlocks [OF c] obtain h t where
        t: "h \<in> set ?hs" "hm_get (ready_tx r) h = Some t" "k \<in> set (unlocks t)"
        by auto
      from t(2,3) assms(1) have "nonce_rank origin h < nonce_rank origin k"
        by (auto simp: ready_signed_def links_ranked_def entry_ranked_def)
      with hs [OF t(1)] show ?thesis by (simp add: nonce_rank_def)
    qed
    with remove_with_markers_signed [OF assms(1) rw(1)] rw(2) show ?thesis by blast
  qed
  then show "ready_signed good origin r'"
    "\<forall>k \<in> set ul. nonce_rank origin (pool_tx_hash tx) < nonce_rank origin k"
    by blast+
qed

lemma link_requires_ranked:
  "link_requires hash pm ms ready ind off = Ret (ready', ind', off') \<Longrightarrow> links_ranked good rank ready \<Longrightarrow>
   \<forall>m \<in> set ms. \<forall>h. hm_get pm m = Some h \<longrightarrow> rank h < rank hash \<Longrightarrow> links_ranked good rank ready'"
proof (induction hash pm ms ready ind off rule: link_requires.induct)
  case (2 hash pm m ms ready ind off)
  show ?case
  proof (cases "hm_get pm m")
    case None
    with 2 show ?thesis by simp
  next
    case (Some other)
    with "2.prems"(1) obtain tx where tx: "hm_get ready other = Some tx"
      by (auto split: option.splits)
    have "entry_ranked good rank other (tx\<lparr>unlocks := unlocks tx @ [hash]\<rparr>)"
      using links_rankedD [OF "2.prems"(2) tx] "2.prems"(3) Some by (auto simp: entry_ranked_def rt_pool_tx_def)
    then have "links_ranked good rank (hm_insert other (tx\<lparr>unlocks := unlocks tx @ [hash]\<rparr>) ready)"
      using "2.prems"(2) by (rule links_ranked_insert [rotated])
    with "2.IH"(2) [OF Some tx] "2.prems" Some tx show ?thesis by simp
  qed
qed simp

lemma ready_add_signed:
  assumes "ready_signed good origin r" "api_shaped good origin (pp_transaction tx)" "iteration_order it"
    and "ready_add_transaction it tx r = Ret (res, r')"
  shows "ready_signed good origin r'"
proof -
  let ?tx = "pp_transaction tx" and ?h = "pp_hash tx"
  have h: "?h = pool_tx_hash ?tx" by (simp add: pp_hash_def)
  obtain out r1 where rep: "replaced_transactions it ?tx r = (out, r1)" by fastforce
  show ?thesis
  proof (cases out)
    case (Inl e)
    then have "r1 = r"
      using rep by (auto simp: replaced_transactions_def Let_def split: if_splits sum.splits prod.splits)
    with assms(1,4) rep Inl show ?thesis by (auto simp: ready_add_transaction_def ret_iffs)
  next
    case (Inr p)
    obtain removed ul where p: "p = (removed, ul)" by (cases p)
    note R = replaced_transactions_signed [OF assms(1-3) rep [unfolded Inr p]]
    from assms(4) rep Inr p obtain ready ind off where
      link: "link_requires ?h (provided_markers r1) (requires ?tx) (ready_tx r1) True 0 = Ret (ready, ind, off)"
      and r': "provided_markers r' = fold (\<lambda>m. hm_insert m ?h) (provides ?tx) (provided_markers r1)"
        "ready_tx r' = hm_insert ?h \<lparr>rt_transaction = \<lparr>ref_transaction = ?tx, ref_id = ready_id r1\<rparr>,
           unlocks = ul, requires_offset = off\<rparr> ready"
        "independent_transactions r' = (if ind
           then bts_insert \<lparr>ref_transaction = ?tx, ref_id = ready_id r1\<rparr> (independent_transactions r1)
           else independent_transactions r1)"
      by (auto simp: ready_add_transaction_def ret_iffs next_id_def Let_def)
    have "nonce_rank origin g < nonce_rank origin ?h"
      if "m \<in> set (requires ?tx)" "hm_get (provided_markers r1) m = Some g" for m g
    proof -
      obtain a n where sn: "origin ?h = (a, n)" by fastforce
      from that(1) assms(2) sn have m: "m = to_marker (n - 1) a" "0 < n"
        by (auto simp: api_shaped_def h)
      from that(2) R(1) have "m = to_marker (snd (origin g)) (fst (origin g))"
        by (simp add: ready_signed_def markers_signed_def)
      with m have "snd (origin g) = n - 1" by (simp add: to_marker_inj)
      with m(2) sn show ?thesis
        by (simp add: nonce_rank_def word_less_nat_alt unat_minus_one unat_gt_0)
    qed
    then have "links_ranked good (nonce_rank origin) ready"
      using link_requires_ranked [OF link] R(1) by (auto simp: ready_signed_def)
    moreover have "\<forall>x \<in> set (independent_transactions r'). good (ref_transaction x)"
      using R(1) assms(2) set_bts_insert [of "\<lparr>ref_transaction = ?tx, ref_id = ready_id r1\<rparr>" "independent_transactions r1"]
      by (auto simp: r' ready_signed_def api_shaped_def)
    ultimately show ?thesis
      using R assms(2) markers_signed_provide [of origin "provided_markers r1" good ?tx]
      by (simp add: ready_signed_def r' h links_ranked_insert entry_ranked_def ref_hash_def rt_pool_tx_def api_shaped_def)
  qed
qed

lemma mark_transaction [simp]: "pp_transaction (mark m w) = pp_transaction w"
  by (simp add: mark_def)

lemma unlock_hashes_signed:
  "unlock_hashes m hs p ul = Ret (ul', p') \<Longrightarrow> pending_signed good origin p \<Longrightarrow>
   \<forall>w \<in> set ul. api_shaped good origin (pp_transaction w) \<Longrightarrow>
   pending_signed good origin p' \<and> (\<forall>w \<in> set ul'. api_shaped good origin (pp_transaction w))"
proof (induction m hs p ul rule: unlock_hashes.induct)
  case (2 m h hs p ul)
  from "2.prems"(1) obtain tx where tx: "hm_get (waiting_queue p) h = Some tx"
    by (auto split: option.splits)
  with "2.prems"(2) have ok: "api_shaped good origin (pp_transaction tx)" by (simp add: pending_signed_def)
  let ?p = "p\<lparr>waiting_queue := hm_insert h (mark m tx) (waiting_queue p)\<rparr>"
  let ?q = "?p\<lparr>waiting_queue := hm_remove h (waiting_queue ?p),
    waiting_markers := hm_remove (provides (pp_transaction (mark m tx))) (waiting_markers ?p)\<rparr>"
  have q: "pending_signed good origin ?p" "pending_signed good origin ?q"
    using "2.prems"(2) ok by (simp_all add: pending_signed_def hm_simps)
  show ?case
  proof (cases "is_ready (mark m tx)")
    case True
    have "unlock_hashes m hs ?q (ul @ [mark m tx]) = Ret (ul', p')"
      using "2.prems"(1) True by (simp only: unlock_hashes.simps tx option.case Let_def if_True)
    moreover have "\<forall>w \<in> set (ul @ [mark m tx]). api_shaped good origin (pp_transaction w)"
      using "2.prems"(3) ok by simp
    ultimately show ?thesis using "2.IH"(1) [OF tx refl refl True _ q(2)] by blast
  next
    case False
    have "unlock_hashes m hs ?p ul = Ret (ul', p')"
      using "2.prems"(1) False by (simp only: unlock_hashes.simps tx option.case Let_def if_False)
    then show ?thesis using "2.IH"(2) [OF tx refl refl False _ q(1) "2.prems"(3)] by blast
  qed
qed simp

lemma mark_and_unlock_from_signed:
  "mark_and_unlock_from it ms p ul = Ret (ul', p') \<Longrightarrow> pending_signed good origin p \<Longrightarrow>
   \<forall>w \<in> set ul. api_shaped good origin (pp_transaction w) \<Longrightarrow>
   pending_signed good origin p' \<and> (\<forall>w \<in> set ul'. api_shaped good origin (pp_transaction w))"
proof (induction it ms p ul rule: mark_and_unlock_from.induct)
  case (2 it m ms p ul)
  show ?case
  proof (cases "hm_get (required_markers p) m")
    case None
    with 2 show ?thesis by simp
  next
    case (Some hs)
    with "2.prems" obtain ul1 p1 where
      u: "unlock_hashes m (it hs) (p\<lparr>required_markers := hm_remove m (required_markers p)\<rparr>) ul = Ret (ul1, p1)"
      and rest: "mark_and_unlock_from it ms p1 ul1 = Ret (ul', p')"
      by (auto simp: rbind_Ret_iff)
    from "2.prems"(2) have "pending_signed good origin (p\<lparr>required_markers := hm_remove m (required_markers p)\<rparr>)"
      by (simp add: pending_signed_def)
    from unlock_hashes_signed [OF u this "2.prems"(3)] "2.IH"(2) [OF Some u refl rest]
    show ?thesis by simp
  qed
qed simp

lemma mark_and_unlock_signed:
  "mark_and_unlock it ms p = Ret (ul, p') \<Longrightarrow> pending_signed good origin p \<Longrightarrow>
   pending_signed good origin p' \<and> (\<forall>w \<in> set ul. api_shaped good origin (pp_transaction w))"
  unfolding mark_and_unlock_def by (drule mark_and_unlock_from_signed) simp_all

lemma pending_remove_from_signed:
  "pending_remove_from hs p removed = (removed', p') \<Longrightarrow> pending_signed good origin p \<Longrightarrow>
   pending_signed good origin p'"
proof (induction hs p removed rule: pending_remove_from.induct)
  case (2 h hs p removed)
  show ?case
  proof (cases "hm_get (waiting_queue p) h")
    case None
    with "2.IH"(1) "2.prems" show ?thesis by simp
  next
    case (Some w)
    have "pending_signed good origin (remove_waiting h w p)"
      using "2.prems"(2) by (simp add: pending_signed_def hm_simps)
    with "2.IH"(2) [OF Some, folded remove_waiting_def] "2.prems"(1) Some show ?thesis
      by (simp add: remove_waiting_def)
  qed
qed simp

text \<open>The operations of the pool.\<close>

lemma pool_signedD:
  assumes "pool_signed good origin p"
  shows "ready_signed good origin (ready_transactions p)" "pending_signed good origin (pending_transactions p)"
  using assms by (simp_all add: pool_signed_def)

lemma add_ready_loop_signed:
  assumes it: "iteration_order it"
  shows "add_ready_loop it q new ready p = Ret (res, p') \<Longrightarrow> pool_signed good origin p \<Longrightarrow>
    \<forall>w \<in> set q. api_shaped good origin (pp_transaction w) \<Longrightarrow> pool_signed good origin p'"
proof (induction "length q + length (waiting_queue (pending_transactions p))" arbitrary: q new ready p
    rule: less_induct)
  case less
  show ?case
  proof (cases q)
    case Nil
    with less.prems show ?thesis by simp
  next
    case (Cons w ws)
    from less.prems(1) Cons obtain ul pend out rdy where
      m: "mark_and_unlock it (provides (pp_transaction w)) (pending_transactions p) = Ret (ul, pend)"
      and a: "ready_add_transaction it w (ready_transactions p) = Ret (out, rdy)"
      by (auto simp: rbind_Ret_iff)
    let ?p = "\<lparr>ready_transactions = rdy, pending_transactions = pend\<rparr>"
    note M = mark_and_unlock_signed [OF m pool_signedD(2) [OF less.prems(2)]]
    have w: "api_shaped good origin (pp_transaction w)" using less.prems(3) Cons by simp
    have p: "pool_signed good origin ?p"
      using M ready_add_signed [OF pool_signedD(1) [OF less.prems(2)] w it a] by (simp add: pool_signed_def)
    have q: "\<forall>w \<in> set (ws @ ul). api_shaped good origin (pp_transaction w)"
      using M less.prems(3) Cons by auto
    have shorter: "length (ws @ ul) + length (waiting_queue (pending_transactions ?p))
        < length q + length (waiting_queue (pending_transactions p))"
      using mark_and_unlock_length [OF m] Cons by simp
    from less.prems(1) have "p' = ?p \<or> (\<exists>ready. add_ready_loop it (ws @ ul) False ready ?p = Ret (res, p'))"
      unfolding Cons add_ready_loop.simps m a rbind.simps prod.case Let_def
      by (cases out; cases new) auto
    then show ?thesis
      using less.hyps [OF shorter _ p q] p by blast
  qed
qed

lemma add_ready_transaction_signed:
  assumes "iteration_order it" "pool_signed good origin p" "api_shaped good origin (pp_transaction tx)"
    and "add_ready_transaction it tx p = Ret (res, p')"
  shows "pool_signed good origin p'"
proof -
  from assms(4) obtain x where "add_ready_loop it [tx] True (AddedReady_new (pp_hash tx)) p = Ret x"
    unfolding add_ready_transaction_def Let_def rbind_Ret_iff by blast
  then obtain out p1 where l: "add_ready_loop it [tx] True (AddedReady_new (pp_hash tx)) p = Ret (out, p1)"
    by (cases x) blast
  have p': "p' = p1 \<or> (\<exists>hs removed rdy. clear_transactions hs (ready_transactions p1) = (removed, rdy) \<and>
      p' = p1\<lparr>ready_transactions := rdy\<rparr>)"
    using assms(4) unfolding add_ready_transaction_def Let_def l rbind.simps prod.case
    by (cases out) (auto split: if_splits prod.splits)
  have p1: "pool_signed good origin p1"
    by (rule add_ready_loop_signed [OF assms(1) l assms(2)]) (simp add: assms(3))
  from p' show ?thesis
  proof (elim disjE exE conjE)
    fix hs removed rdy
    assume c: "clear_transactions hs (ready_transactions p1) = (removed, rdy)"
      and p': "p' = p1\<lparr>ready_transactions := rdy\<rparr>"
    from c have "ready_signed good origin rdy"
      unfolding clear_transactions_def by (rule remove_with_markers_signed [OF pool_signedD(1) [OF p1]])
    with p1 p' show ?thesis by (simp add: pool_signed_def)
  qed (simp add: p1)
qed

lemma pending_add_signed:
  "pending_add_transaction w p = Ret (res, p') \<Longrightarrow> pending_signed good origin p \<Longrightarrow>
   api_shaped good origin (pp_transaction w) \<Longrightarrow> pending_signed good origin p'"
  by (auto simp: pending_add_transaction_def rassert_def pending_signed_def hm_simps split: if_splits)

lemma inner_add_transaction_signed:
  assumes "iteration_order it" "pool_signed good origin p" "api_shaped good origin tx"
    and "inner_add_transaction it now tx p = Ret (res, p')"
  shows "pool_signed good origin p'"
proof -
  let ?w = "PendingPoolTransaction_new tx (provided_markers (ready_transactions p)) now"
  have w: "api_shaped good origin (pp_transaction ?w)"
    using assms(3) by (simp add: PendingPoolTransaction_new_simps)
  consider (known) "inner_contains p (pool_tx_hash tx)"
    | (wait) "\<not> inner_contains p (pool_tx_hash tx)" "\<not> is_ready ?w"
    | (ready) "\<not> inner_contains p (pool_tx_hash tx)" "is_ready ?w"
    by blast
  then show ?thesis
  proof cases
    case known
    with assms show ?thesis by (simp add: inner_add_transaction_def)
  next
    case wait
    with assms(4) obtain out pend where
      a: "pending_add_transaction ?w (pending_transactions p) = Ret (out, pend)"
      by (auto simp: inner_add_transaction_def Let_def rbind_Ret_iff)
    from wait assms(4) have "p' = p\<lparr>pending_transactions := pend\<rparr>"
      by (cases out) (simp_all add: inner_add_transaction_def Let_def a)
    with pending_add_signed [OF a pool_signedD(2) [OF assms(2)] w] assms(2) show ?thesis
      by (simp add: pool_signed_def)
  next
    case ready
    with assms(4) have "add_ready_transaction it ?w p = Ret (res, p')"
      by (simp add: inner_add_transaction_def Let_def)
    with add_ready_transaction_signed [OF assms(1,2) w] show ?thesis by blast
  qed
qed

lemma inner_remove_invalid_signed:
  "inner_remove_invalid hs p = (removed, p') \<Longrightarrow> pool_signed good origin p \<Longrightarrow> pool_signed good origin p'"
  by (auto simp: inner_remove_invalid_def pool_signed_def pending_remove_def split: if_splits prod.splits
      elim: remove_with_markers_signed pending_remove_from_signed)

lemma prune_markers_collect_signed:
  "prune_markers_collect it ms ul pruned p = Ret (ul', pruned', p') \<Longrightarrow> pool_signed good origin p \<Longrightarrow>
   \<forall>w \<in> set ul. api_shaped good origin (pp_transaction w) \<Longrightarrow>
   pool_signed good origin p' \<and> (\<forall>w \<in> set ul'. api_shaped good origin (pp_transaction w))"
proof (induction ms arbitrary: ul pruned p)
  case (Cons m ms)
  from Cons.prems(1) obtain u pend removed rdy where
    m: "mark_and_unlock it [m] (pending_transactions p) = Ret (u, pend)"
    and t: "prune_tags m (ready_transactions p) = Ret (removed, rdy)"
    and rest: "prune_markers_collect it ms (ul @ u) (pruned @ removed)
      \<lparr>ready_transactions = rdy, pending_transactions = pend\<rparr> = Ret (ul', pruned', p')"
    by (auto simp: rbind_Ret_iff)
  note M = mark_and_unlock_signed [OF m pool_signedD(2) [OF Cons.prems(2)]]
  have "ready_signed good origin rdy"
    using prune_tags_loop_signed [OF pool_signedD(1) [OF Cons.prems(2)]] t by (simp add: prune_tags_def)
  with M Cons.prems(3) Cons.IH [OF rest] show ?case by (auto simp: pool_signed_def)
qed simp

lemma prune_markers_import_signed:
  assumes "iteration_order it"
  shows "prune_markers_import it ws promoted failed p = Ret (a, b, p') \<Longrightarrow> pool_signed good origin p \<Longrightarrow>
    \<forall>w \<in> set ws. api_shaped good origin (pp_transaction w) \<Longrightarrow> pool_signed good origin p'"
proof (induction ws arbitrary: promoted failed p)
  case (Cons w ws)
  from Cons.prems(1) obtain x where "add_ready_transaction it w p = Ret x"
    by (auto simp only: prune_markers_import.simps rbind_Ret_iff)
  then obtain res p1 where a: "add_ready_transaction it w p = Ret (res, p1)"
    by (cases x) blast
  from Cons.prems(1) a have rest: "\<exists>promoted failed. prune_markers_import it ws promoted failed p1 = Ret (a, b, p')"
    by (cases res) auto
  have "pool_signed good origin p1"
    using add_ready_transaction_signed [OF assms Cons.prems(2) _ a] Cons.prems(3) by simp
  with rest Cons.IH [of _ _ p1] Cons.prems(3) show ?case by auto
qed simp

lemma on_mined_block_signed:
  assumes "iteration_order it" "pool_signed good origin p" "on_mined_block it outcome p = Ret (res, p')"
  shows "pool_signed good origin p'"
proof -
  obtain removed p1 where r: "inner_remove_invalid (map pool_tx_hash (mb_invalid outcome)) p = (removed, p1)"
    by fastforce
  note p1 = inner_remove_invalid_signed [OF r assms(2)]
  from assms(3) r obtain ul pruned p2 promoted failed where
    c: "prune_markers_collect it (concat (map provides (mb_included outcome))) [] [] p1 = Ret (ul, pruned, p2)"
    and i: "prune_markers_import it ul [] [] p2 = Ret (promoted, failed, p')"
    by (auto simp: on_mined_block_def inner_prune_markers_def rbind_Ret_iff)
  from prune_markers_collect_signed [OF c p1] show ?thesis
    using prune_markers_import_signed [OF assms(1) i] by simp
qed

lemma drop_transaction_signed:
  "drop_transaction h p = (found, p') \<Longrightarrow> pool_signed good origin p \<Longrightarrow> pool_signed good origin p'"
  by (auto simp: drop_transaction_def pool_signed_def split: prod.splits elim: remove_with_markers_signed)

lemma remove_transactions_by_address_signed:
  "remove_transactions_by_address fuel it a p = Some (removed, p') \<Longrightarrow> pool_signed good origin p \<Longrightarrow>
   pool_signed good origin p'"
  by (auto simp: remove_transactions_by_address_def Let_def pool_signed_def pending_remove_def
      split: if_splits prod.splits elim: remove_with_markers_signed pending_remove_from_signed)

subsection \<open>The iterator ends\<close>

text \<open>
  The weight of a hash bounds how many transactions the iterator can still take because of
  it. With links that increase the rank it does not depend on the depth, once that is large
  enough, and taking a transaction lowers the weight of the queue.
\<close>

primrec weight :: "(TxHash, ReadyTransaction) hmap \<Rightarrow> nat \<Rightarrow> TxHash \<Rightarrow> nat" where
  "weight ready 0 h = 0"
| "weight ready (Suc n) h =
     Suc (case hm_get ready h of None \<Rightarrow> 0 | Some t \<Rightarrow> sum_list (map (weight ready n) (unlocks t)))"

lemma weight_stable:
  assumes "links_ranked good rank ready" "\<And>k. rank k < N"
  shows "N - rank h \<le> n \<Longrightarrow> weight ready n h = weight ready (N - rank h) h"
proof (induction n arbitrary: h rule: less_induct)
  case (less n)
  have pos: "0 < N - rank h" using assms(2) [of h] by simp
  then obtain m d where m: "n = Suc m" and d: "N - rank h = Suc d"
    using less.prems by (cases n; cases "N - rank h") auto
  have "weight ready m k = weight ready d k" if "hm_get ready h = Some t" "k \<in> set (unlocks t)" for t k
  proof -
    from links_rankedD [OF assms(1) that(1)] that(2) have "rank h < rank k"
      by (simp add: entry_ranked_def)
    with d have k: "N - rank k \<le> d" using assms(2) [of k] by linarith
    from less.prems m d have "d \<le> m" by simp
    show ?thesis
    proof (cases "d = m")
      case False
      with \<open>d \<le> m\<close> m have "d < n" "m < n" by simp_all
      with less.IH [of m k] less.IH [of d k] k \<open>d \<le> m\<close> show ?thesis by simp
    qed simp
  qed
  then show ?case by (auto simp: m d split: option.splits intro!: arg_cong [where f = sum_list])
qed

lemma weight_unfold:
  assumes "links_ranked good rank ready" "\<And>k. rank k < N" "hm_get ready h = Some t"
  shows "weight ready N h = Suc (sum_list (map (weight ready N) (unlocks t)))"
proof -
  obtain n where n: "N = Suc n" using assms(2) [of h] by (cases N) auto
  have "weight ready n k = weight ready N k" if "k \<in> set (unlocks t)" for k
  proof -
    from links_rankedD [OF assms(1,3)] that have "rank h < rank k" by (simp add: entry_ranked_def)
    then have "N - rank k \<le> n" using n by linarith
    with weight_stable [OF assms(1,2), where h = k and n = n] weight_stable [OF assms(1,2), where h = k and n = N] show ?thesis by simp
  qed
  then show ?thesis using assms(3) by (simp add: n cong: map_cong)
qed

definition queue_weight :: "(TxHash \<Rightarrow> nat) \<Rightarrow> TransactionsIterator \<Rightarrow> nat" where
  "queue_weight w s = sum_list (map (w \<circ> ref_hash) (ti_independent s))"

definition iter_ok :: "(PoolTransaction \<Rightarrow> bool) \<Rightarrow> TransactionsIterator \<Rightarrow> bool" where
  "iter_ok good s =
     ((\<forall>h t. hm_get (ti_all s) h = Some t \<longrightarrow> ref_hash (rt_transaction t) = h \<and> good (rt_pool_tx t)) \<and>
      (\<forall>h i x. hm_get (ti_awaiting s) h = Some (i, x) \<longrightarrow> ref_hash x = h \<and> good (ref_transaction x)) \<and>
      (\<forall>x \<in> set (ti_independent s). good (ref_transaction x)))"

lemma bts_insert_weight: "sum_list (map f (bts_insert x ys)) \<le> (f x :: nat) + sum_list (map f ys)"
  by (induction x ys rule: bts_insert.induct) auto

lemma bts_remove_weight:
  "x \<in> set ys \<Longrightarrow> sum_list (map f (bts_remove x ys)) + (f x :: nat) \<le> sum_list (map f ys)"
proof (induction ys)
  case (Cons y ys)
  have "sum_list (map f (bts_remove x ys)) \<le> sum_list (map f ys)"
    by (induction ys) (auto simp: bts_remove_def)
  with Cons show ?case by (cases "x = y") (auto simp: bts_remove_def)
qed simp

lemma iter_unlock_ok:
  assumes "iter_ok good s"
  shows "iter_ok good (iter_unlock h s)" "ti_all (iter_unlock h s) = ti_all s"
    "queue_weight w (iter_unlock h s) \<le> w h + queue_weight w s"
proof -
  have ins: "queue_weight w (s\<lparr>ti_independent := bts_insert x (ti_independent s)\<rparr>) \<le> w (ref_hash x) + queue_weight w s"
    for x and s :: TransactionsIterator
    using bts_insert_weight [of "w \<circ> ref_hash" x "ti_independent s"] by (simp add: queue_weight_def)
  have rem: "queue_weight w (s\<lparr>ti_awaiting := a\<rparr>) = queue_weight w s" for a and s :: TransactionsIterator
    by (simp add: queue_weight_def)
  have aw: "queue_weight w (s\<lparr>ti_awaiting := a, ti_independent := bts_insert x (ti_independent s)\<rparr>)
      \<le> w (ref_hash x) + queue_weight w s" for a x
    using ins [where s = "s\<lparr>ti_awaiting := a\<rparr>" and x = x] by (simp add: rem)
  show "iter_ok good (iter_unlock h s)" "ti_all (iter_unlock h s) = ti_all s"
    using assms set_bts_insert
    by (fastforce simp: iter_unlock_def independent_or_awaiting_def iter_ok_def hm_simps rt_pool_tx_def split: option.splits)+
  show "queue_weight w (iter_unlock h s) \<le> w h + queue_weight w s"
    using assms ins [where s = s] aw by (fastforce simp: iter_unlock_def independent_or_awaiting_def iter_ok_def rem
        split: option.splits)
qed

lemma fold_iter_unlock_ok:
  "iter_ok good s \<Longrightarrow> iter_ok good (fold iter_unlock hs s) \<and> ti_all (fold iter_unlock hs s) = ti_all s \<and>
   queue_weight w (fold iter_unlock hs s) \<le> sum_list (map w hs) + queue_weight w s"
proof (induction hs arbitrary: s)
  case (Cons h hs)
  from Cons.IH [OF iter_unlock_ok(1) [OF Cons.prems]] iter_unlock_ok(2,3) [OF Cons.prems, where h = h]
  show ?case by (fastforce intro: order_trans)
qed simp

lemma iter_next_ok:
  assumes "links_ranked good rank (ti_all s)" "\<And>k. rank k < N" "iter_ok good s" "iter_next s = Some (tx, s')"
  shows "iter_ok good s' \<and> ti_all s' = ti_all s \<and> pool_tx_hash tx \<in> dom (hm_get (ti_all s)) \<and> good tx \<and>
    queue_weight (weight (ti_all s) N) s' < queue_weight (weight (ti_all s) N) s"
  using assms(1,3,4)
proof (induction s rule: iter_next.induct)
  case (1 s)
  let ?best = "last (ti_independent s)"
  let ?s = "s\<lparr>ti_independent := bts_remove ?best (ti_independent s)\<rparr>"
  let ?w = "weight (ti_all s) N"
  from "1.prems"(3) have ne: "ti_independent s \<noteq> []" by (subst (asm) iter_next.simps) (auto split: if_splits)
  have less: "queue_weight ?w ?s + ?w (ref_hash ?best) \<le> queue_weight ?w s"
    using bts_remove_weight [of ?best "ti_independent s" "?w \<circ> ref_hash"] ne by (simp add: queue_weight_def)
  have ok: "iter_ok good ?s" using "1.prems"(2) by (simp add: iter_ok_def set_bts_remove)
  show ?case
  proof (cases "hm_get (ti_all s) (ref_hash ?best)")
    case None
    have "iter_next ?s = Some (tx, s')"
      using "1.prems"(3) ne None by (subst (asm) iter_next.simps) (simp add: Let_def)
    from "1.IH" [OF ne refl refl _ _ ok this] None "1.prems"(1) less show ?thesis by simp
  next
    case (Some t)
    then have s': "tx = ref_transaction ?best" "s' = fold iter_unlock (unlocks t) ?s"
      using "1.prems"(3) ne by (subst (asm) iter_next.simps; simp add: Let_def)+
    from fold_iter_unlock_ok [OF ok, of "unlocks t" ?w] weight_unfold [OF "1.prems"(1) assms(2) Some] less Some
      "1.prems"(2) ne
    show ?thesis by (auto simp: s' ref_hash_def iter_ok_def)
  qed
qed

lemma iter_collect_returns:
  assumes "links_ranked good rank (ti_all s)" "\<And>k. rank k < N" "iter_ok good s"
  shows "queue_weight (weight (ti_all s) N) s < fuel \<Longrightarrow>
    \<exists>txs. iter_collect fuel s = Some txs \<and> pool_tx_hash ` set txs \<subseteq> dom (hm_get (ti_all s)) \<and>
      (\<forall>tx \<in> set txs. good tx)"
  using assms(1,3)
proof (induction fuel arbitrary: s)
  case (Suc fuel)
  show ?case
  proof (cases "iter_next s")
    case None
    then show ?thesis by simp
  next
    case (Some ts)
    obtain tx s' where ts: "ts = (tx, s')" by (cases ts)
    note N = iter_next_ok [OF Suc.prems(2) assms(2) Suc.prems(3) Some [unfolded ts]]
    then have "queue_weight (weight (ti_all s') N) s' < fuel" using Suc.prems(1) by simp
    from Suc.IH [OF this] N Suc.prems(2) obtain txs where
      "iter_collect fuel s' = Some txs" "pool_tx_hash ` set txs \<subseteq> dom (hm_get (ti_all s))" "\<forall>tx \<in> set txs. good tx"
      by auto
    with N Some ts show ?thesis by simp
  qed
qed simp

lemma iter_take_ready:
  "links_ranked good rank (ti_all s) \<Longrightarrow> iter_ok good s \<Longrightarrow> (\<And>k. rank k < N) \<Longrightarrow>
   pool_tx_hash ` set (iter_take n s) \<subseteq> dom (hm_get (ti_all s)) \<and> (\<forall>tx \<in> set (iter_take n s). good tx)"
proof (induction n arbitrary: s)
  case (Suc n)
  show ?case
  proof (cases "iter_next s")
    case (Some ts)
    obtain tx s' where ts: "ts = (tx, s')" by (cases ts)
    from iter_next_ok [OF Suc.prems(1,3,2) Some [unfolded ts]] Suc.IH [of s'] Suc.prems Some ts
    show ?thesis by auto
  qed simp
qed simp

lemma ready_iter_ok: "ready_signed good origin r \<Longrightarrow> iter_ok good (get_transactions r)"
  by (auto simp: iter_ok_def get_transactions_def ready_signed_def links_ranked_def entry_ranked_def)

lemma nonce_rank_less: "nonce_rank origin h < 2 ^ 64"
  using unsigned_less [of "snd (origin h)", where 'a = nat] by (simp add: nonce_rank_def)

lemma iter_collect_more: "iter_collect fuel s = Some txs \<Longrightarrow> fuel \<le> fuel' \<Longrightarrow> iter_collect fuel' s = Some txs"
proof (induction fuel arbitrary: s txs fuel')
  case (Suc fuel)
  obtain f where f: "fuel' = Suc f" "fuel \<le> f" using Suc.prems(2) by (cases fuel') simp_all
  show ?case
  proof (cases "iter_next s")
    case None
    with Suc.prems(1) f(1) show ?thesis by simp
  next
    case (Some ts)
    obtain tx s' where ts: "ts = (tx, s')" by (cases ts)
    with Suc.prems(1) Some obtain rest where "iter_collect fuel s' = Some rest" "txs = tx # rest" by auto
    with Suc.IH [OF _ f(2)] Some ts f(1) show ?thesis by simp
  qed
qed simp

lemma collect_ready:
  "links_ranked good rank (ti_all s) \<Longrightarrow> iter_ok good s \<Longrightarrow> (\<And>k. rank k < N) \<Longrightarrow> iter_collect fuel s = Some txs \<Longrightarrow>
   \<forall>tx \<in> set txs. good tx"
proof -
  assume A: "links_ranked good rank (ti_all s)" "iter_ok good s" "\<And>k. rank k < N" "iter_collect fuel s = Some txs"
  from iter_collect_returns [OF A(1,3,2) lessI] obtain fuel' txs' where
    c: "iter_collect fuel' s = Some txs'" "\<forall>tx \<in> set txs'. good tx"
    by blast
  from iter_collect_more [OF A(4), of "max fuel fuel'"] iter_collect_more [OF c(1), of "max fuel fuel'"] c(2)
  show ?thesis by simp
qed

lemma in_ready_dom: "in_ready p = dom (hm_get (ti_all (inner_ready_transactions p)))"
  by (auto simp: inner_ready_transactions_def get_transactions_def refs_def)

lemma ready_links:
  assumes "pool_signed good origin p"
  shows "links_ranked good (nonce_rank origin) (ti_all (inner_ready_transactions p))"
    "iter_ok good (inner_ready_transactions p)"
  using pool_signedD(1) [OF assms] ready_iter_ok [OF pool_signedD(1) [OF assms]]
  by (simp_all add: inner_ready_transactions_def get_transactions_def ready_signed_def)

lemma collect_returns:
  assumes "pool_signed good origin p"
  obtains fuel txs where "iter_collect fuel (inner_ready_transactions p) = Some txs"
    "pool_tx_hash ` set txs \<subseteq> in_ready p" "\<forall>tx \<in> set txs. good tx"
  using iter_collect_returns [OF ready_links(1) [OF assms] nonce_rank_less ready_links(2) [OF assms] lessI]
  unfolding in_ready_dom by blast

lemma collect_good:
  assumes "pool_signed good origin p" "iter_collect fuel (inner_ready_transactions p) = Some txs"
  shows "\<forall>tx \<in> set txs. good tx"
  using collect_ready [OF ready_links [OF assms(1)] nonce_rank_less assms(2)] .

lemma take_ready:
  assumes "pool_signed good origin p"
  shows "pool_tx_hash ` set (iter_take n (inner_ready_transactions p)) \<subseteq> in_ready p \<and>
    (\<forall>tx \<in> set (iter_take n (inner_ready_transactions p)). good tx)"
  using iter_take_ready [OF ready_links [OF assms] nonce_rank_less] unfolding in_ready_dom .

end
