(* ===== verification/Fees.thy ===== *)
theory Fees
  imports Typed_Transaction
begin

text \<open>
  Fees, \<^verbatim>\<open>anvil/src/eth/fees.rs\<close>: the fee manager, the cache behind
  \<^verbatim>\<open>eth_feeHistory\<close> and the fee fields of a request. The base-fee formulas are
  library functions and parameters. Floating-point results are opaque: the ratios are
  values of a type parameter, and the gas target of a percentile is a parameter.
\<close>

subsection \<open>The fee manager\<close>

record BlobExcessGasAndPrice =
  excess_blob_gas :: u64
  blob_gasprice :: u128

text \<open>The hard forks enter as numbers; the elasticity, a constant float, is left out.\<close>

record FeeManager =
  fm_spec_id :: u8
  fm_london :: u8
  fm_cancun :: u8
  fm_base_fee :: u64
  fm_min_priority_fee_enforced :: bool
  fm_blob_excess_gas_and_price :: BlobExcessGasAndPrice
  fm_gas_price :: u128

definition fm_is_eip1559 :: "FeeManager \<Rightarrow> bool" where
  "fm_is_eip1559 m = (fm_london m \<le> fm_spec_id m)"

definition fm_is_eip4844 :: "FeeManager \<Rightarrow> bool" where
  "fm_is_eip4844 m = (fm_cancun m \<le> fm_spec_id m)"

definition base_fee_per_blob_gas :: "FeeManager \<Rightarrow> u128" where
  "base_fee_per_blob_gas m =
     (if fm_is_eip4844 m then blob_gasprice (fm_blob_excess_gas_and_price m) else 0)"

definition blob_gas_price :: "FeeManager \<Rightarrow> u128" where
  "blob_gas_price m = (if fm_is_eip4844 m then base_fee_per_blob_gas m else 0)"

definition base_fee :: "FeeManager \<Rightarrow> u64" where
  "base_fee m = (if fm_is_eip1559 m then fm_base_fee m else 0)"

definition raw_gas_price :: "FeeManager \<Rightarrow> u128" where
  "raw_gas_price m = fm_gas_price m"

definition excess_blob_gas_and_price :: "FeeManager \<Rightarrow> BlobExcessGasAndPrice option" where
  "excess_blob_gas_and_price m =
     (if fm_is_eip4844 m then Some (fm_blob_excess_gas_and_price m) else None)"

definition set_gas_price :: "u128 \<Rightarrow> FeeManager \<Rightarrow> FeeManager" where
  "set_gas_price price m = m\<lparr>fm_gas_price := price\<rparr>"

definition set_base_fee :: "u64 \<Rightarrow> FeeManager \<Rightarrow> FeeManager" where
  "set_base_fee fee m = m\<lparr>fm_base_fee := fee\<rparr>"

definition set_blob_excess_gas_and_price :: "BlobExcessGasAndPrice \<Rightarrow> FeeManager \<Rightarrow> FeeManager" where
  "set_blob_excess_gas_and_price b m = m\<lparr>fm_blob_excess_gas_and_price := b\<rparr>"

text \<open>\<open>calc\<close> is the library's EIP-1559 formula with the Ethereum parameters.\<close>

definition calculate_next_block_base_fee ::
    "(u64 \<Rightarrow> u64 \<Rightarrow> u64 \<Rightarrow> u64) \<Rightarrow> u128 \<Rightarrow> u128 \<Rightarrow> u64 \<Rightarrow> u64" where
  "calculate_next_block_base_fee calc used limit fee =
     calc (ucast used) (ucast limit) fee"

definition get_next_block_base_fee_per_gas ::
    "(u64 \<Rightarrow> u64 \<Rightarrow> u64 \<Rightarrow> u64) \<Rightarrow> u128 \<Rightarrow> u128 \<Rightarrow> u64 \<Rightarrow> FeeManager \<Rightarrow> u64" where
  "get_next_block_base_fee_per_gas calc used limit last_fee_per_gas m =
     (if base_fee m = 0 then 0
      else calculate_next_block_base_fee calc used limit last_fee_per_gas)"

definition get_next_block_blob_base_fee_per_gas :: "(u64 \<Rightarrow> u128) \<Rightarrow> u128 \<Rightarrow> u128" where
  "get_next_block_blob_base_fee_per_gas calc_blob_gasprice excess =
     calc_blob_gasprice (ucast excess)"

definition get_next_block_blob_excess_gas :: "(u64 \<Rightarrow> u64 \<Rightarrow> u64) \<Rightarrow> u128 \<Rightarrow> u128 \<Rightarrow> u64" where
  "get_next_block_blob_excess_gas calc_excess_blob_gas blob_gas_used blob_excess_gas =
     calc_excess_blob_gas (ucast blob_gas_used) (ucast blob_excess_gas)"

subsection \<open>The fee history cache\<close>

record 'f FeeHistoryCacheItem =
  ci_base_fee :: u128
  ci_gas_used_ratio :: 'f
  ci_base_fee_per_blob_gas :: "u128 option"
  ci_blob_gas_used_ratio :: 'f
  ci_excess_blob_gas :: "u128 option"
  ci_blob_gas_used :: "u128 option"
  ci_rewards :: "u128 list"

record Header =
  h_number :: u64
  h_gas_used :: u64
  h_gas_limit :: u64
  h_base_fee_per_gas :: "u64 option"
  h_excess_blob_gas :: "u64 option"
  h_blob_gas_used :: "u64 option"

text \<open>
  The floating-point operations: the zero ratio, the ratio of two gas amounts, the ratio of
  a block's blob gas to the maximum, and the target \<^verbatim>\<open>(p * gas_used / 100) as u64\<close> of
  the \<open>i\<close>-th percentile \<open>p = i / 2\<close>.
\<close>

record 'f float_ops =
  fl_zero :: 'f
  fl_ratio :: "u64 \<Rightarrow> u64 \<Rightarrow> 'f"
  fl_blob_ratio :: "u64 \<Rightarrow> 'f"
  fl_target :: "nat \<Rightarrow> u64 \<Rightarrow> u64"

fun effective_reward :: "u128 \<Rightarrow> TypedTransaction option \<Rightarrow> u128" where
  "effective_reward fee (Some (Legacy t)) = saturating_sub (l_gas_price (sg_tx t)) fee"
| "effective_reward fee (Some (EIP2930 t)) = saturating_sub (a_gas_price (sg_tx t)) fee"
| "effective_reward fee (Some (EIP1559 t)) =
     min (f_max_priority_fee_per_gas (sg_tx t)) (saturating_sub (f_max_fee_per_gas (sg_tx t)) fee)"
| "effective_reward fee (Some (EIP4844 t)) =
     min (b_max_priority_fee_per_gas (sg_tx t)) (saturating_sub (b_max_fee_per_gas (sg_tx t)) fee)"
| "effective_reward fee (Some (EIP7702 t)) =
     min (d_max_priority_fee_per_gas (sg_tx t)) (saturating_sub (d_max_fee_per_gas (sg_tx t)) fee)"
| "effective_reward fee (Some (Deposit _)) = 0"
| "effective_reward fee None = 0"

text \<open>The inner loop: the reward of the first transaction at which the summed gas reaches the target.\<close>

fun reward_at :: "u64 \<Rightarrow> u64 \<Rightarrow> (u64 \<times> u128) list \<Rightarrow> u128 option" where
  "reward_at target_gas sum_gas [] = None"
| "reward_at target_gas sum_gas ((gas_used, reward) # txs) =
     (let sum' = sum_gas + gas_used
      in if target_gas \<le> sum' then Some reward else reward_at target_gas sum' txs)"

text \<open>
  \<open>stored\<close> is the answer of the storage for the hash: the block's header and transactions
  and the cumulative gas of its receipts.
\<close>

definition create_cache_entry ::
    "'f float_ops \<Rightarrow> (Header \<Rightarrow> u128 option) \<Rightarrow>
     (Header \<times> TypedTransaction list \<times> u64 list) option \<Rightarrow> Header \<Rightarrow>
     'f FeeHistoryCacheItem \<times> u64 option" where
  "create_cache_entry fl blob_fee stored header =
     (let fee = (case h_base_fee_per_gas header of Some g \<Rightarrow> ucast g | None \<Rightarrow> 0);
          item = \<lparr>ci_base_fee = fee, ci_gas_used_ratio = fl_zero fl,
                  ci_base_fee_per_blob_gas = blob_fee header,
                  ci_blob_gas_used_ratio = fl_zero fl,
                  ci_excess_blob_gas = map_option ucast (h_excess_blob_gas header),
                  ci_blob_gas_used = map_option ucast (h_blob_gas_used header), ci_rewards = []\<rparr>
      in case stored of
           None \<Rightarrow> (item\<lparr>ci_rewards := replicate 201 0\<rparr>, None)
         | Some (block, txs, receipts) \<Rightarrow>
             let transactions =
                   sort_key snd
                     (map (\<lambda>(i, gas_used).
                             (gas_used,
                              effective_reward fee (if i < length txs then Some (txs ! i) else None)))
                        (enumerate 0 receipts))
             in (item\<lparr>ci_gas_used_ratio := fl_ratio fl (h_gas_used block) (h_gas_limit block),
                      ci_blob_gas_used_ratio :=
                        (case h_blob_gas_used block of
                           Some g \<Rightarrow> fl_blob_ratio fl g | None \<Rightarrow> fl_zero fl),
                      ci_rewards :=
                        List.map_filter
                          (\<lambda>i. reward_at (fl_target fl i (h_gas_used block)) 0 transactions)
                          [0..<201]\<rparr>,
                 Some (h_number block)))"

text \<open>The cache is a map from block numbers; \<open>pop_next - num\<close> wraps as in a release build.\<close>

fun remove_old :: "u64 \<Rightarrow> nat list \<Rightarrow> (u64, 'i) hmap \<Rightarrow> (u64, 'i) hmap" where
  "remove_old pop_next [] cache = cache"
| "remove_old pop_next (num # nums) cache =
     remove_old pop_next nums (hm_remove (pop_next - of_nat num) cache)"

definition insert_cache_entry ::
    "u64 \<Rightarrow> 'i \<Rightarrow> u64 option \<Rightarrow> (u64, 'i) hmap \<Rightarrow> (u64, 'i) hmap" where
  "insert_cache_entry limit item block_number cache =
     (case block_number of
        None \<Rightarrow> cache
      | Some n \<Rightarrow>
          let cache' = hm_insert n item cache;
              pop_next = saturating_sub n limit;
              num_remove = length cache' - unat limit
          in remove_old pop_next [0..<num_remove] cache')"

definition insert_cache_entry_for_block ::
    "'f float_ops \<Rightarrow> (Header \<Rightarrow> u128 option) \<Rightarrow> u64 \<Rightarrow>
     (Header \<times> TypedTransaction list \<times> u64 list) option \<Rightarrow> Header \<Rightarrow>
     (u64, 'f FeeHistoryCacheItem) hmap \<Rightarrow> (u64, 'f FeeHistoryCacheItem) hmap" where
  "insert_cache_entry_for_block fl blob_fee limit stored header cache =
     (let (item, n) = create_cache_entry fl blob_fee stored header
      in insert_cache_entry limit item n cache)"

subsection \<open>Fee fields of a request\<close>

record FeeDetails =
  fd_gas_price :: "u128 option"
  fd_max_fee_per_gas :: "u128 option"
  fd_max_priority_fee_per_gas :: "u128 option"
  fd_max_fee_per_blob_gas :: "u128 option"

definition FeeDetails_zero :: FeeDetails where
  "FeeDetails_zero =
     \<lparr>fd_gas_price = Some 0, fd_max_fee_per_gas = Some 0, fd_max_priority_fee_per_gas = Some 0,
      fd_max_fee_per_blob_gas = None\<rparr>"

definition or_zero_fees :: "FeeDetails \<Rightarrow> FeeDetails" where
  "or_zero_fees d =
     (let no_fees = (fd_gas_price d = None \<and> fd_max_fee_per_gas d = None)
      in \<lparr>fd_gas_price = (if no_fees then Some 0 else fd_gas_price d),
          fd_max_fee_per_gas = (if no_fees then Some 0 else fd_max_fee_per_gas d),
          fd_max_priority_fee_per_gas = fd_max_priority_fee_per_gas d,
          fd_max_fee_per_blob_gas = (if no_fees then None else fd_max_fee_per_blob_gas d)\<rparr>)"

definition FeeDetails_split ::
    "FeeDetails \<Rightarrow> u128 option \<times> u128 option \<times> u128 option \<times> u128 option" where
  "FeeDetails_split d =
     (fd_gas_price d, fd_max_fee_per_gas d, fd_max_priority_fee_per_gas d, fd_max_fee_per_blob_gas d)"

datatype FeeError = InvalidFeeInput

definition dynamic_fee_details ::
    "u128 option \<Rightarrow> u128 option \<Rightarrow> u128 option \<Rightarrow> FeeError + FeeDetails" where
  "dynamic_fee_details max_fee max_priority blob =
     (if (case max_priority of
            Some prio \<Rightarrow> (case max_fee of Some f \<Rightarrow> f | None \<Rightarrow> 0) < prio
          | None \<Rightarrow> False)
      then Inl InvalidFeeInput
      else Inr \<lparr>fd_gas_price = max_fee, fd_max_fee_per_gas = max_fee,
                fd_max_priority_fee_per_gas = max_priority, fd_max_fee_per_blob_gas = blob\<rparr>)"

fun FeeDetails_new ::
    "u128 option \<Rightarrow> u128 option \<Rightarrow> u128 option \<Rightarrow> u128 option \<Rightarrow> FeeError + FeeDetails" where
  "FeeDetails_new price None None None =
     Inr \<lparr>fd_gas_price = price, fd_max_fee_per_gas = price,
          fd_max_priority_fee_per_gas = price, fd_max_fee_per_blob_gas = None\<rparr>"
| "FeeDetails_new _ max_fee max_priority None = dynamic_fee_details max_fee max_priority None"
| "FeeDetails_new _ max_fee max_priority blob = dynamic_fee_details max_fee max_priority blob"
subsection \<open>Properties\<close>

lemma reward_at_mono:
  assumes "sorted (map snd txs)" "t \<le> t'" "reward_at t s txs = Some r" "reward_at t' s txs = Some r'"
  shows "r \<le> r'"
  using assms
proof (induction txs arbitrary: s)
  case (Cons x txs)
  obtain g w where x: "x = (g, w)" by (cases x)
  have "w \<le> r''" if "reward_at t'' s'' txs = Some r''" for t'' s'' r''
    using that Cons.prems(1)
    by (induction txs arbitrary: s'') (auto simp: x Let_def split: if_splits)
  with Cons show ?case by (auto simp: x Let_def split: if_splits)
qed simp

lemma sorted_map_filter_mono:
  assumes "\<And>i j r r'. i \<le> j \<Longrightarrow> j < n \<Longrightarrow> f i = Some r \<Longrightarrow> f j = Some r' \<Longrightarrow> r \<le> r'"
  shows "sorted (List.map_filter f [m..<n])"
  using assms
proof (induction n)
  case 0
  then show ?case by (simp add: map_filter_def)
next
  case (Suc n)
  have "sorted (List.map_filter f [m..<n])" by (rule Suc.IH) (rule Suc.prems; simp)
  moreover have "\<forall>r' \<in> set (List.map_filter f [m..<n]). r' \<le> r" if "f n = Some r" for r
  proof
    fix r' assume "r' \<in> set (List.map_filter f [m..<n])"
    then obtain i where "i < n" "f i = Some r'" by (auto simp: map_filter_def)
    with Suc.prems [of i n r' r] that show "r' \<le> r" by simp
  qed
  ultimately show ?case by (auto simp: map_filter_def sorted_append)
qed

text \<open>
  The rewards of a history item never decrease with the percentile, provided the
  gas targets do not, and there are at most 201 of them; a block the storage does not
  know gets 201 zeros.
\<close>

theorem rewards_sorted:
  assumes "\<And>i j g. i \<le> j \<Longrightarrow> fl_target fl i g \<le> fl_target fl j g"
  shows "sorted (ci_rewards (fst (create_cache_entry fl blob_fee stored header))) \<and>
    length (ci_rewards (fst (create_cache_entry fl blob_fee stored header))) \<le> 201 \<and>
    (stored = None \<longrightarrow> ci_rewards (fst (create_cache_entry fl blob_fee stored header)) = replicate 201 0)"
proof (cases stored)
  case None
  then show ?thesis by (simp add: create_cache_entry_def Let_def)
next
  case (Some x)
  obtain block txs receipts where x: "x = (block, txs, receipts)" by (cases x) auto
  let ?fee = "case h_base_fee_per_gas header of Some g \<Rightarrow> ucast g | None \<Rightarrow> 0"
  let ?txs = "sort_key snd (map (\<lambda>(i, gas_used). (gas_used, effective_reward ?fee
        (if i < length txs then Some (txs ! i) else None))) (enumerate 0 receipts))"
  let ?f = "\<lambda>i. reward_at (fl_target fl i (h_gas_used block)) 0 ?txs"
  have r: "ci_rewards (fst (create_cache_entry fl blob_fee stored header)) = List.map_filter ?f [0..<201]"
    by (simp add: create_cache_entry_def Let_def Some x)
  have "sorted (map snd ?txs)" by simp
  then have "sorted (List.map_filter ?f [0..<201])"
    by (intro sorted_map_filter_mono) (use assms reward_at_mono in blast)
  moreover have "length (List.map_filter ?f [0..<201]) \<le> 201"
    unfolding map_filter_def using length_filter_le [of "\<lambda>i. ?f i \<noteq> None" "[0..<201]"] by simp
  ultimately show ?thesis unfolding r using Some by simp
qed

theorem rewards_sorted_witness:
  "sorted (ci_rewards (fst (create_cache_entry
      \<lparr>fl_zero = (), fl_ratio = (\<lambda>_ _. ()), fl_blob_ratio = (\<lambda>_. ()), fl_target = (\<lambda>i g. if i < 100 then 0 else g)\<rparr>
      (\<lambda>_. None)
      (Some (\<lparr>h_number = 1, h_gas_used = 5, h_gas_limit = 9, h_base_fee_per_gas = None,
              h_excess_blob_gas = None, h_blob_gas_used = None\<rparr>, [], [3, 5]))
      \<lparr>h_number = 1, h_gas_used = 5, h_gas_limit = 9, h_base_fee_per_gas = Some 2,
       h_excess_blob_gas = None, h_blob_gas_used = None\<rparr>)))"
  by (rule rewards_sorted [THEN conjunct1]) simp

text \<open>The window of the cache after the blocks \<open>start\<close> to \<open>N - 1\<close>, with at most \<open>L\<close> entries.\<close>

definition cache_window :: "nat \<Rightarrow> nat \<Rightarrow> nat \<Rightarrow> (u64 \<Rightarrow> 'i) \<Rightarrow> (u64, 'i) hmap \<Rightarrow> bool" where
  "cache_window start N L f c =
     (hm_wf c \<and> length c = min (N - start) L \<and>
      (\<forall>n. hm_get c n =
         (if start \<le> unat n \<and> unat n < N \<and> N \<le> unat n + L then Some (f n) else None)))"

lemma length_hm_insert_new: "hm_get m k = None \<Longrightarrow> length (hm_insert k v m) = Suc (length m)"
  by (induction m) (auto split: if_splits)

lemma cache_window_insert:
  assumes win: "cache_window start N (unat limit) f c" and N: "start \<le> N" "N < 2 ^ 64"
  shows "cache_window start (Suc N) (unat limit) f (insert_cache_entry limit (f (of_nat N)) (Some (of_nat N)) c)"
proof -
  let ?n = "of_nat N :: u64" and ?L = "unat limit"
  have un: "unat ?n = N" using N(2) by (simp add: unat_of_nat take_bit_nat_eq_self)
  from win have wf: "hm_wf c" and len: "length c = min (N - start) ?L"
    and get: "\<And>n. hm_get c n = (if start \<le> unat n \<and> unat n < N \<and> N \<le> unat n + ?L then Some (f n) else None)"
    by (simp_all add: cache_window_def)
  let ?c = "hm_insert ?n (f ?n) c"
  have len1: "length ?c = Suc (min (N - start) ?L)"
    using get [of ?n] by (simp add: length_hm_insert_new un len)
  have get1: "hm_get ?c n = (if start \<le> unat n \<and> unat n < Suc N \<and> N \<le> unat n + ?L then Some (f n) else None)" for n
    using get [of n] N(1) un by (auto simp: hm_simps less_Suc_eq word_unat_eq_iff)
  show ?thesis
  proof (cases "N - start < ?L")
    case True
    then have "hm_get ?c n = (if start \<le> unat n \<and> unat n < Suc N \<and> Suc N \<le> unat n + ?L then Some (f n) else None)" for n
      unfolding get1 by auto
    with True wf len1 N(1) show ?thesis
      by (simp add: insert_cache_entry_def Let_def cache_window_def Suc_diff_le)
  next
    case False
    have k: "unat (saturating_sub ?n limit) = N - ?L" by (simp add: unat_saturating_sub un)
    have num: "length ?c - ?L = 1" using False len1 by simp
    have "insert_cache_entry limit (f ?n) (Some ?n) c = hm_remove (saturating_sub ?n limit) ?c"
      by (simp add: insert_cache_entry_def Let_def num)
    moreover have "hm_get (hm_remove (saturating_sub ?n limit) ?c) n =
        (if start \<le> unat n \<and> unat n < Suc N \<and> Suc N \<le> unat n + ?L then Some (f n) else None)" for n
      using False k by (auto simp: hm_get_remove get1 word_unat_eq_iff)
    moreover have "length (hm_remove (saturating_sub ?n limit) ?c) = ?L"
    proof -
      have "hm_get ?c (saturating_sub ?n limit) \<noteq> None" using False N by (auto simp: get1 k)
      from length_hm_remove [OF hm_wf_insert [OF wf] this] len1 False show ?thesis by simp
    qed
    ultimately show ?thesis using wf False by (simp add: cache_window_def)
  qed
qed

text \<open>
  C36: The fee history cache is a sliding window: after consecutive blocks it holds exactly
  the entries of the newest ones, as many as the limit allows, and no others.
\<close>

theorem fee_history_window:
  assumes "start + k \<le> 2 ^ 64"
  shows "cache_window start (start + k) (unat limit) f
    (fold (\<lambda>n. insert_cache_entry limit (f n) (Some n)) (map of_nat [start..<start + k]) [])"
  using assms
proof (induction k)
  case 0
  then show ?case by (auto simp: cache_window_def)
next
  case (Suc k)
  then show ?case using cache_window_insert [of start "start + k" limit f] by simp
qed

theorem fee_history_window_witness:
  "cache_window 5 9 (unat (2 :: u64)) (\<lambda>n. n + 1)
    (fold (\<lambda>n. insert_cache_entry 2 (n + 1) (Some n)) (map of_nat [5..<5 + 4]) [])"
  using fee_history_window [of 5 4 2 "\<lambda>n. n + 1"] by simp

text \<open>
  The fees of a request are rejected exactly when a priority fee above the maximum fee
  is given with one of the EIP-1559 fields; otherwise the priority fee is at most the
  maximum fee, or the request is a legacy one and all fees are its gas price.
\<close>

theorem fee_details_valid:
  "(FeeDetails_new price max_fee prio blob = Inl InvalidFeeInput \<longleftrightarrow>
     (\<exists>p. prio = Some p \<and> (case max_fee of Some f \<Rightarrow> f | None \<Rightarrow> 0) < p)) \<and>
   (\<forall>d p f. FeeDetails_new price max_fee prio blob = Inr d \<and>
      fd_max_priority_fee_per_gas d = Some p \<and> fd_max_fee_per_gas d = Some f \<longrightarrow> p \<le> f)"
  by (cases max_fee; cases prio; cases blob)
     (auto simp: dynamic_fee_details_def split: if_splits)

theorem fee_details_valid_witness:
  "\<exists>d. FeeDetails_new None (Some 10) (Some 3) None = Inr d \<and>
     fd_max_priority_fee_per_gas d = Some 3 \<and> fd_max_fee_per_gas d = Some 10 \<and> (3 :: u128) \<le> 10"
  using fee_details_valid [of None "Some 10" "Some 3" None]
  by (auto simp: dynamic_fee_details_def)

end
