(* ===== verification/Tx_Validation.thy ===== *)
theory Tx_Validation
  imports Fees
begin

text \<open>
  Validation of transactions against the state of the sender and the next block:
  the implementation of \<open>TransactionValidator\<close> for the backend
  (\<^verbatim>\<open>anvil/src/eth/backend/mem/mod.rs\<close>) with its error type
  (\<^verbatim>\<open>anvil/src/eth/error.rs\<close>). The checks are made in the order of the source, and the
  narrowing conversions \<^verbatim>\<open>to()\<close> panic when the value does not fit. The numbers of the
  hard forks, the blob limit and the validation of blob proofs belong to libraries and are
  parameters.
\<close>

subsection \<open>Errors\<close>

text \<open>
  The errors of the interpreter that the source names; the payloads its conversion ignores
  are left out, and the optimism error is opaque.
\<close>

datatype RevmInvalidTransaction =
    RevmInvalidChainId | PriorityFeeGreaterThanMaxFee | GasPriceLessThanBasefee
  | CallerGasLimitMoreThanBlock | CallGasCostMoreThanGasLimit | GasFloorMoreThanGasLimit
  | RejectCallerWithCode | LackOfFundForMaxFee | OverflowPaymentInTransaction
  | NonceOverflowInTransaction | CreateInitCodeSizeLimit | RevmNonceTooHigh | RevmNonceTooLow
  | RevmAccessListNotSupported | BlobGasPriceGreaterThanMax | RevmBlobVersionedHashesNotSupported
  | RevmMaxFeePerBlobGasNotSupported | RevmBlobCreateTransaction | RevmBlobVersionNotSupported
  | RevmEmptyBlobs | RevmTooManyBlobs nat | RevmAuthorizationListNotSupported
  | AuthorizationListInvalidFields | OptimismError nat | EofCrateShouldHaveToAddress
  | EmptyAuthorizationList

datatype 'v InvalidTransactionError =
    NonceTooLow | NonceTooHigh | NonceMaxValue | InsufficientFundsForTransfer
  | MaxInitCodeSizeExceeded | InsufficientFunds | GasUintOverflow | GasTooLow
  | GasTooHigh string | TipAboveFeeCap | FeeCapTooLow | BasicOutOfGas u128
  | Revert "bytes option" | SenderNoEOA | InvalidChainId | IncompatibleEIP155
  | AccessListNotSupported | BlobFeeCapTooLow | BlobVersionedHashesNotSupported
  | MaxFeePerBlobGasNotSupported | NoBlobHashes | TooManyBlobs nat
  | BlobTransactionValidationError 'v | BlobCreateTransaction | BlobVersionNotSupported
  | EmptyBlobs | AuthorizationListNotSupported | Revm RevmInvalidTransaction

fun from_revm :: "RevmInvalidTransaction \<Rightarrow> 'v InvalidTransactionError" where
  "from_revm RevmInvalidChainId = InvalidChainId"
| "from_revm PriorityFeeGreaterThanMaxFee = TipAboveFeeCap"
| "from_revm GasPriceLessThanBasefee = FeeCapTooLow"
| "from_revm CallerGasLimitMoreThanBlock = GasTooHigh ''CallerGasLimitMoreThanBlock''"
| "from_revm CallGasCostMoreThanGasLimit = GasTooHigh ''CallGasCostMoreThanGasLimit''"
| "from_revm GasFloorMoreThanGasLimit = GasTooHigh ''CallGasCostMoreThanGasLimit''"
| "from_revm RejectCallerWithCode = SenderNoEOA"
| "from_revm LackOfFundForMaxFee = InsufficientFunds"
| "from_revm OverflowPaymentInTransaction = GasUintOverflow"
| "from_revm NonceOverflowInTransaction = NonceMaxValue"
| "from_revm CreateInitCodeSizeLimit = MaxInitCodeSizeExceeded"
| "from_revm RevmNonceTooHigh = NonceTooHigh"
| "from_revm RevmNonceTooLow = NonceTooLow"
| "from_revm RevmAccessListNotSupported = AccessListNotSupported"
| "from_revm BlobGasPriceGreaterThanMax = BlobFeeCapTooLow"
| "from_revm RevmBlobVersionedHashesNotSupported = BlobVersionedHashesNotSupported"
| "from_revm RevmMaxFeePerBlobGasNotSupported = MaxFeePerBlobGasNotSupported"
| "from_revm RevmBlobCreateTransaction = BlobCreateTransaction"
| "from_revm RevmBlobVersionNotSupported = BlobVersionNotSupported"
| "from_revm RevmEmptyBlobs = EmptyBlobs"
| "from_revm (RevmTooManyBlobs have) = TooManyBlobs have"
| "from_revm RevmAuthorizationListNotSupported = AuthorizationListNotSupported"
| "from_revm AuthorizationListInvalidFields = Revm AuthorizationListInvalidFields"
| "from_revm (OptimismError e) = Revm (OptimismError e)"
| "from_revm EofCrateShouldHaveToAddress = Revm EofCrateShouldHaveToAddress"
| "from_revm EmptyAuthorizationList = Revm EmptyAuthorizationList"

subsection \<open>Environment\<close>

record BlockEnv =
  be_number :: u256
  be_coinbase :: address
  be_timestamp :: u256
  be_gas_limit :: u256
  be_basefee :: u256
  be_difficulty :: u256
  be_prevrandao :: "B256 option"
  be_blob_excess_gas_and_price :: "BlobExcessGasAndPrice option"

record CfgEnv =
  cfg_chain_id :: u64
  cfg_disable_block_gas_limit :: bool
  cfg_disable_base_fee :: bool
  cfg_spec_id :: u8
  cfg_is_optimism :: bool

record AccountInfo =
  acc_balance :: u256
  acc_nonce :: u64

record 'v validation_lib =
  fork_spurious_dragon :: u8
  fork_london :: u8
  fork_shanghai :: u8
  fork_cancun :: u8
  fork_prague :: u8
  max_blobs_per_block :: nat
  blob_gas_of :: "TxEip4844 \<Rightarrow> u64"
  blob_validate :: "TxEip4844 \<Rightarrow> 'v option"

definition MIN_TRANSACTION_GAS :: u128 where
  "MIN_TRANSACTION_GAS = 21000"

subsection \<open>The checks\<close>

text \<open>An early return with an error.\<close>

fun and_then :: "'e + unit \<Rightarrow> 'e + unit \<Rightarrow> 'e + unit" where
  "and_then (Inl e) r = Inl e"
| "and_then (Inr _) r = r"

lemma and_then_Inr_iff: "and_then a b = Inr () \<longleftrightarrow> a = Inr () \<and> b = Inr ()"
  by (cases a) auto

definition check_chain_id ::
    "'v validation_lib \<Rightarrow> u64 \<Rightarrow> TypedTransaction \<Rightarrow> CfgEnv \<Rightarrow> 'v InvalidTransactionError + unit" where
  "check_chain_id lib chain tx cfg =
     (case Typed_Transaction.chain_id tx of
        None \<Rightarrow> Inr ()
      | Some tx_chain_id \<Rightarrow>
          if chain \<noteq> tx_chain_id then
            (case as_legacy tx of
               Some legacy \<Rightarrow>
                 if fork_spurious_dragon lib \<le> cfg_spec_id cfg \<and> l_chain_id (sg_tx legacy) = None
                 then Inl IncompatibleEIP155 else Inr ()
             | None \<Rightarrow> Inl InvalidChainId)
          else Inr ())"

definition check_gas ::
    "TypedTransaction \<Rightarrow> CfgEnv \<Rightarrow> BlockEnv \<Rightarrow> ('v InvalidTransactionError + unit) rust" where
  "check_gas tx cfg block =
     (if gas_limit tx < ucast MIN_TRANSACTION_GAS then Ret (Inl GasTooLow)
      else if cfg_disable_block_gas_limit cfg then Ret (Inr ())
      else rbind (u256_to_u64 (be_gas_limit block)) (\<lambda>limit.
        if limit < gas_limit tx
        then Ret (Inl (GasTooHigh ''tx.gas_limit > env.block.gas_limit'')) else Ret (Inr ())))"

definition check_nonce :: "TypedTransaction \<Rightarrow> AccountInfo \<Rightarrow> 'v InvalidTransactionError + unit" where
  "check_nonce tx account =
     (if tx_nonce tx < acc_nonce account \<and> \<not> is_deposit tx then Inl NonceTooLow else Inr ())"

definition check_fees ::
    "'v validation_lib \<Rightarrow> TypedTransaction \<Rightarrow> CfgEnv \<Rightarrow> BlockEnv \<Rightarrow>
     ('v InvalidTransactionError + unit) rust" where
  "check_fees lib tx cfg block =
     (if fork_london lib \<le> cfg_spec_id cfg then
        rbind (u256_to_u128 (be_basefee block)) (\<lambda>basefee.
          if gas_price tx < basefee \<and> \<not> is_deposit tx then Ret (Inl FeeCapTooLow)
          else case (e_max_priority_fee_per_gas (essentials tx), e_max_fee_per_gas (essentials tx)) of
                 (Some max_priority_fee, Some max_fee) \<Rightarrow>
                   if max_fee < max_priority_fee then Ret (Inl TipAboveFeeCap) else Ret (Inr ())
               | _ \<Rightarrow> Ret (Inr ()))
      else Ret (Inr ()))"

definition check_blobs ::
    "'v validation_lib \<Rightarrow> TypedTransaction \<Rightarrow> CfgEnv \<Rightarrow> BlockEnv \<Rightarrow>
     'v InvalidTransactionError + unit" where
  "check_blobs lib tx cfg block =
     (case tx of
        EIP4844 stx \<Rightarrow>
          if fork_cancun lib \<le> cfg_spec_id cfg then
            and_then
            (case (e_max_fee_per_blob_gas (essentials tx), be_blob_excess_gas_and_price block) of
               (Some max_fee, Some blob) \<Rightarrow>
                 if max_fee < blob_gasprice blob then Inl BlobFeeCapTooLow else Inr ()
             | _ \<Rightarrow> Inr ())
            (let blob_count = length (b_blob_versioned_hashes (sg_tx stx)) in
             if blob_count = 0 then Inl NoBlobHashes
             else if max_blobs_per_block lib < blob_count then Inl (TooManyBlobs blob_count)
             else case blob_validate lib (sg_tx stx) of
                    Some err \<Rightarrow> Inl (BlobTransactionValidationError err)
                  | None \<Rightarrow> Inr ())
          else Inr ()
      | _ \<Rightarrow> Inr ())"

definition check_funds ::
    "'v validation_lib \<Rightarrow> TypedTransaction \<Rightarrow> AccountInfo \<Rightarrow> ('v InvalidTransactionError + unit) rust" where
  "check_funds lib tx account =
     (case tx of
        Deposit deposit_tx \<Rightarrow>
          if acc_balance account + dep_mint deposit_tx < tx_value tx
          then Ret (Inl InsufficientFunds) else Ret (Inr ())
      | _ \<Rightarrow>
          rbind (u256_to_u128 (tx_value tx)) (\<lambda>value.
            if unat (max_cost (blob_gas_of lib) tx) + unat value < 2 ^ 128 then
              (if acc_balance account < ucast (max_cost (blob_gas_of lib) tx + value)
               then Ret (Inl InsufficientFunds) else Ret (Inr ()))
            else Ret (Inl InsufficientFunds)))"

definition validate_pool_transaction_for ::
    "'v validation_lib \<Rightarrow> u64 \<Rightarrow> PendingTransaction \<Rightarrow> AccountInfo \<Rightarrow> CfgEnv \<Rightarrow> BlockEnv \<Rightarrow>
     ('v InvalidTransactionError + unit) rust" where
  "validate_pool_transaction_for lib chain pending account cfg block =
     (let tx = pt_typed pending in
      rtry (Ret (check_chain_id lib chain tx cfg)) (\<lambda>_.
      rtry (check_gas tx cfg block) (\<lambda>_.
      rtry (Ret (check_nonce tx account)) (\<lambda>_.
      rtry (check_fees lib tx cfg block) (\<lambda>_.
      rtry (Ret (check_blobs lib tx cfg block)) (\<lambda>_.
      check_funds lib tx account))))))"

definition validate_for ::
    "'v validation_lib \<Rightarrow> u64 \<Rightarrow> PendingTransaction \<Rightarrow> AccountInfo \<Rightarrow> CfgEnv \<Rightarrow> BlockEnv \<Rightarrow>
     ('v InvalidTransactionError + unit) rust" where
  "validate_for lib chain pending account cfg block =
     rtry (validate_pool_transaction_for lib chain pending account cfg block) (\<lambda>_.
     if acc_nonce account < pt_nonce pending then Ret (Inl NonceTooHigh) else Ret (Inr ()))"

subsection \<open>What an accepted transaction satisfies\<close>

lemma u256_to_u64_Ret: "unat v < 2 ^ 64 \<Longrightarrow> u256_to_u64 v = Ret (ucast v)"
  by (simp add: u256_to_u64_def)

lemma u256_to_u128_Ret: "unat v < 2 ^ 128 \<Longrightarrow> u256_to_u128 v = Ret (ucast v)"
  by (simp add: u256_to_u128_def)

lemmas validate_iffs = rtry_Ret_Inr_iff rbind_Ret_iff

lemma check_chain_id_iff:
  "check_chain_id lib chain tx cfg = Inr () \<longleftrightarrow>
     (\<forall>c. Typed_Transaction.chain_id tx = Some c \<longrightarrow> c = chain \<or> is_legacy tx)"
  by (cases tx) (auto simp: check_chain_id_def split: option.split)

lemma check_gas_iff:
  assumes "unat (be_gas_limit block) < 2 ^ 64"
  shows "check_gas tx cfg block = Ret (Inr ()) \<longleftrightarrow>
    21000 \<le> unat (gas_limit tx) \<and>
    (cfg_disable_block_gas_limit cfg \<or> unat (gas_limit tx) \<le> unat (be_gas_limit block))"
proof -
  have "unat (ucast (be_gas_limit block) :: u64) = unat (be_gas_limit block)"
    using assms by (intro unat_ucast_down) simp
  moreover have "unat (ucast MIN_TRANSACTION_GAS :: u64) = 21000"
    by (simp add: MIN_TRANSACTION_GAS_def)
  ultimately show ?thesis
    using assms by (auto simp: check_gas_def u256_to_u64_Ret word_less_nat_alt)
qed

lemma check_nonce_iff:
  "check_nonce tx account = Inr () \<longleftrightarrow> is_deposit tx \<or> acc_nonce account \<le> tx_nonce tx"
  by (auto simp: check_nonce_def)

text \<open>The priority fee is at most the maximum fee, for the transactions that have both.\<close>

definition tip_ok :: "TypedTransaction \<Rightarrow> bool" where
  "tip_ok tx =
     (case (e_max_priority_fee_per_gas (essentials tx), e_max_fee_per_gas (essentials tx)) of
        (Some p, Some f) \<Rightarrow> p \<le> f | _ \<Rightarrow> True)"

lemma check_fees_iff:
  assumes "unat (be_basefee block) < 2 ^ 128"
  shows "check_fees lib tx cfg block = Ret (Inr ()) \<longleftrightarrow>
    (fork_london lib \<le> cfg_spec_id cfg \<longrightarrow>
       (is_deposit tx \<or> unat (be_basefee block) \<le> unat (gas_price tx)) \<and> tip_ok tx)"
proof -
  have "unat (ucast (be_basefee block) :: u128) = unat (be_basefee block)"
    using assms by (intro unat_ucast_down) simp
  then show ?thesis
    using assms
    by (auto simp: check_fees_def tip_ok_def u256_to_u128_Ret word_less_nat_alt not_less word_le_nat_alt
        split: option.split)
qed

text \<open>
  The cost an account must cover: the gas cost, capped at the largest 128-bit number, plus the
  value.
\<close>

definition required_funds :: "TypedTransaction \<Rightarrow> nat" where
  "required_funds tx =
     min (unat (gas_limit tx) * unat (gas_price tx)) (2 ^ 128 - 1) + unat (tx_value tx)"

lemma check_funds_iff:
  assumes "unat (tx_value tx) < 2 ^ 128" "\<not> is_eip4844 tx" "\<not> is_deposit tx"
  shows "check_funds lib tx account = Ret (Inr ()) \<longleftrightarrow>
    required_funds tx < 2 ^ 128 \<and> required_funds tx \<le> unat (acc_balance account)"
proof -
  let ?c = "max_cost (blob_gas_of lib) tx" and ?v = "ucast (tx_value tx) :: u128"
  have v: "unat ?v = unat (tx_value tx)"
    using assms(1) by (intro unat_ucast_down) simp
  have req: "unat ?c + unat ?v = required_funds tx"
    using unat_max_cost [OF assms(2)] by (simp add: required_funds_def v)
  have sum: "unat (ucast (?c + ?v) :: u256) = required_funds tx" if "required_funds tx < 2 ^ 128"
    using that req by (simp add: unat_ucast_up unat_word_ariths)
  from assms(3) have "check_funds lib tx account =
      (if required_funds tx < 2 ^ 128 then
         (if acc_balance account < ucast (?c + ?v) then Ret (Inl InsufficientFunds) else Ret (Inr ()))
       else Ret (Inl InsufficientFunds))"
    using assms(1) req by (cases tx) (simp_all add: check_funds_def u256_to_u128_Ret)
  then show ?thesis
    using sum by (auto simp: word_less_nat_alt not_less)
qed

lemma check_blobs_other: "\<not> is_eip4844 tx \<Longrightarrow> check_blobs lib tx cfg block = Inr ()"
  by (cases tx) (simp_all add: check_blobs_def)

lemma check_blobs_iff:
  "check_blobs lib (EIP4844 stx) cfg block = Inr () \<longleftrightarrow>
     (fork_cancun lib \<le> cfg_spec_id cfg \<longrightarrow>
        (\<forall>blob. be_blob_excess_gas_and_price block = Some blob \<longrightarrow>
           blob_gasprice blob \<le> b_max_fee_per_blob_gas (sg_tx stx)) \<and>
        b_blob_versioned_hashes (sg_tx stx) \<noteq> [] \<and>
        length (b_blob_versioned_hashes (sg_tx stx)) \<le> max_blobs_per_block lib \<and>
        blob_validate lib (sg_tx stx) = None)"
  by (auto simp: check_blobs_def and_then_Inr_iff Let_def split: option.split)

lemma validate_ok_iff:
  "validate_pool_transaction_for lib chain pending account cfg block = Ret (Inr ()) \<longleftrightarrow>
     check_chain_id lib chain (pt_typed pending) cfg = Inr () \<and>
     check_gas (pt_typed pending) cfg block = (Ret (Inr ()) :: ('v InvalidTransactionError + unit) rust) \<and>
     check_nonce (pt_typed pending) account = (Inr () :: 'v InvalidTransactionError + unit) \<and>
     check_fees lib (pt_typed pending) cfg block = Ret (Inr ()) \<and>
     check_blobs lib (pt_typed pending) cfg block = Inr () \<and>
     check_funds (lib :: 'v validation_lib) (pt_typed pending) account = Ret (Inr ())"
  by (simp add: validate_pool_transaction_for_def Let_def rtry_Ret_Inr_iff)


text \<open>Sample transactions for the concrete instances.\<close>

definition sample_lib :: "nat validation_lib" where
  "sample_lib =
     \<lparr>fork_spurious_dragon = 6, fork_london = 12, fork_shanghai = 16, fork_cancun = 17, fork_prague = 18,
      max_blobs_per_block = 6, blob_gas_of = (\<lambda>b. of_nat (131072 * length (b_blob_versioned_hashes b))),
      blob_validate = (\<lambda>_. None)\<rparr>"

definition sample_cfg :: CfgEnv where
  "sample_cfg =
     \<lparr>cfg_chain_id = 31337, cfg_disable_block_gas_limit = False, cfg_disable_base_fee = False,
      cfg_spec_id = 17, cfg_is_optimism = False\<rparr>"

definition sample_block_env :: BlockEnv where
  "sample_block_env =
     \<lparr>be_number = 1, be_coinbase = replicate 20 0, be_timestamp = 100, be_gas_limit = 30000000,
      be_basefee = 10, be_difficulty = 0, be_prevrandao = Some 7, be_blob_excess_gas_and_price = None\<rparr>"

definition sample_legacy :: "u64 option \<Rightarrow> u256 \<Rightarrow> PendingTransaction" where
  "sample_legacy chain value =
     \<lparr>pt_transaction =
        \<lparr>mi_transaction =
           Legacy \<lparr>sg_tx = \<lparr>l_chain_id = chain, l_nonce = 3, l_gas_price = 20, l_gas_limit = 21000,
                              l_to = Call (replicate 20 2), l_value = value, l_input = []\<rparr>,
                   sg_signature = [], sg_hash = 77\<rparr>,
         mi_impersonated_sender = None\<rparr>,
      pt_sender = replicate 20 1, pt_hash = 77\<rparr>"

lemma sample_legacy_simps [simp]:
  "pt_typed (sample_legacy chain value) =
     Legacy \<lparr>sg_tx = \<lparr>l_chain_id = chain, l_nonce = 3, l_gas_price = 20, l_gas_limit = 21000,
                        l_to = Call (replicate 20 2), l_value = value, l_input = []\<rparr>,
             sg_signature = [], sg_hash = 77\<rparr>"
  by (simp add: pt_typed_def sample_legacy_def)


text \<open>
  The chain id of a legacy transaction is not checked: the verdict is the same for every
  chain of the node, and the error made for this case is never returned.
\<close>

theorem legacy_chain_id_ignored:
  assumes "pt_typed pending = Legacy tx"
  shows "validate_pool_transaction_for lib chain pending account cfg block =
      validate_pool_transaction_for lib chain' pending account cfg block \<and>
    validate_pool_transaction_for lib chain pending account cfg block \<noteq> Ret (Inl IncompatibleEIP155)"
proof -
  have c: "check_chain_id lib ch (Legacy tx) cfg = Inr ()" for ch
    by (simp add: check_chain_id_iff)
  have "check_gas (pt_typed pending) cfg block \<noteq> Ret (Inl IncompatibleEIP155)"
    by (auto simp: check_gas_def u256_to_u64_def)
  moreover have "check_fees lib (pt_typed pending) cfg block \<noteq> Ret (Inl IncompatibleEIP155)"
    by (auto simp: check_fees_def u256_to_u128_def split: option.split)
  moreover have "check_funds lib (pt_typed pending) account \<noteq> Ret (Inl IncompatibleEIP155)"
    using assms by (auto simp: check_funds_def u256_to_u128_def)
  ultimately show ?thesis
    using assms
    by (auto simp: validate_pool_transaction_for_def Let_def c rtry_Ret_Inl_iff check_nonce_def check_blobs_def)
qed

theorem legacy_chain_id_ignored_witness:
  "validate_pool_transaction_for sample_lib 31337 (sample_legacy (Some 1) 500)
     \<lparr>acc_balance = 420500, acc_nonce = 3\<rparr> sample_cfg sample_block_env =
   validate_pool_transaction_for sample_lib 1 (sample_legacy (Some 1) 500)
     \<lparr>acc_balance = 420500, acc_nonce = 3\<rparr> sample_cfg sample_block_env"
  using legacy_chain_id_ignored [OF sample_legacy_simps, of sample_lib 31337 "Some 1" 500
      "\<lparr>acc_balance = 420500, acc_nonce = 3\<rparr>" sample_cfg sample_block_env 1] by blast

lemma validate_not_ret_iff:
  fixes lib :: "'v validation_lib"
  assumes "unat (be_gas_limit block) < 2 ^ 64" "unat (be_basefee block) < 2 ^ 128"
  shows "\<not> is_ret (validate_pool_transaction_for lib chain pending account cfg block) \<longleftrightarrow>
    \<not> is_deposit (pt_typed pending) \<and> 2 ^ 128 \<le> unat (tx_value (pt_typed pending)) \<and>
    check_chain_id lib chain (pt_typed pending) cfg = Inr () \<and>
    check_gas (pt_typed pending) cfg block = (Ret (Inr ()) :: ('v InvalidTransactionError + unit) rust) \<and>
    check_nonce (pt_typed pending) account = (Inr () :: 'v InvalidTransactionError + unit) \<and>
    check_fees lib (pt_typed pending) cfg block = Ret (Inr ()) \<and>
    check_blobs lib (pt_typed pending) cfg block = Inr ()"
proof -
  have gas: "is_ret (check_gas (pt_typed pending) cfg block)"
    using assms(1) by (simp add: check_gas_def u256_to_u64_Ret)
  have fees: "is_ret (check_fees lib (pt_typed pending) cfg block)"
    using assms(2) by (auto simp: check_fees_def u256_to_u128_Ret split: option.split)
  have funds: "is_ret (check_funds lib (pt_typed pending) account) \<longleftrightarrow>
      is_deposit (pt_typed pending) \<or> unat (tx_value (pt_typed pending)) < 2 ^ 128"
    by (cases "pt_typed pending") (auto simp: check_funds_def u256_to_u128_def)
  have step: "\<not> is_ret (rtry m f) \<longleftrightarrow> m = Ret (Inr ()) \<and> \<not> is_ret (f ())"
    if "is_ret m" for m and f :: "unit \<Rightarrow> ('e + unit) rust"
    using that by (cases m) (auto simp: rtry_def split: sum.split)
  show ?thesis
    by (simp add: validate_pool_transaction_for_def Let_def step gas fees funds not_less) blast
qed

text \<open>
  C37: Validation panics exactly when a transaction other than a deposit passes all checks
  before the one for its funds and its value does not fit 128 bits, provided the block's gas
  limit and base fee fit their types. It should report insufficient funds then.
\<close>

theorem validation_panics_iff:
  fixes lib :: "'v validation_lib"
  assumes "unat (be_gas_limit block) < 2 ^ 64" "unat (be_basefee block) < 2 ^ 128"
  shows "\<not> is_ret (validate_pool_transaction_for lib chain pending account cfg block) \<longleftrightarrow>
    \<not> is_deposit (pt_typed pending) \<and> 2 ^ 128 \<le> unat (tx_value (pt_typed pending)) \<and>
    check_chain_id lib chain (pt_typed pending) cfg = Inr () \<and>
    check_gas (pt_typed pending) cfg block = (Ret (Inr ()) :: ('v InvalidTransactionError + unit) rust) \<and>
    check_nonce (pt_typed pending) account = (Inr () :: 'v InvalidTransactionError + unit) \<and>
    check_fees lib (pt_typed pending) cfg block = Ret (Inr ()) \<and>
    check_blobs lib (pt_typed pending) cfg block = Inr ()"
  using assms by (rule validate_not_ret_iff)

theorem validation_panics_iff_witness:
  "\<not> is_ret (validate_pool_transaction_for sample_lib 31337 (sample_legacy (Some 1) (2 ^ 128))
     \<lparr>acc_balance = - 1, acc_nonce = 3\<rparr> sample_cfg sample_block_env)"
  using validation_panics_iff [of sample_block_env sample_lib 31337 "sample_legacy (Some 1) (2 ^ 128)"
      "\<lparr>acc_balance = - 1, acc_nonce = 3\<rparr>" sample_cfg]
  by (simp add: sample_block_env_def sample_cfg_def sample_lib_def check_chain_id_iff check_gas_iff
      check_nonce_iff check_fees_iff check_blobs_other tip_ok_def)

end
