(* ===== verification/Executor.thy ===== *)
theory Executor
  imports Tx_Validation Pool_Transactions "HOL-Library.Sublist"
begin

text \<open>
  The executor of a block, \<^verbatim>\<open>anvil/src/eth/backend/executor.rs\<close>: it takes the pool
  transactions one by one, skips those that do not fit the block or are invalid, runs the
  others and builds the block with its receipts (\<^verbatim>\<open>anvil/core/src/eth/block.rs\<close>). The
  interpreter, the database, the tries and the bloom filter are library code: their operations
  are parameters, collected in \<open>exec_ops\<close>; tracing and precompiles are settings of the
  interpreter. An exit reason is the number of its \<^verbatim>\<open>InstructionResult\<close>.
\<close>

subsection \<open>Blocks and receipts\<close>

record PartialHeader =
  ph_parent_hash :: B256
  ph_beneficiary :: address
  ph_state_root :: B256
  ph_receipts_root :: B256
  ph_logs_bloom :: bytes
  ph_difficulty :: u256
  ph_number :: u64
  ph_gas_limit :: u64
  ph_gas_used :: u64
  ph_timestamp :: u64
  ph_extra_data :: bytes
  ph_mix_hash :: B256
  ph_blob_gas_used :: "u64 option"
  ph_excess_blob_gas :: "u64 option"
  ph_parent_beacon_block_root :: "B256 option"
  ph_nonce :: u64
  ph_base_fee :: "u64 option"
  ph_withdrawals_root :: "B256 option"
  ph_requests_hash :: "B256 option"

record BlockHeader = PartialHeader +
  bh_ommers_hash :: B256
  bh_transactions_root :: B256

record ExecBlock =
  eb_header :: BlockHeader
  eb_transactions :: "MaybeImpersonatedTransaction list"

record Log =
  log_address :: address
  log_topics :: "B256 list"
  log_data :: bytes

record Receipt =
  rc_status :: bool
  rc_cumulative_gas_used :: u64
  rc_logs :: "Log list"

record DepositReceipt =
  dr_inner :: Receipt
  dr_deposit_nonce :: "u64 option"
  dr_deposit_receipt_version :: "u64 option"

datatype TypedReceipt =
    LegacyReceipt Receipt
  | EIP2930Receipt Receipt
  | EIP1559Receipt Receipt
  | EIP4844Receipt Receipt
  | EIP7702Receipt Receipt
  | DepReceipt DepositReceipt

fun as_receipt_with_bloom :: "TypedReceipt \<Rightarrow> Receipt" where
  "as_receipt_with_bloom (LegacyReceipt r) = r"
| "as_receipt_with_bloom (EIP2930Receipt r) = r"
| "as_receipt_with_bloom (EIP1559Receipt r) = r"
| "as_receipt_with_bloom (EIP4844Receipt r) = r"
| "as_receipt_with_bloom (EIP7702Receipt r) = r"
| "as_receipt_with_bloom (DepReceipt r) = dr_inner r"

definition cumulative_gas_used :: "TypedReceipt \<Rightarrow> u64" where
  "cumulative_gas_used r = rc_cumulative_gas_used (as_receipt_with_bloom r)"

datatype Output = OutCall bytes | OutCreate bytes "address option"

fun into_data :: "Output \<Rightarrow> bytes" where
  "into_data (OutCall b) = b"
| "into_data (OutCreate b a) = b"

record 'tr TransactionInfo =
  ti_transaction_hash :: B256
  ti_transaction_index :: u64
  ti_from :: address
  ti_to :: "address option"
  ti_contract_address :: "address option"
  ti_traces :: 'tr
  ti_exit :: u8
  ti_out :: "bytes option"
  ti_nonce :: u64
  ti_gas_used :: u64

record 'tr BlockInfo =
  bi_block :: ExecBlock
  bi_transactions :: "'tr TransactionInfo list"
  bi_receipts :: "TypedReceipt list"

subsection \<open>The interpreter\<close>

datatype ExecutionResult =
    Success u8 u64 "Log list" Output
  | ExecRevert u64 bytes
  | Halt u8 u64

fun result_gas :: "ExecutionResult \<Rightarrow> u64" where
  "result_gas (Success reason gas_used logs out) = gas_used"
| "result_gas (ExecRevert gas_used out) = gas_used"
| "result_gas (Halt reason gas_used) = gas_used"

datatype EVMError = EvmDatabase string | EvmTransaction RevmInvalidTransaction | EvmOther string

record ('db, 'tr) exec_ops =
  db_basic :: "address \<Rightarrow> 'db \<Rightarrow> (string + AccountInfo option) \<times> 'db"
  transact_commit :: "CfgEnv \<Rightarrow> BlockEnv \<Rightarrow> TxEnv \<Rightarrow> 'db \<Rightarrow> (EVMError + ExecutionResult) \<times> 'tr \<times> 'db"
  maybe_state_root :: "'db \<Rightarrow> B256 option"
  rlp_encode :: "TypedTransaction \<Rightarrow> bytes"
  transactions_trie_root :: "MaybeImpersonatedTransaction list \<Rightarrow> B256"
  receipts_trie_root :: "TypedReceipt list \<Rightarrow> B256"
  bloom_accrue :: "bytes \<Rightarrow> bytes \<Rightarrow> bytes"
  b256_bytes :: "B256 \<Rightarrow> bytes"
  instruction_revert :: u8
  instruction_selfdestruct :: u8
  max_data_gas_per_block :: u64
  empty_ommer_root_hash :: B256
  empty_withdrawals :: B256
  empty_requests_hash :: B256

definition Block_new ::
    "('db, 'tr) exec_ops \<Rightarrow> PartialHeader \<Rightarrow> MaybeImpersonatedTransaction list \<Rightarrow> ExecBlock" where
  "Block_new ops partial_header txs =
     \<lparr>eb_header =
        PartialHeader.extend partial_header
          (BlockHeader.fields (empty_ommer_root_hash ops) (transactions_trie_root ops txs)),
      eb_transactions = txs\<rparr>"

definition PartialHeader_from :: "BlockHeader \<Rightarrow> PartialHeader" where
  "PartialHeader_from h = PartialHeader.truncate h"

subsection \<open>Execution of one transaction\<close>

record 'tr ExecutedTransaction =
  ex_transaction :: PoolTransaction
  ex_exit_reason :: u8
  ex_out :: "Output option"
  ex_gas_used :: u64
  ex_logs :: "Log list"
  ex_traces :: 'tr
  ex_nonce :: u64

definition create_receipt ::
    "('db, 'tr) exec_ops \<Rightarrow> 'tr ExecutedTransaction \<Rightarrow> u64 \<Rightarrow> TypedReceipt \<times> u64" where
  "create_receipt ops tx cumulative =
     (let cumulative' = saturating_add cumulative (ex_gas_used tx);
          receipt = \<lparr>rc_status = ex_exit_reason tx \<le> instruction_selfdestruct ops,
                     rc_cumulative_gas_used = cumulative', rc_logs = ex_logs tx\<rparr>
      in ((case pt_typed (pending_transaction (ex_transaction tx)) of
             Legacy _ \<Rightarrow> LegacyReceipt receipt
           | EIP2930 _ \<Rightarrow> EIP2930Receipt receipt
           | EIP1559 _ \<Rightarrow> EIP1559Receipt receipt
           | EIP4844 _ \<Rightarrow> EIP4844Receipt receipt
           | EIP7702 _ \<Rightarrow> EIP7702Receipt receipt
           | Deposit dtx \<Rightarrow>
               DepReceipt \<lparr>dr_inner = receipt, dr_deposit_nonce = Some (dep_nonce dtx),
                           dr_deposit_receipt_version = Some 1\<rparr>),
          cumulative'))"

datatype ('v, 'tr) TransactionExecutionOutcome =
    Executed "'tr ExecutedTransaction"
  | Invalid PoolTransaction "'v InvalidTransactionError"
  | Exhausted PoolTransaction
  | BlobGasExhausted PoolTransaction
  | DatabaseError PoolTransaction string

record 'db TransactionExecutor =
  te_db :: 'db
  te_pending :: "PoolTransaction list"
  te_block_env :: BlockEnv
  te_cfg_env :: CfgEnv
  te_parent_hash :: B256
  te_gas_used :: u64
  te_blob_gas_used :: u64

definition env_for ::
    "('db, 'tr) exec_ops \<Rightarrow> 'db TransactionExecutor \<Rightarrow> PendingTransaction \<Rightarrow> TxEnv rust" where
  "env_for ops self tx =
     rbind (to_revm_tx_env tx) (\<lambda>tx_env.
       if cfg_is_optimism (te_cfg_env self)
       then Ret (tx_env\<lparr>env_optimism :=
              (env_optimism tx_env)\<lparr>op_enveloped_tx := Some (rlp_encode ops (pt_typed tx))\<rparr>\<rparr>)
       else Ret tx_env)"

definition tx_blob_gas :: "'v validation_lib \<Rightarrow> PoolTransaction \<Rightarrow> u64" where
  "tx_blob_gas lib tx =
     (case blob_gas (blob_gas_of lib) (pt_typed (pending_transaction tx)) of Some g \<Rightarrow> g | None \<Rightarrow> 0)"

fun split_result ::
    "('db, 'tr) exec_ops \<Rightarrow> ExecutionResult \<Rightarrow> u8 \<times> u64 \<times> Output option \<times> Log list" where
  "split_result ops (Success reason gas_used logs out) = (reason, gas_used, Some out, logs)"
| "split_result ops (ExecRevert gas_used out) = (instruction_revert ops, gas_used, Some (OutCall out), [])"
| "split_result ops (Halt reason gas_used) = (reason, gas_used, None, [])"

text \<open>The checks before a transaction runs: the outcome that skips it, or its environment.\<close>

definition exec_check ::
    "'v validation_lib \<Rightarrow> ('db, 'tr) exec_ops \<Rightarrow> u64 \<Rightarrow> PoolTransaction \<Rightarrow> AccountInfo \<Rightarrow>
     'db TransactionExecutor \<Rightarrow> (('v, 'tr) TransactionExecutionOutcome + TxEnv) rust" where
  "exec_check lib ops chain transaction account self =
     rbind (env_for ops self (pending_transaction transaction)) (\<lambda>env.
     rbind (if cfg_disable_block_gas_limit (te_cfg_env self) then Ret False
            else rbind (u256_to_u64 (be_gas_limit (te_block_env self))) (\<lambda>limit.
              Ret (limit < saturating_add (te_gas_used self) (env_gas_limit env))))
       (\<lambda>exhausted.
     if exhausted then Ret (Inl (Exhausted transaction))
     else if max_data_gas_per_block ops
               < saturating_add (te_blob_gas_used self) (tx_blob_gas lib transaction)
     then Ret (Inl (BlobGasExhausted transaction))
     else rbind (validate_pool_transaction_for lib chain (pending_transaction transaction) account
                   (te_cfg_env self) (te_block_env self))
       (\<lambda>valid. case valid of
          Inl err \<Rightarrow> Ret (Inl (Invalid transaction err))
        | Inr _ \<Rightarrow> Ret (Inr env))))"

text \<open>Running a transaction that passed the checks.\<close>

definition exec_run ::
    "'v validation_lib \<Rightarrow> ('db, 'tr) exec_ops \<Rightarrow> PoolTransaction \<Rightarrow> AccountInfo \<Rightarrow> TxEnv \<Rightarrow>
     'db TransactionExecutor \<Rightarrow>
     (('v, 'tr) TransactionExecutionOutcome option \<times> 'db TransactionExecutor) rust" where
  "exec_run lib ops transaction account env self =
     (let (res, traces, db) = transact_commit ops (te_cfg_env self) (te_block_env self) env (te_db self);
          self = self\<lparr>te_db := db\<rparr>
      in case res of
           Inl (EvmDatabase err) \<Rightarrow> Ret (Some (DatabaseError transaction err), self)
         | Inl (EvmTransaction err) \<Rightarrow> Ret (Some (Invalid transaction (from_revm err)), self)
         | Inl (EvmOther msg) \<Rightarrow> Panic (''failed to execute transaction: '' @ msg)
         | Inr exec_result \<Rightarrow>
             let (exit_reason, gas_used, out, logs) = split_result ops exec_result
             in Ret (Some (Executed
                  \<lparr>ex_transaction = transaction, ex_exit_reason = exit_reason, ex_out = out,
                   ex_gas_used = gas_used, ex_logs = logs, ex_traces = traces,
                   ex_nonce = acc_nonce account\<rparr>),
                  self\<lparr>te_gas_used := saturating_add (te_gas_used self) gas_used,
                       te_blob_gas_used := saturating_add (te_blob_gas_used self) (tx_blob_gas lib transaction)\<rparr>))"

definition exec_next ::
    "'v validation_lib \<Rightarrow> ('db, 'tr) exec_ops \<Rightarrow> u64 \<Rightarrow> 'db TransactionExecutor \<Rightarrow>
     (('v, 'tr) TransactionExecutionOutcome option \<times> 'db TransactionExecutor) rust" where
  "exec_next lib ops chain self =
     (case te_pending self of
        [] \<Rightarrow> Ret (None, self)
      | transaction # rest \<Rightarrow>
          let (basic, db) = db_basic ops (pt_sender (pending_transaction transaction)) (te_db self);
              self = self\<lparr>te_pending := rest, te_db := db\<rparr>
          in case basic of
               Inl err \<Rightarrow> Ret (Some (DatabaseError transaction err), self)
             | Inr acc \<Rightarrow>
                 let account = (case acc of Some a \<Rightarrow> a | None \<Rightarrow> \<lparr>acc_balance = 0, acc_nonce = 0\<rparr>)
                 in rbind (exec_check lib ops chain transaction account self) (\<lambda>checked.
                    case checked of
                      Inl out \<Rightarrow> Ret (Some out, self)
                    | Inr env \<Rightarrow> exec_run lib ops transaction account env self))"

subsection \<open>Execution of a block\<close>

definition build_logs_bloom :: "('db, 'tr) exec_ops \<Rightarrow> Log list \<Rightarrow> bytes \<Rightarrow> bytes" where
  "build_logs_bloom ops logs bloom =
     fold (\<lambda>log b. fold (\<lambda>topic. bloom_accrue ops (b256_bytes ops topic)) (log_topics log)
                      (bloom_accrue ops (log_address log) b)) logs bloom"

record 'tr exec_acc =
  ea_transactions :: "MaybeImpersonatedTransaction list"
  ea_transaction_infos :: "'tr TransactionInfo list"
  ea_receipts :: "TypedReceipt list"
  ea_bloom :: bytes
  ea_cumulative_gas_used :: u64
  ea_invalid :: "PoolTransaction list"
  ea_included :: "PoolTransaction list"
  ea_cumulative_blob_gas_used :: "u64 option"

fun created_address :: "Output option \<Rightarrow> address option" where
  "created_address (Some (OutCreate _ contract_address)) = contract_address"
| "created_address _ = None"

definition include_tx ::
    "'v validation_lib \<Rightarrow> ('db, 'tr) exec_ops \<Rightarrow> bool \<Rightarrow> 'tr ExecutedTransaction \<Rightarrow> 'tr exec_acc \<Rightarrow> 'tr exec_acc" where
  "include_tx lib ops is_cancun tx a =
     (let transaction = ex_transaction tx;
          (receipt, cumulative) = create_receipt ops tx (ea_cumulative_gas_used a);
          info = \<lparr>ti_transaction_hash = pool_tx_hash transaction,
                  ti_transaction_index = of_nat (length (ea_transaction_infos a)),
                  ti_from = pt_sender (pending_transaction transaction),
                  ti_to = tx_to (pt_typed (pending_transaction transaction)),
                  ti_contract_address = created_address (ex_out tx),
                  ti_traces = ex_traces tx, ti_exit = ex_exit_reason tx,
                  ti_out = map_option into_data (ex_out tx),
                  ti_nonce = ex_nonce tx, ti_gas_used = ex_gas_used tx\<rparr>
      in a\<lparr>ea_included := ea_included a @ [transaction],
           ea_cumulative_blob_gas_used :=
             (if is_cancun
              then Some (saturating_add (case ea_cumulative_blob_gas_used a of Some g \<Rightarrow> g | None \<Rightarrow> 0)
                           (tx_blob_gas lib transaction))
              else ea_cumulative_blob_gas_used a),
           ea_cumulative_gas_used := cumulative,
           ea_bloom := build_logs_bloom ops (ex_logs tx) (ea_bloom a),
           ea_transaction_infos := ea_transaction_infos a @ [info],
           ea_receipts := ea_receipts a @ [receipt],
           ea_transactions := ea_transactions a @ [pt_transaction (pending_transaction transaction)]\<rparr>)"

fun collect ::
    "'v validation_lib \<Rightarrow> ('db, 'tr) exec_ops \<Rightarrow> bool \<Rightarrow> ('v, 'tr) TransactionExecutionOutcome \<Rightarrow>
     'tr exec_acc \<Rightarrow> 'tr exec_acc" where
  "collect lib ops is_cancun (Executed tx) a = include_tx lib ops is_cancun tx a"
| "collect lib ops is_cancun (Exhausted tx) a = a"
| "collect lib ops is_cancun (BlobGasExhausted tx) a = a"
| "collect lib ops is_cancun (Invalid tx _) a = a\<lparr>ea_invalid := ea_invalid a @ [tx]\<rparr>"
| "collect lib ops is_cancun (DatabaseError _ err) a = a"

lemma exec_run_pending:
  "exec_run lib ops tx account env self = Ret (out, self') \<Longrightarrow> te_pending self' = te_pending self"
  by (auto simp: exec_run_def Let_def split: prod.splits sum.splits EVMError.splits)

fun skips :: "PoolTransaction \<Rightarrow> ('v, 'tr) TransactionExecutionOutcome \<Rightarrow> bool" where
  "skips tx (Executed _) = False"
| "skips tx (Invalid t _) = (t = tx)"
| "skips tx (Exhausted t) = (t = tx)"
| "skips tx (BlobGasExhausted t) = (t = tx)"
| "skips tx (DatabaseError t _) = (t = tx)"

lemma exec_check_skips: "exec_check lib ops chain tx account self = Ret (Inl out) \<Longrightarrow> skips tx out"
  by (auto simp: exec_check_def elim!: rbind_RetE split: if_splits sum.splits)

lemma exec_next_cases [consumes 1, case_names skip run]:
  assumes "exec_next lib ops chain self = Ret (Some out, self')"
  obtains tx rest db where "te_pending self = tx # rest"
      "self' = self\<lparr>te_pending := rest, te_db := db\<rparr>" "skips tx out"
    | tx rest db account env where "te_pending self = tx # rest"
      "exec_check lib ops chain tx account (self\<lparr>te_pending := rest, te_db := db\<rparr>)
         = (Ret (Inr env) :: (('v, 'tr) TransactionExecutionOutcome + TxEnv) rust)"
      "exec_run lib ops tx account env (self\<lparr>te_pending := rest, te_db := db\<rparr>) = Ret (Some out, self')"
proof -
  from assms obtain tx rest where p: "te_pending self = tx # rest"
    by (cases "te_pending self") (auto simp: exec_next_def)
  obtain basic db where b: "db_basic ops (pt_sender (pending_transaction tx)) (te_db self) = (basic, db)"
    by fastforce
  let ?self = "self\<lparr>te_pending := rest, te_db := db\<rparr>"
  show thesis
  proof (cases basic)
    case (Inl err)
    with assms p b show thesis by (intro that(1) [OF p, of db]) (auto simp: exec_next_def Let_def)
  next
    case (Inr acc)
    let ?account = "(case acc of Some a \<Rightarrow> a | None \<Rightarrow> \<lparr>acc_balance = 0, acc_nonce = 0\<rparr>)"
    from assms p b Inr have "rbind (exec_check lib ops chain tx ?account ?self) (\<lambda>checked.
        case checked of Inl out \<Rightarrow> Ret (Some out, ?self)
         | Inr env \<Rightarrow> exec_run lib ops tx ?account env ?self) = Ret (Some out, self')"
      by (simp add: exec_next_def Let_def)
    then obtain checked where c: "exec_check lib ops chain tx ?account ?self = Ret checked"
      and r: "(case checked of Inl out \<Rightarrow> Ret (Some out, ?self)
         | Inr env \<Rightarrow> exec_run lib ops tx ?account env ?self) = Ret (Some out, self')"
      by (rule rbind_RetE)
    show thesis
    proof (cases checked)
      case (Inl o')
      with r c show thesis by (intro that(1) [OF p, of db]) (auto dest: exec_check_skips)
    next
      case (Inr env)
      with r c show thesis by (intro that(2) [OF p]) auto
    qed
  qed
qed

lemma exec_next_pending:
  "exec_next lib ops chain self = Ret (Some out, self') \<Longrightarrow> \<exists>tx. te_pending self = tx # te_pending self'"
  by (erule exec_next_cases) (auto dest: exec_run_pending)

function exec_loop ::
    "'v validation_lib \<Rightarrow> ('db, 'tr) exec_ops \<Rightarrow> u64 \<Rightarrow> bool \<Rightarrow> 'tr exec_acc \<Rightarrow>
     'db TransactionExecutor \<Rightarrow> ('tr exec_acc \<times> 'db TransactionExecutor) rust" where
  "exec_loop lib ops chain is_cancun a self =
     rbind (exec_next lib ops chain self) (\<lambda>(next, self').
       case next of
         None \<Rightarrow> Ret (a, self')
       | Some out \<Rightarrow> exec_loop lib ops chain is_cancun (collect lib ops is_cancun out a) self')"
  by pat_completeness auto
termination
  by (relation "measure (\<lambda>(_, _, _, _, _, self). length (te_pending self))") (auto dest!: exec_next_pending)

declare exec_loop.simps [simp del]

record 'tr ExecutedTransactions =
  et_block :: "'tr BlockInfo"
  et_included :: "PoolTransaction list"
  et_invalid :: "PoolTransaction list"

definition acc_init :: "bool \<Rightarrow> 'tr exec_acc" where
  "acc_init is_cancun =
     \<lparr>ea_transactions = [], ea_transaction_infos = [], ea_receipts = [], ea_bloom = replicate 256 0,
      ea_cumulative_gas_used = 0, ea_invalid = [], ea_included = [],
      ea_cumulative_blob_gas_used = (if is_cancun then Some 0 else None)\<rparr>"

definition execute ::
    "'v validation_lib \<Rightarrow> ('db, 'tr) exec_ops \<Rightarrow> u64 \<Rightarrow> 'db TransactionExecutor \<Rightarrow>
     ('tr ExecutedTransactions \<times> 'db) rust" where
  "execute lib ops chain self =
     (let block = te_block_env self; spec = cfg_spec_id (te_cfg_env self) in
      rbind (u256_to_u64 (be_gas_limit block)) (\<lambda>gas_limit.
      rbind (u256_to_u64 (be_number block)) (\<lambda>block_number.
      rbind (u256_to_u64 (be_timestamp block)) (\<lambda>timestamp.
      rbind (if fork_london lib \<le> spec
             then rbind (u256_to_u64 (be_basefee block)) (\<lambda>fee. Ret (Some fee)) else Ret None)
        (\<lambda>base_fee.
      let is_shanghai = fork_shanghai lib \<le> spec;
          is_cancun = fork_cancun lib \<le> spec;
          is_prague = fork_prague lib \<le> spec;
          excess_blob_gas =
            (if is_cancun then map_option excess_blob_gas (be_blob_excess_gas_and_price block) else None)
      in rbind (exec_loop lib ops chain is_cancun (acc_init is_cancun) self) (\<lambda>(a, self').
         let partial_header =
               \<lparr>ph_parent_hash = te_parent_hash self, ph_beneficiary = be_coinbase block,
                ph_state_root = (case maybe_state_root ops (te_db self') of Some r \<Rightarrow> r | None \<Rightarrow> 0),
                ph_receipts_root = receipts_trie_root ops (ea_receipts a), ph_logs_bloom = ea_bloom a,
                ph_difficulty = be_difficulty block, ph_number = block_number,
                ph_gas_limit = gas_limit, ph_gas_used = ea_cumulative_gas_used a,
                ph_timestamp = timestamp, ph_extra_data = [], ph_mix_hash = 0,
                ph_blob_gas_used = ea_cumulative_blob_gas_used a,
                ph_excess_blob_gas = excess_blob_gas,
                ph_parent_beacon_block_root = (if is_cancun then Some 0 else None),
                ph_nonce = 0, ph_base_fee = base_fee,
                ph_withdrawals_root = (if is_shanghai then Some (empty_withdrawals ops) else None),
                ph_requests_hash = (if is_prague then Some (empty_requests_hash ops) else None)\<rparr>
         in Ret (\<lparr>et_block =
                   \<lparr>bi_block = Block_new ops partial_header (ea_transactions a),
                    bi_transactions = ea_transaction_infos a, bi_receipts = ea_receipts a\<rparr>,
                  et_included = ea_included a, et_invalid = ea_invalid a\<rparr>,
                 te_db self')))))))"

subsection \<open>Loop invariants\<close>

lemma exec_run_cases [consumes 1, case_names failed executed]:
  assumes "exec_run lib ops tx account env self = Ret (Some out, self')"
  obtains db where "self' = self\<lparr>te_db := db\<rparr>" "skips tx out"
    | x res where "out = Executed x" "ex_transaction x = tx" "ex_gas_used x = result_gas res"
      "fst (transact_commit ops (te_cfg_env self) (te_block_env self) env (te_db self)) = Inr res"
      "te_pending self' = te_pending self" "te_block_env self' = te_block_env self"
      "te_cfg_env self' = te_cfg_env self"
      "te_gas_used self' = saturating_add (te_gas_used self) (ex_gas_used x)"
      "te_blob_gas_used self' = saturating_add (te_blob_gas_used self) (tx_blob_gas lib tx)"
proof -
  obtain res traces db where t:
    "transact_commit ops (te_cfg_env self) (te_block_env self) env (te_db self) = (res, traces, db)"
    by (metis prod.collapse)
  show thesis
  proof (cases res)
    case (Inl err)
    with assms t show thesis
      by (intro that(1) [of db]; cases err) (auto simp: exec_run_def Let_def)
  next
    case (Inr r)
    with assms t show thesis
      by (cases r) (auto simp: exec_run_def Let_def intro!: that(2) [of _ r])
  qed
qed

lemma exec_check_ok:
  assumes "exec_check lib ops chain tx account self
      = (Ret (Inr env) :: (('v, 'tr) TransactionExecutionOutcome + TxEnv) rust)"
  shows "\<not> max_data_gas_per_block ops < saturating_add (te_blob_gas_used self) (tx_blob_gas lib tx)"
    and "\<not> cfg_disable_block_gas_limit (te_cfg_env self) \<Longrightarrow>
      unat (be_gas_limit (te_block_env self)) < 2 ^ 64 \<and>
      unat (saturating_add (te_gas_used self) (env_gas_limit env)) \<le> unat (be_gas_limit (te_block_env self))"
proof -
  show "\<not> max_data_gas_per_block ops < saturating_add (te_blob_gas_used self) (tx_blob_gas lib tx)"
    using assms by (auto simp: exec_check_def elim!: rbind_RetE split: if_splits)
next
  assume "\<not> cfg_disable_block_gas_limit (te_cfg_env self)"
  with assms obtain limit where l: "u256_to_u64 (be_gas_limit (te_block_env self)) = Ret limit"
      "\<not> limit < saturating_add (te_gas_used self) (env_gas_limit env)"
    by (auto simp: exec_check_def elim!: rbind_RetE split: if_splits sum.splits)
  then have "unat (be_gas_limit (te_block_env self)) < 2 ^ 64" "unat limit = unat (be_gas_limit (te_block_env self))"
    by (auto simp: u256_to_u64_def unat_ucast_down split: if_splits)
  with l(2) show "unat (be_gas_limit (te_block_env self)) < 2 ^ 64 \<and>
      unat (saturating_add (te_gas_used self) (env_gas_limit env)) \<le> unat (be_gas_limit (te_block_env self))"
    by (simp add: word_less_nat_alt)
qed

lemma exec_loop_inv:
  assumes "exec_loop lib ops chain is_cancun a self = Ret (a', self')" "P a self"
    and "\<And>a self out self'. P a self \<Longrightarrow> exec_next lib ops chain self = Ret (Some out, self') \<Longrightarrow>
       P (collect lib ops is_cancun out a) self'"
  shows "P a' self' \<and> te_pending self' = []"
  using assms
proof (induction lib ops chain is_cancun a self rule: exec_loop.induct)
  case (1 lib ops chain is_cancun a self)
  from 1(2) obtain nxt s1 where n: "exec_next lib ops chain self = Ret (nxt, s1)"
    and l: "(case nxt of None \<Rightarrow> Ret (a, s1)
       | Some out \<Rightarrow> exec_loop lib ops chain is_cancun (collect lib ops is_cancun out a) s1) = Ret (a', self')"
    by (subst (asm) exec_loop.simps) (auto elim!: rbind_RetE)
  show ?case
  proof (cases nxt)
    case None
    with n have "te_pending self = [] \<and> s1 = self"
      by (auto simp: exec_next_def exec_run_def Let_def elim!: rbind_RetE
          split: list.splits prod.splits sum.splits EVMError.splits)
    with None l 1(3) show ?thesis by simp
  next
    case (Some out)
    have "P (collect lib ops is_cancun out a) s1" using 1(3,4) n Some by blast
    with 1(1) [OF n refl Some] 1(4) l Some show ?thesis by simp
  qed
qed

text \<open>
  What the interpreter promises: a transaction uses at most its gas limit.
\<close>

definition evm_gas_bound :: "('db, 'tr) exec_ops \<Rightarrow> bool" where
  "evm_gas_bound ops =
     (\<forall>cfg block env db. case fst (transact_commit ops cfg block env db) of
        Inr res \<Rightarrow> result_gas res \<le> env_gas_limit env | Inl _ \<Rightarrow> True)"

text \<open>The running total of the gas used by the transactions of a block.\<close>

primrec running_gas :: "u64 \<Rightarrow> u64 list \<Rightarrow> u64 list" where
  "running_gas c [] = []"
| "running_gas c (g # gs) = saturating_add c g # running_gas (saturating_add c g) gs"

lemma running_gas_append:
  "running_gas c (gs @ [g]) = running_gas c gs @ [saturating_add (last (c # running_gas c gs)) g]"
  by (induction gs arbitrary: c) auto

lemma length_running_gas [simp]: "length (running_gas c gs) = length gs"
  by (induction gs arbitrary: c) auto

lemma saturating_add_mono: "b \<le> b' \<Longrightarrow> saturating_add a b \<le> saturating_add a (b' :: 'a::len word)"
  by (simp add: word_le_nat_alt unat_saturating_add)

text \<open>
  The collected block agrees with the transactions taken so far: in order, with their
  positions and running gas.
\<close>

definition contents_ok :: "'tr exec_acc \<Rightarrow> bool" where
  "contents_ok a =
     (ea_transactions a = map (pt_transaction \<circ> pending_transaction) (ea_included a) \<and>
      map ti_transaction_hash (ea_transaction_infos a) = map pool_tx_hash (ea_included a) \<and>
      map ti_transaction_index (ea_transaction_infos a) = map of_nat [0..<length (ea_included a)] \<and>
      map cumulative_gas_used (ea_receipts a) = running_gas 0 (map ti_gas_used (ea_transaction_infos a)) \<and>
      ea_cumulative_gas_used a = last (0 # running_gas 0 (map ti_gas_used (ea_transaction_infos a))))"

definition taken_from ::
    "PoolTransaction list \<Rightarrow> 'tr exec_acc \<Rightarrow> 'db TransactionExecutor \<Rightarrow> bool" where
  "taken_from all a self =
     (\<exists>taken. all = taken @ te_pending self \<and> subseq (ea_included a) taken \<and> subseq (ea_invalid a) taken \<and>
        mset (ea_included a) + mset (ea_invalid a) \<subseteq># mset taken)"

lemma cumulative_create_receipt [simp]:
  "cumulative_gas_used (fst (create_receipt ops x c)) = saturating_add c (ex_gas_used x)"
  "snd (create_receipt ops x c) = saturating_add c (ex_gas_used x)"
  by (auto simp: create_receipt_def cumulative_gas_used_def Let_def split: TypedTransaction.split)

lemma include_tx_simps [simp]:
  "ea_included (include_tx lib ops c x a) = ea_included a @ [ex_transaction x]"
  "ea_invalid (include_tx lib ops c x a) = ea_invalid a"
  "ea_transactions (include_tx lib ops c x a) =
     ea_transactions a @ [pt_transaction (pending_transaction (ex_transaction x))]"
  "map ti_transaction_hash (ea_transaction_infos (include_tx lib ops c x a)) =
     map ti_transaction_hash (ea_transaction_infos a) @ [pool_tx_hash (ex_transaction x)]"
  "map ti_transaction_index (ea_transaction_infos (include_tx lib ops c x a)) =
     map ti_transaction_index (ea_transaction_infos a) @ [of_nat (length (ea_transaction_infos a))]"
  "map ti_gas_used (ea_transaction_infos (include_tx lib ops c x a)) =
     map ti_gas_used (ea_transaction_infos a) @ [ex_gas_used x]"
  "map cumulative_gas_used (ea_receipts (include_tx lib ops c x a)) =
     map cumulative_gas_used (ea_receipts a) @ [saturating_add (ea_cumulative_gas_used a) (ex_gas_used x)]"
  "ea_cumulative_gas_used (include_tx lib ops c x a) = saturating_add (ea_cumulative_gas_used a) (ex_gas_used x)"
  "ea_cumulative_blob_gas_used (include_tx lib ops c x a) =
     (if c then Some (saturating_add (case ea_cumulative_blob_gas_used a of Some g \<Rightarrow> g | None \<Rightarrow> 0)
                 (tx_blob_gas lib (ex_transaction x)))
      else ea_cumulative_blob_gas_used a)"
  using cumulative_create_receipt [of ops x "ea_cumulative_gas_used a"]
  by (simp_all add: include_tx_def Let_def case_prod_unfold del: cumulative_create_receipt)

lemma subseq_snoc2: "subseq xs ys \<Longrightarrow> subseq xs (ys @ [y])"
  by (rule list_emb_prefix)

lemma taken_from_next:
  assumes "taken_from all a self" "te_pending self = tx # te_pending self'"
    and "ea_included a' = ea_included a @ inc" "ea_invalid a' = ea_invalid a @ bad"
    and "inc = [] \<and> bad = [] \<or> inc = [tx] \<and> bad = [] \<or> inc = [] \<and> bad = [tx]"
  shows "taken_from all a' self'"
proof -
  from assms(1,2) obtain taken where t: "all = taken @ tx # te_pending self'"
    "subseq (ea_included a) taken" "subseq (ea_invalid a) taken"
    "mset (ea_included a) + mset (ea_invalid a) \<subseteq># mset taken"
    unfolding taken_from_def by auto
  have "mset (ea_included a) + mset (ea_invalid a) \<subseteq># add_mset tx (mset taken)"
    using t(4) by (metis add_mset_add_single mset_subset_eq_add_left subset_mset.order_trans)
  with t assms(3-5) show ?thesis
    unfolding taken_from_def by (intro exI [of _ "taken @ [tx]"]) (auto intro: subseq_snoc2)
qed

lemma contents_ok_include: "contents_ok a \<Longrightarrow> contents_ok (include_tx lib ops c x a)"
proof -
  assume ok: "contents_ok a"
  then have "length (ea_transaction_infos a) = length (ea_included a)"
    unfolding contents_ok_def by (metis length_map)
  with ok show ?thesis by (simp add: contents_ok_def running_gas_append)
qed

lemma contents_next:
  assumes "exec_next lib ops chain self = Ret (Some out, self')" "contents_ok a" "taken_from all a self"
  shows "contents_ok (collect lib ops c out a) \<and> taken_from all (collect lib ops c out a) self'"
proof -
  from exec_next_pending [OF assms(1)] obtain tx where p: "te_pending self = tx # te_pending self'" by blast
  consider "skips tx out" | x where "out = Executed x" "ex_transaction x = tx"
    using assms(1)
    by (cases rule: exec_next_cases) (auto simp: p elim!: exec_run_cases)
  then show ?thesis
  proof cases
    case 1
    moreover have "contents_ok (a\<lparr>ea_invalid := l\<rparr>)" for l
      using assms(2) by (simp add: contents_ok_def)
    ultimately show ?thesis
      using assms(2) taken_from_next [OF assms(3) p, of a "[]" "[]"]
        taken_from_next [OF assms(3) p, of "collect lib ops c out a" "[]" "[tx]"]
      by (cases out) auto
  next
    case 2
    then show ?thesis
      using contents_ok_include [OF assms(2)]
        taken_from_next [OF assms(3) p, of "collect lib ops c out a" "[tx]" "[]"] by simp
  qed
qed

lemma u256_to_u64_SomeD: "u256_to_u64 v = Ret x \<Longrightarrow> unat v < 2 ^ 64 \<and> unat x = unat v"
  by (auto simp: u256_to_u64_def unat_ucast_down split: if_splits)

lemma execute_cases:
  assumes "execute lib ops chain self = Ret (et, db)"
  obtains a self' where
    "exec_loop lib ops chain (fork_cancun lib \<le> cfg_spec_id (te_cfg_env self))
       (acc_init (fork_cancun lib \<le> cfg_spec_id (te_cfg_env self))) self = Ret (a, self')"
    "db = te_db self'" "et_included et = ea_included a" "et_invalid et = ea_invalid a"
    "bi_transactions (et_block et) = ea_transaction_infos a" "bi_receipts (et_block et) = ea_receipts a"
    "eb_transactions (bi_block (et_block et)) = ea_transactions a"
    "ph_parent_hash (eb_header (bi_block (et_block et))) = te_parent_hash self"
    "ph_gas_used (eb_header (bi_block (et_block et))) = ea_cumulative_gas_used a"
    "ph_blob_gas_used (eb_header (bi_block (et_block et))) = ea_cumulative_blob_gas_used a"
    "unat (ph_gas_limit (eb_header (bi_block (et_block et)))) = unat (be_gas_limit (te_block_env self))"
    "unat (ph_number (eb_header (bi_block (et_block et)))) = unat (be_number (te_block_env self))"
    "unat (ph_timestamp (eb_header (bi_block (et_block et)))) = unat (be_timestamp (te_block_env self))"
  using assms
  by (auto simp: execute_def Let_def Block_new_def PartialHeader.defs BlockHeader.defs case_prod_unfold
      elim!: rbind_RetE dest!: u256_to_u64_SomeD intro!: that)

lemma contents_init: "contents_ok (acc_init c)" "taken_from (te_pending self) (acc_init c) self"
  by (simp_all add: contents_ok_def taken_from_def acc_init_def)

text \<open>
  C4: The block holds exactly the included transactions, in the order of the pool: the
  included and the invalid ones are taken in order from the pool's list and none is taken
  twice; the transactions of the block, their records and their receipts correspond to the
  included ones position by position, each receipt carries the gas used up to it, and the
  header the total.
\<close>

theorem block_contents:
  assumes "execute lib ops chain self = Ret (et, db)"
  shows "subseq (et_included et) (te_pending self) \<and> subseq (et_invalid et) (te_pending self) \<and>
    mset (et_included et) + mset (et_invalid et) \<subseteq># mset (te_pending self) \<and>
    eb_transactions (bi_block (et_block et)) = map (pt_transaction \<circ> pending_transaction) (et_included et) \<and>
    map ti_transaction_hash (bi_transactions (et_block et)) = map pool_tx_hash (et_included et) \<and>
    map ti_transaction_index (bi_transactions (et_block et)) = map of_nat [0..<length (et_included et)] \<and>
    map cumulative_gas_used (bi_receipts (et_block et)) =
      running_gas 0 (map ti_gas_used (bi_transactions (et_block et))) \<and>
    ph_gas_used (eb_header (bi_block (et_block et))) =
      last (0 # running_gas 0 (map ti_gas_used (bi_transactions (et_block et))))"
proof (rule execute_cases [OF assms])
  fix a self'
  let ?c = "fork_cancun lib \<le> cfg_spec_id (te_cfg_env self)"
  assume loop: "exec_loop lib ops chain ?c (acc_init ?c) self = Ret (a, self')"
    and et: "et_included et = ea_included a" "et_invalid et = ea_invalid a"
      "bi_transactions (et_block et) = ea_transaction_infos a" "bi_receipts (et_block et) = ea_receipts a"
      "eb_transactions (bi_block (et_block et)) = ea_transactions a"
      "ph_gas_used (eb_header (bi_block (et_block et))) = ea_cumulative_gas_used a"
  have "(contents_ok a \<and> taken_from (te_pending self) a self') \<and> te_pending self' = []"
    by (rule exec_loop_inv [OF loop, where P = "\<lambda>a s. contents_ok a \<and> taken_from (te_pending self) a s"])
      (auto simp: contents_init dest: contents_next)
  then show ?thesis
    by (auto simp: et taken_from_def contents_ok_def)
qed

text \<open>
  A node with the sample configuration, an interpreter that uses 21000 gas, or the limit, for every
  transaction, and accounts with enough funds, for the concrete instances.
\<close>

definition sample_ops :: "(unit, unit) exec_ops" where
  "sample_ops =
     \<lparr>db_basic = (\<lambda>a db. (Inr (Some \<lparr>acc_balance = 2 ^ 100, acc_nonce = 3\<rparr>), db)),
      transact_commit = (\<lambda>cfg block env db.
        (Inr (Success 1 (min 21000 (env_gas_limit env)) [] (OutCall [])), (), db)),
      maybe_state_root = (\<lambda>_. None), rlp_encode = (\<lambda>_. []), transactions_trie_root = (\<lambda>_. 1),
      receipts_trie_root = (\<lambda>_. 2), bloom_accrue = (\<lambda>_ b. b), b256_bytes = (\<lambda>_. []),
      instruction_revert = 16, instruction_selfdestruct = 4, max_data_gas_per_block = 786432,
      empty_ommer_root_hash = 3, empty_withdrawals = 4, empty_requests_hash = 5\<rparr>"

definition sample_executor :: "u64 \<Rightarrow> u256 \<Rightarrow> unit TransactionExecutor" where
  "sample_executor n limit =
     \<lparr>te_db = (),
      te_pending = map (\<lambda>i. PoolTransaction_new (sample_legacy (Some 31337) (of_nat i))) [0..<unat n],
      te_block_env = sample_block_env\<lparr>be_gas_limit := limit\<rparr>, te_cfg_env = sample_cfg,
      te_parent_hash = 9, te_gas_used = 0, te_blob_gas_used = 0\<rparr>"

subsection \<open>Gas of a block\<close>

definition gas_inv ::
    "('db, 'tr) exec_ops \<Rightarrow> bool \<Rightarrow> BlockEnv \<Rightarrow> CfgEnv \<Rightarrow> 'tr exec_acc \<Rightarrow> 'db TransactionExecutor \<Rightarrow> bool" where
  "gas_inv ops c block cfg a self =
     (te_block_env self = block \<and> te_cfg_env self = cfg \<and>
      ea_cumulative_gas_used a = te_gas_used self \<and>
      unat (te_gas_used self) \<le> unat (be_gas_limit block) \<and>
      (unat (be_gas_limit block) < 2 ^ 64 - 1 \<longrightarrow>
         unat (te_gas_used self) = sum_list (map unat (map ti_gas_used (ea_transaction_infos a)))) \<and>
      te_blob_gas_used self \<le> max_data_gas_per_block ops \<and>
      ea_cumulative_blob_gas_used a = (if c then Some (te_blob_gas_used self) else None))"

lemma collect_skips:
  assumes "skips tx out"
  shows "ea_transaction_infos (collect lib ops c out a) = ea_transaction_infos a"
    "ea_cumulative_gas_used (collect lib ops c out a) = ea_cumulative_gas_used a"
    "ea_cumulative_blob_gas_used (collect lib ops c out a) = ea_cumulative_blob_gas_used a"
  using assms by (cases out; simp)+

lemma gas_inv_next:
  assumes "exec_next lib ops chain self = Ret (Some out, self')" "gas_inv ops c block cfg a self"
    and "evm_gas_bound ops" "\<not> cfg_disable_block_gas_limit cfg"
  shows "gas_inv ops c block cfg (collect lib ops c out a) self'"
  using assms(1)
proof (cases rule: exec_next_cases)
  case (skip tx rest db)
  with assms(2) show ?thesis by (simp add: gas_inv_def collect_skips)
next
  case (run tx rest db account env)
  let ?self = "self\<lparr>te_pending := rest, te_db := db\<rparr>"
  from assms(2) have env: "te_block_env self = block" "te_cfg_env self = cfg" by (simp_all add: gas_inv_def)
  from exec_check_ok [OF run(2)] assms(4) env
  have chk: "saturating_add (te_blob_gas_used self) (tx_blob_gas lib tx) \<le> max_data_gas_per_block ops"
    and lim: "unat (saturating_add (te_gas_used self) (env_gas_limit env)) \<le> unat (be_gas_limit block)"
    by (simp_all add: not_less)
  from run(3) show ?thesis
  proof (cases rule: exec_run_cases)
    case (failed db')
    with assms(2) show ?thesis by (simp add: gas_inv_def collect_skips)
  next
    case (executed x res)
    from assms(3) executed(3,4) have "ex_gas_used x \<le> env_gas_limit env"
      unfolding evm_gas_bound_def by (metis sum.simps(6))
    then have "saturating_add (te_gas_used self) (ex_gas_used x) \<le> saturating_add (te_gas_used self) (env_gas_limit env)"
      by (rule saturating_add_mono)
    with lim have le: "unat (saturating_add (te_gas_used self) (ex_gas_used x)) \<le> unat (be_gas_limit block)"
      by (simp add: word_le_nat_alt)
    then have exact: "unat (saturating_add (te_gas_used self) (ex_gas_used x)) = unat (te_gas_used self) + unat (ex_gas_used x)"
      if "unat (be_gas_limit block) < 2 ^ 64 - 1"
      using that by (simp add: unat_saturating_add)
    from executed assms(2) chk le exact show ?thesis
      by (auto simp: gas_inv_def simp del: map_map split: option.split)
  qed
qed

lemma gas_init:
  "te_gas_used self = 0 \<Longrightarrow> te_blob_gas_used self = 0 \<Longrightarrow>
   gas_inv ops c (te_block_env self) (te_cfg_env self) (acc_init c) self"
  by (simp add: gas_inv_def acc_init_def)

text \<open>
  C10: If the interpreter charges a transaction at most its gas limit, the gas of a block is
  within the block's limit, and it is the exact sum over the transactions unless the limit is
  the greatest 64-bit number; the blob gas is within the limit for blobs.
\<close>

theorem block_gas_within_limit:
  assumes "execute lib ops chain self = Ret (et, db)" "evm_gas_bound ops"
    and "\<not> cfg_disable_block_gas_limit (te_cfg_env self)" "te_gas_used self = 0" "te_blob_gas_used self = 0"
  shows "ph_gas_used (eb_header (bi_block (et_block et))) \<le> ph_gas_limit (eb_header (bi_block (et_block et))) \<and>
    (unat (be_gas_limit (te_block_env self)) < 2 ^ 64 - 1 \<longrightarrow>
       unat (ph_gas_used (eb_header (bi_block (et_block et)))) =
         sum_list (map unat (map ti_gas_used (bi_transactions (et_block et))))) \<and>
    (\<forall>g. ph_blob_gas_used (eb_header (bi_block (et_block et))) = Some g \<longrightarrow> g \<le> max_data_gas_per_block ops)"
proof (rule execute_cases [OF assms(1)])
  fix a self'
  let ?c = "fork_cancun lib \<le> cfg_spec_id (te_cfg_env self)"
  let ?P = "gas_inv ops ?c (te_block_env self) (te_cfg_env self)"
  assume loop: "exec_loop lib ops chain ?c (acc_init ?c) self = Ret (a, self')"
    and et: "bi_transactions (et_block et) = ea_transaction_infos a"
      "ph_gas_used (eb_header (bi_block (et_block et))) = ea_cumulative_gas_used a"
      "ph_blob_gas_used (eb_header (bi_block (et_block et))) = ea_cumulative_blob_gas_used a"
      "unat (ph_gas_limit (eb_header (bi_block (et_block et)))) = unat (be_gas_limit (te_block_env self))"
  have "?P a self' \<and> te_pending self' = []"
  proof (rule exec_loop_inv [OF loop])
    show "?P (acc_init ?c) self" using gas_init assms(4,5) by blast
  next
    fix a s out s'
    assume "?P a s" "exec_next lib ops chain s = Ret (Some out, s')"
    then show "?P (collect lib ops ?c out a) s'"
      using gas_inv_next [OF _ _ assms(2,3)] by blast
  qed
  then show ?thesis
    by (auto simp: et gas_inv_def word_le_nat_alt)
qed

subsection \<open>Execution returns\<close>

text \<open>The amounts of a transaction fit 128 bits.\<close>

definition tx_fits :: "PoolTransaction \<Rightarrow> bool" where
  "tx_fits tx =
     (case pt_typed (pending_transaction tx) of
        Deposit dtx \<Rightarrow> unat (dep_mint dtx) < 2 ^ 128
      | t \<Rightarrow> unat (tx_value t) < 2 ^ 128)"

definition block_env_fits :: "BlockEnv \<Rightarrow> bool" where
  "block_env_fits block =
     (unat (be_gas_limit block) < 2 ^ 64 \<and> unat (be_number block) < 2 ^ 64 \<and>
      unat (be_timestamp block) < 2 ^ 64 \<and> unat (be_basefee block) < 2 ^ 64)"

text \<open>What the interpreter promises: it fails only because of the database or the transaction.\<close>

definition evm_no_other :: "('db, 'tr) exec_ops \<Rightarrow> bool" where
  "evm_no_other ops =
     (\<forall>cfg block env db. case fst (transact_commit ops cfg block env db) of
        Inl (EvmOther _) \<Rightarrow> False | _ \<Rightarrow> True)"

lemma env_for_ret: "tx_fits tx \<Longrightarrow> is_ret (env_for ops self (pending_transaction tx))"
  by (auto simp: tx_fits_def env_for_def to_revm_tx_env_def u256_to_u128_def Let_def
      split: TypedTransaction.splits)

lemma validate_ret:
  assumes "tx_fits tx" "block_env_fits block"
  shows "is_ret (validate_pool_transaction_for lib chain (pending_transaction tx) account cfg block)"
proof -
  have "unat (be_basefee block) < 2 ^ 128"
    using assms(2) unfolding block_env_fits_def by (simp add: less_trans [of _ "2 ^ 64"])
  moreover have "is_deposit (pt_typed (pending_transaction tx)) \<or> unat (tx_value (pt_typed (pending_transaction tx))) < 2 ^ 128"
    using assms(1) by (auto simp: tx_fits_def split: TypedTransaction.splits)
  ultimately show ?thesis
    using assms(2) validate_not_ret_iff [of block lib chain "pending_transaction tx" account cfg]
    by (auto simp: block_env_fits_def)
qed

lemma rbind_is_ret: "is_ret m \<Longrightarrow> (\<And>x. m = Ret x \<Longrightarrow> is_ret (f x)) \<Longrightarrow> is_ret (rbind m f)"
  by (cases m) auto

lemma exec_check_ret:
  assumes "tx_fits tx" "block_env_fits (te_block_env self)"
  shows "is_ret (exec_check lib ops chain tx account self)"
  unfolding exec_check_def
proof (intro rbind_is_ret)
  show "is_ret (env_for ops self (pending_transaction tx))" using assms(1) by (rule env_for_ret)
next
  fix env show "is_ret (if cfg_disable_block_gas_limit (te_cfg_env self) then Ret False
      else rbind (u256_to_u64 (be_gas_limit (te_block_env self)))
        (\<lambda>limit. Ret (limit < saturating_add (te_gas_used self) (env_gas_limit env))))"
    using assms(2) by (simp add: block_env_fits_def u256_to_u64_Ret)
next
  fix env exhausted
  show "is_ret (if exhausted then Ret (Inl (Exhausted tx))
      else if max_data_gas_per_block ops < saturating_add (te_blob_gas_used self) (tx_blob_gas lib tx)
      then Ret (Inl (BlobGasExhausted tx))
      else rbind (validate_pool_transaction_for lib chain (pending_transaction tx) account
             (te_cfg_env self) (te_block_env self))
        (\<lambda>valid. case valid of Inl err \<Rightarrow> Ret (Inl (Invalid tx err)) | Inr _ \<Rightarrow> Ret (Inr env)))"
    using validate_ret [OF assms] by (auto intro!: rbind_is_ret split: sum.split)
qed

lemma exec_run_ret: "evm_no_other ops \<Longrightarrow> is_ret (exec_run lib ops tx account env self)"
  by (auto simp: exec_run_def Let_def evm_no_other_def split: prod.split sum.split EVMError.split)
     (metis EVMError.simps(12) fst_conv sum.simps(5))

lemma exec_next_ret:
  assumes "\<forall>tx \<in> set (te_pending self). tx_fits tx" "block_env_fits (te_block_env self)" "evm_no_other ops"
  shows "is_ret (exec_next lib ops chain self)"
proof (cases "te_pending self")
  case (Cons tx rest)
  with assms have "is_ret (exec_check lib ops chain tx account (self\<lparr>te_pending := rest, te_db := db\<rparr>))" for account db
    by (intro exec_check_ret) simp_all
  with Cons exec_run_ret [OF assms(3)] show ?thesis
    by (auto simp: exec_next_def Let_def intro!: rbind_is_ret split: prod.split sum.split)
qed (simp add: exec_next_def)

lemma exec_next_env:
  "exec_next lib ops chain self = Ret (Some out, self') \<Longrightarrow> te_block_env self' = te_block_env self"
  by (erule exec_next_cases) (auto elim!: exec_run_cases)

lemma exec_loop_ret:
  "\<forall>tx \<in> set (te_pending self). tx_fits tx \<Longrightarrow> block_env_fits (te_block_env self) \<Longrightarrow> evm_no_other ops \<Longrightarrow>
   is_ret (exec_loop lib ops chain c a self)"
proof (induction lib ops chain c a self rule: exec_loop.induct)
  case (1 lib ops chain c a self)
  from exec_next_ret [OF 1(2-4), of lib chain] obtain nxt s where n: "exec_next lib ops chain self = Ret (nxt, s)"
    by (cases "exec_next lib ops chain self") auto
  show ?case
  proof (cases nxt)
    case None
    with n show ?thesis by (simp add: exec_loop.simps)
  next
    case (Some out)
    from exec_next_pending exec_next_env n Some
    obtain tx where "te_pending self = tx # te_pending s" "te_block_env s = te_block_env self" by blast
    with 1(1) [OF n refl Some] 1(2-4) n Some show ?thesis
      by (subst exec_loop.simps) simp
  qed
qed

lemma execute_ret:
  assumes "\<forall>tx \<in> set (te_pending self). tx_fits tx" "block_env_fits (te_block_env self)" "evm_no_other ops"
  shows "is_ret (execute lib ops chain self)"
proof -
  have "is_ret (exec_loop lib ops chain c a self)" for c a
    using exec_loop_ret [OF assms] .
  then show ?thesis
    using assms(2) unfolding execute_def Let_def block_env_fits_def
    by (auto simp: u256_to_u64_Ret case_prod_unfold intro!: rbind_is_ret)
qed

text \<open>
  Executing a block returns a block: if the fields of the block environment and the
  amounts of the transactions fit their types and the interpreter fails only because of the
  database or the transaction, no panic is reached, whatever the transactions do.
\<close>

theorem execute_returns:
  assumes "\<forall>tx \<in> set (te_pending self). tx_fits tx" "block_env_fits (te_block_env self)" "evm_no_other ops"
  shows "\<exists>et db. execute lib ops chain self = Ret (et, db)"
  using execute_ret [OF assms, of lib chain] by (cases "execute lib ops chain self") auto

subsection \<open>A concrete block\<close>

lemma sample_promises: "evm_gas_bound sample_ops" "evm_no_other sample_ops"
  by (simp_all add: evm_gas_bound_def evm_no_other_def sample_ops_def)

lemma sample_fits:
  "\<forall>tx \<in> set (te_pending (sample_executor 3 50000)). tx_fits tx"
  "block_env_fits (te_block_env (sample_executor 3 50000))"
proof -
  have "tx_fits (PoolTransaction_new (sample_legacy c (of_nat i)))" if "i < 3" for c i
  proof -
    from that have "i = 0 \<or> i = 1 \<or> i = 2" by linarith
    then show ?thesis by (auto simp: tx_fits_def PoolTransaction_new_def)
  qed
  then show "\<forall>tx \<in> set (te_pending (sample_executor 3 50000)). tx_fits tx"
    by (auto simp: sample_executor_def)
  show "block_env_fits (te_block_env (sample_executor 3 50000))"
    by (simp add: sample_executor_def block_env_fits_def sample_block_env_def)
qed

theorem execute_returns_witness:
  "\<exists>et db. execute sample_lib sample_ops 31337 (sample_executor 3 50000) = Ret (et, db)"
  by (rule execute_returns [OF sample_fits sample_promises(2)])

lemma sample_execute:
  obtains et db where "execute sample_lib sample_ops 31337 (sample_executor 3 50000) = Ret (et, db)"
  using execute_ret [OF sample_fits sample_promises(2), of sample_lib 31337]
  by (cases "execute sample_lib sample_ops 31337 (sample_executor 3 50000)") auto

theorem block_contents_witness:
  "\<exists>et db. execute sample_lib sample_ops 31337 (sample_executor 3 50000) = Ret (et, db) \<and>
     mset (et_included et) + mset (et_invalid et) \<subseteq># mset (te_pending (sample_executor 3 50000)) \<and>
     map ti_transaction_hash (bi_transactions (et_block et)) = map pool_tx_hash (et_included et)"
proof (rule sample_execute)
  fix et db
  assume "execute sample_lib sample_ops 31337 (sample_executor 3 50000) = Ret (et, db)"
  with block_contents [OF this] show ?thesis by blast
qed

theorem block_gas_within_limit_witness:
  "\<exists>et db. execute sample_lib sample_ops 31337 (sample_executor 3 50000) = Ret (et, db) \<and>
     ph_gas_used (eb_header (bi_block (et_block et))) \<le> ph_gas_limit (eb_header (bi_block (et_block et)))"
proof (rule sample_execute)
  fix et db
  assume ex: "execute sample_lib sample_ops 31337 (sample_executor 3 50000) = Ret (et, db)"
  have "\<not> cfg_disable_block_gas_limit (te_cfg_env (sample_executor 3 50000))"
    "te_gas_used (sample_executor 3 50000) = 0" "te_blob_gas_used (sample_executor 3 50000) = 0"
    by (simp_all add: sample_executor_def sample_cfg_def)
  from block_gas_within_limit [OF ex sample_promises(1) this] ex show ?thesis by blast
qed

end
