(* ===== verification/State_Snapshots.thy ===== *)
theory State_Snapshots
  imports Rust_Prelude
begin

text \<open>
  Snapshots of the state: the table of snapshots
  (\<^verbatim>\<open>evm/core/src/state_snapshot.rs\<close>) and the databases that keep one, the in-memory
  database (\<^verbatim>\<open>anvil/src/eth/backend/mem/in_memory_db.rs\<close>) and the forked one
  (\<^verbatim>\<open>evm/core/src/fork/database.rs\<close>, \<^verbatim>\<open>anvil/src/eth/backend/mem/fork_db.rs\<close>).
  Additions of 256-bit numbers wrap around, as the operators of the library do.
\<close>

subsection \<open>The table of snapshots\<close>

record 'a StateSnapshots =
  sn_id :: u256
  state_snapshots :: "(u256, 'a) hmap"

definition snapshots_default :: "'a StateSnapshots" where
  "snapshots_default = \<lparr>sn_id = 0, state_snapshots = []\<rparr>"

definition snapshots_next_id :: "'a StateSnapshots \<Rightarrow> u256 \<times> 'a StateSnapshots" where
  "snapshots_next_id s = (sn_id s, s\<lparr>sn_id := saturating_add (sn_id s) 1\<rparr>)"

definition snapshots_get :: "'a StateSnapshots \<Rightarrow> u256 \<Rightarrow> 'a option" where
  "snapshots_get s k = hm_get (state_snapshots s) k"

function remove_later :: "u256 \<Rightarrow> u256 \<Rightarrow> (u256, 'a) hmap \<Rightarrow> (u256, 'a) hmap" where
  "remove_later to_revert limit m =
     (if to_revert < limit then remove_later (to_revert + 1) limit (hm_remove to_revert m) else m)"
  by pat_completeness auto
termination
proof (relation "measure (\<lambda>(to_revert, limit, m). unat limit - unat to_revert)"; clarsimp)
  fix to_revert limit :: u256
  assume less: "to_revert < limit"
  then have "to_revert + 1 \<noteq> 0" by (metis max_word_max add.commute add_eq_0_iff leD)
  then have "unat (to_revert + 1) = Suc (unat to_revert)" by (metis add.commute unatSuc)
  with less show "unat limit - unat (to_revert + 1) < unat limit - unat to_revert"
    by (simp add: word_less_nat_alt)
qed

declare remove_later.simps [simp del]

definition snapshots_remove :: "u256 \<Rightarrow> 'a StateSnapshots \<Rightarrow> 'a option \<times> 'a StateSnapshots" where
  "snapshots_remove k s =
     (hm_get (state_snapshots s) k,
      s\<lparr>state_snapshots := remove_later (k + 1) (sn_id s) (hm_remove k (state_snapshots s))\<rparr>)"

definition snapshots_clear :: "'a StateSnapshots \<Rightarrow> 'a StateSnapshots" where
  "snapshots_clear s = s\<lparr>state_snapshots := []\<rparr>"

definition snapshots_remove_at :: "u256 \<Rightarrow> 'a StateSnapshots \<Rightarrow> 'a option \<times> 'a StateSnapshots" where
  "snapshots_remove_at k s =
     (hm_get (state_snapshots s) k, s\<lparr>state_snapshots := hm_remove k (state_snapshots s)\<rparr>)"

definition snapshots_insert :: "'a \<Rightarrow> 'a StateSnapshots \<Rightarrow> u256 \<times> 'a StateSnapshots" where
  "snapshots_insert x s =
     (let (k, s) = snapshots_next_id s in (k, s\<lparr>state_snapshots := hm_insert k x (state_snapshots s)\<rparr>))"

definition snapshots_insert_at :: "'a \<Rightarrow> u256 \<Rightarrow> 'a StateSnapshots \<Rightarrow> u256 \<times> 'a StateSnapshots" where
  "snapshots_insert_at x k s = (k, s\<lparr>state_snapshots := hm_insert k x (state_snapshots s)\<rparr>)"

interpretation snaps: keyed_store snapshots_get "\<lambda>k x s. snd (snapshots_insert_at x k s)"
  "\<lambda>k s. snd (snapshots_remove_at k s)"
  by unfold_locales (simp_all add: fun_eq_iff snapshots_get_def snapshots_insert_at_def snapshots_remove_at_def hm_simps)

lemma remove_later_get:
  "hm_get (remove_later r limit m) k = (if r \<le> k \<and> k < limit then None else hm_get m k)"
proof (induction r limit m rule: remove_later.induct)
  case (1 r limit m)
  show ?case
  proof (cases "r < limit")
    case True
    then have "r + 1 \<noteq> 0" by (metis max_word_max add.commute add_eq_0_iff leD)
    then have "unat (r + 1) = Suc (unat r)" by (metis add.commute unatSuc)
    then have "r + 1 \<le> k \<longleftrightarrow> r < k" by (simp add: word_le_nat_alt word_less_nat_alt Suc_le_eq)
    with True 1 show ?thesis
      by (subst remove_later.simps) (auto simp: hm_get_remove)
  next
    case False
    then show ?thesis by (subst remove_later.simps) auto
  qed
qed

lemma snapshots_get_remove:
  "snapshots_get (snd (snapshots_remove k s)) i =
     (if i = k \<or> k + 1 \<le> i \<and> i < sn_id s then None else snapshots_get s i)"
  by (auto simp: snapshots_get_def snapshots_remove_def remove_later_get hm_get_remove)

subsection \<open>What the table promises\<close>

text \<open>
  Abstractly the table is a number of snapshots taken so far and a partial function from
  natural numbers: taking one appends, removing one removes it and all later ones.
\<close>

type_synonym 'a snapshot_log = "nat \<times> (nat \<Rightarrow> 'a option)"

datatype 'a snap_op = Insert 'a | Remove u256 | RemoveAt u256 | InsertAt 'a u256 | Clear

datatype 'a snap_result = TheId nat | TheSnapshot "'a option" | Done

fun run_op :: "'a snap_op \<Rightarrow> 'a StateSnapshots \<Rightarrow> 'a snap_result \<times> 'a StateSnapshots" where
  "run_op (Insert x) s = (let (k, s') = snapshots_insert x s in (TheId (unat k), s'))"
| "run_op (Remove k) s = (let (r, s') = snapshots_remove k s in (TheSnapshot r, s'))"
| "run_op (RemoveAt k) s = (let (r, s') = snapshots_remove_at k s in (TheSnapshot r, s'))"
| "run_op (InsertAt x k) s = (let (k', s') = snapshots_insert_at x k s in (TheId (unat k'), s'))"
| "run_op Clear s = (Done, snapshots_clear s)"

fun spec_op :: "'a snap_op \<Rightarrow> 'a snapshot_log \<Rightarrow> 'a snap_result \<times> 'a snapshot_log" where
  "spec_op (Insert x) (n, f) = (TheId n, (n + 1, f(n \<mapsto> x)))"
| "spec_op (Remove k) (n, f) =
     (TheSnapshot (f (unat k)), (n, \<lambda>i. if unat k \<le> i then None else f i))"
| "spec_op (RemoveAt k) (n, f) = (TheSnapshot (f (unat k)), (n, f(unat k := None)))"
| "spec_op (InsertAt x k) (n, f) = (TheId (unat k), (n, f(unat k \<mapsto> x)))"
| "spec_op Clear (n, f) = (Done, (n, \<lambda>_. None))"

definition snap_rel :: "'a StateSnapshots \<Rightarrow> 'a snapshot_log \<Rightarrow> bool" where
  "snap_rel s l = (unat (sn_id s) = fst l \<and> (\<forall>k. snapshots_get s k = snd l (unat k)))"

text \<open>No snapshot has a number that was not handed out yet; there are numbers left.\<close>

definition snap_wf :: "'a StateSnapshots \<Rightarrow> bool" where
  "snap_wf s = (sn_id s \<noteq> - 1 \<and> (\<forall>k. snapshots_get s k \<noteq> None \<longrightarrow> k < sn_id s))"

fun op_ok :: "'a snap_op \<Rightarrow> 'a StateSnapshots \<Rightarrow> bool" where
  "op_ok (Insert x) s = (sn_id s + 1 \<noteq> - 1)"
| "op_ok (InsertAt x k) s = (k < sn_id s)"
| "op_ok (Remove k) s = (k \<noteq> - 1)"
| "op_ok _ s = True"

lemma insert_simps:
  assumes "sn_id s \<noteq> - 1"
  shows "unat (sn_id (snd (snapshots_insert x s))) = Suc (unat (sn_id s))"
    "snapshots_get (snd (snapshots_insert x s)) = (snapshots_get s)(sn_id s \<mapsto> x)"
    "fst (snapshots_insert x s) = sn_id s"
    "sn_id (snd (snapshots_insert x s)) = sn_id s + 1"
proof -
  have "sn_id s < - 1" using assms by (simp add: word_order.not_eq_extremum)
  then have "unat (sn_id s) < 2 ^ 256 - 1"
    by (simp add: word_less_nat_alt unat_minus_one_word_max)
  then show "unat (sn_id (snd (snapshots_insert x s))) = Suc (unat (sn_id s))"
    by (simp add: snapshots_insert_def snapshots_next_id_def unat_saturating_add)
  show "sn_id (snd (snapshots_insert x s)) = sn_id s + 1"
    using \<open>unat (sn_id s) < 2 ^ 256 - 1\<close>
    by (simp add: snapshots_insert_def snapshots_next_id_def saturating_add_def)
qed (simp_all add: snapshots_insert_def snapshots_next_id_def fun_eq_iff snapshots_get_def hm_simps)

lemma remove_wf:
  assumes "snap_wf s" "k \<noteq> - 1"
  shows "snapshots_get (snd (snapshots_remove k s)) i = (if k \<le> i then None else snapshots_get s i)"
proof -
  have "k + 1 \<noteq> 0" using assms(2) by (metis add.commute add_eq_0_iff)
  then have "unat (k + 1) = Suc (unat k)" by (metis add.commute unatSuc)
  then have "k + 1 \<le> i \<longleftrightarrow> k < i" by (simp add: word_le_nat_alt word_less_nat_alt Suc_le_eq)
  moreover have "snapshots_get s i = None" if "\<not> i < sn_id s"
    using assms(1) that by (auto simp: snap_wf_def)
  ultimately show ?thesis by (auto simp: snapshots_get_remove)
qed

lemma sn_id_other [simp]:
  "sn_id (snd (snapshots_remove k s)) = sn_id s" "sn_id (snd (snapshots_remove_at k s)) = sn_id s"
  "sn_id (snd (snapshots_insert_at x k s)) = sn_id s" "sn_id (snapshots_clear s) = sn_id s"
  by (simp_all add: snapshots_remove_def snapshots_remove_at_def snapshots_insert_at_def snapshots_clear_def)

lemma results [simp]:
  "fst (snapshots_remove k s) = snapshots_get s k" "fst (snapshots_remove_at k s) = snapshots_get s k"
  "fst (snapshots_insert_at x k s) = k" "snapshots_get (snapshots_clear s) k = None"
  by (simp_all add: snapshots_remove_def snapshots_remove_at_def snapshots_insert_at_def
      snapshots_clear_def snapshots_get_def)

lemma run_op_wf:
  assumes "snap_wf s" "op_ok opn s"
  shows "snap_wf (snd (run_op opn s))"
proof (cases opn)
  case (Insert x)
  from assms(1) have "sn_id s \<noteq> - 1" by (simp add: snap_wf_def)
  note I = insert_simps [OF this, of x]
  then have "k < sn_id s \<Longrightarrow> k < sn_id (snd (snapshots_insert x s))"
      "sn_id s < sn_id (snd (snapshots_insert x s))" for k
    by (simp_all add: word_less_nat_alt)
  then show ?thesis
    using assms Insert I by (auto simp: snap_wf_def case_prod_unfold split: if_splits)
qed (use assms in \<open>auto simp: snap_wf_def remove_wf case_prod_unfold snaps.get_put snaps.get_del
      split: if_splits\<close>)

text \<open>
  C9: The table implements the log of snapshots: from related states every operation returns
  the same result and leads to related states, and keeps the table well-formed. In
  particular removing a snapshot removes all later ones and no earlier one.
\<close>

theorem snapshots_refine:
  assumes "snap_wf s" "op_ok opn s" "snap_rel s l"
  shows "fst (run_op opn s) = fst (spec_op opn l) \<and> snap_rel (snd (run_op opn s)) (snd (spec_op opn l)) \<and>
    snap_wf (snd (run_op opn s))"
proof -
  obtain n f where l: "l = (n, f)" by (cases l)
  from assms(1) have "sn_id s \<noteq> - 1" by (simp add: snap_wf_def)
  note I = insert_simps(1-3) [OF this]
  have eq: "snapshots_get s k = f (unat k)" "unat (sn_id s) = n" for k
    using assms(3) by (simp_all add: snap_rel_def l)
  then have key: "k = sn_id s \<longleftrightarrow> unat k = n" for k by (simp add: word_unat_eq_iff)
  have "fst (run_op opn s) = fst (spec_op opn l) \<and> snap_rel (snd (run_op opn s)) (snd (spec_op opn l))"
  proof (cases opn)
    case (Remove k)
    with assms show ?thesis
      by (simp add: l snap_rel_def case_prod_unfold remove_wf [OF assms(1)] eq word_le_nat_alt)
  qed (simp_all add: l snap_rel_def case_prod_unfold I eq key snaps.get_put snaps.get_del
        word_unat_eq_iff [symmetric] fun_upd_def)
  then show ?thesis using run_op_wf [OF assms(1,2)] by blast
qed

text \<open>Three snapshots, for the concrete instances.\<close>

definition sample_snapshots :: "nat StateSnapshots" where
  "sample_snapshots = fold (\<lambda>x s. snd (snapshots_insert x s)) [10, 11, 12] snapshots_default"

lemma sample_snapshots_eq: "sample_snapshots = \<lparr>sn_id = 3, state_snapshots = [(0, 10), (1, 11), (2, 12)]\<rparr>"
  by (simp add: sample_snapshots_def snapshots_default_def snapshots_insert_def snapshots_next_id_def
      saturating_add_def)

lemma sample_snapshots_wf: "snap_wf sample_snapshots"
  by (auto simp: snap_wf_def sample_snapshots_eq snapshots_get_def split: if_splits)

theorem snapshots_refine_witness:
  "fst (run_op (Remove 1) sample_snapshots) = TheSnapshot (Some 11) \<and>
   snap_wf (snd (run_op (Remove 1) sample_snapshots)) \<and>
   snapshots_get (snd (run_op (Remove 1) sample_snapshots)) 2 = None \<and>
   snapshots_get (snd (run_op (Remove 1) sample_snapshots)) 0 = Some 10"
proof -
  have "snap_rel sample_snapshots (3, \<lambda>i. map_of [(0, 10), (1, 11), (2, 12)] i)"
    by (auto simp: snap_rel_def sample_snapshots_eq snapshots_get_def word_unat_eq_iff)
  from snapshots_refine [OF sample_snapshots_wf _ this, of "Remove 1"] show ?thesis
    by (simp add: snap_rel_def)
qed

text \<open>
  Removing the snapshot with the greatest number removes every snapshot: the number after
  it wraps around to 0.
\<close>

theorem snapshots_remove_max:
  assumes "snap_wf s"
  shows "fst (snapshots_remove (- 1) s) = None \<and> snapshots_get (snd (snapshots_remove (- 1) s)) i = None"
proof -
  have "snapshots_get s k = None" if "\<not> k < sn_id s" for k
    using assms that by (auto simp: snap_wf_def)
  moreover have "\<not> - 1 < sn_id s" by (simp add: word_order.extremum_strict)
  ultimately show ?thesis by (auto simp: snapshots_get_remove)
qed

theorem snapshots_remove_max_witness:
  "snapshots_get sample_snapshots 1 = Some 11 \<and>
   snapshots_get (snd (snapshots_remove (- 1) sample_snapshots)) 1 = None"
  using snapshots_remove_max [OF sample_snapshots_wf, of 1]
  by (simp add: sample_snapshots_eq snapshots_get_def)

subsection \<open>Databases with snapshots\<close>

datatype RevertStateSnapshotAction = RevertRemove | RevertKeep

fun is_keep :: "RevertStateSnapshotAction \<Rightarrow> bool" where
  "is_keep RevertKeep = True"
| "is_keep RevertRemove = False"

text \<open>
  The interface: the contents of a database, the contents saved under a number, taking a
  snapshot and reverting to one; \<open>inv\<close> is the invariant of the implementation and
  \<open>ready\<close> says that a new number is left.
\<close>

locale snapshot_db =
  fixes content :: "'d \<Rightarrow> 'c"
    and saved :: "'d \<Rightarrow> u256 \<Rightarrow> 'c option"
    and inv :: "'d \<Rightarrow> bool"
    and ready :: "'d \<Rightarrow> bool"
    and snapshot_state :: "'d \<Rightarrow> u256 \<times> 'd"
    and revert_state :: "u256 \<Rightarrow> RevertStateSnapshotAction \<Rightarrow> 'd \<Rightarrow> bool \<times> 'd"
  assumes snapshot_saves: "inv d \<Longrightarrow> ready d \<Longrightarrow> snapshot_state d = (k, d') \<Longrightarrow>
      content d' = content d \<and> saved d' = (saved d)(k \<mapsto> content d) \<and> saved d k = None \<and> inv d'"
    and revert_saved: "inv d \<Longrightarrow> saved d k = Some c \<Longrightarrow> revert_state k act d = (b, d') \<Longrightarrow>
      b \<and> content d' = c \<and> saved d' k = (if is_keep act then Some c else None) \<and> inv d'"
    and revert_unsaved: "inv d \<Longrightarrow> saved d k = None \<Longrightarrow> revert_state k act d = (b, d') \<Longrightarrow>
      \<not> b \<and> content d' = content d \<and> inv d'"
begin

lemma roundtrip:
  assumes "inv d" "ready d" "snapshot_state d = (k, d1)"
    and "inv d2" "saved d2 k = saved d1 k" "revert_state k act d2 = (b, d3)"
  shows "b \<and> content d3 = content d"
  using snapshot_saves [OF assms(1-3)] revert_saved [OF assms(4) _ assms(6), of "content d"] assms(5) by simp

lemma revert_keep_again:
  assumes "inv d" "saved d k = Some c" "revert_state k RevertKeep d = (b, d1)"
    and "inv d2" "saved d2 k = saved d1 k" "revert_state k act d2 = (b', d3)"
  shows "b' \<and> content d3 = content d1"
  using revert_saved [OF assms(1-3)] revert_saved [OF assms(4) _ assms(6)] assms(5) by auto

lemma revert_remove_once:
  assumes "inv d" "saved d k = Some c" "revert_state k RevertRemove d = (b, d1)"
    and "revert_state k act d1 = (b', d2)"
  shows "\<not> b' \<and> content d2 = c"
  using revert_saved [OF assms(1-3)] revert_unsaved [OF _ _ assms(4)] by simp

end

paragraph \<open>The in-memory database\<close>

record 'i MemDb =
  md_inner :: 'i
  md_state_snapshots :: "'i StateSnapshots"

definition memdb_snapshot_state :: "'i MemDb \<Rightarrow> u256 \<times> 'i MemDb" where
  "memdb_snapshot_state d =
     (let (k, s) = snapshots_insert (md_inner d) (md_state_snapshots d)
      in (k, d\<lparr>md_state_snapshots := s\<rparr>))"

definition memdb_revert_state ::
    "u256 \<Rightarrow> RevertStateSnapshotAction \<Rightarrow> 'i MemDb \<Rightarrow> bool \<times> 'i MemDb" where
  "memdb_revert_state k act d =
     (case snapshots_remove k (md_state_snapshots d) of
        (Some state_snapshot, s) \<Rightarrow>
          (True, d\<lparr>md_state_snapshots :=
                     (if is_keep act then snd (snapshots_insert_at state_snapshot k s) else s),
                   md_inner := state_snapshot\<rparr>)
      | (None, s) \<Rightarrow> (False, d\<lparr>md_state_snapshots := s\<rparr>))"

lemma insert_fresh: "snap_wf s \<Longrightarrow> snapshots_get s (sn_id s) = None"
  unfolding snap_wf_def by (metis less_irrefl)

interpretation memdb: snapshot_db md_inner "\<lambda>d. snapshots_get (md_state_snapshots d)" "\<lambda>_. True"
  "\<lambda>d. snap_wf (md_state_snapshots d)" memdb_snapshot_state memdb_revert_state
proof (unfold_locales, goal_cases)
  case (1 d k d')
  then have "sn_id (md_state_snapshots d) \<noteq> - 1" by (simp add: snap_wf_def)
  with 1 insert_fresh [OF 1(2)] show ?case
    using insert_simps(2,3) [of "md_state_snapshots d" "md_inner d"]
    by (auto simp: memdb_snapshot_state_def case_prod_unfold)
next
  case (2 d k c act b d')
  then show ?case
    using results(1) [of k "md_state_snapshots d"] snapshots_get_remove [of k "md_state_snapshots d" k]
    by (auto simp: memdb_revert_state_def case_prod_unfold snaps.get_put split: option.splits if_splits)
next
  case (3 d k act b d')
  then show ?case
    using results(1) [of k "md_state_snapshots d"]
    by (auto simp: memdb_revert_state_def case_prod_unfold split: option.splits)
qed

paragraph \<open>The forked database\<close>

record 'a StateSnapshot =
  ss_accounts :: "(u8 list, 'a) hmap"
  ss_storage :: "(u8 list, (u256, u256) hmap) hmap"
  ss_block_hashes :: "(u256, B256) hmap"

record ('c, 'a) ForkDbStateSnapshot =
  fs_local :: 'c
  fs_state_snapshot :: "'a StateSnapshot"

record ('c, 'a) ForkedDatabase =
  fd_cache_db :: 'c
  fd_db :: "'a StateSnapshot"
  fd_state_snapshots :: "('c, 'a) ForkDbStateSnapshot StateSnapshots"

definition create_fork_snapshot :: "('c, 'a) ForkedDatabase \<Rightarrow> ('c, 'a) ForkDbStateSnapshot" where
  "create_fork_snapshot d =
     \<lparr>fs_local = fd_cache_db d,
      fs_state_snapshot =
        \<lparr>ss_accounts = ss_accounts (fd_db d), ss_storage = ss_storage (fd_db d),
         ss_block_hashes = ss_block_hashes (fd_db d)\<rparr>\<rparr>"

definition insert_state_snapshot :: "('c, 'a) ForkedDatabase \<Rightarrow> u256 \<times> ('c, 'a) ForkedDatabase" where
  "insert_state_snapshot d =
     (let (k, s) = snapshots_insert (create_fork_snapshot d) (fd_state_snapshots d)
      in (k, d\<lparr>fd_state_snapshots := s\<rparr>))"

text \<open>A table that is cleared and then extended by the entries of another.\<close>

definition clear_and_extend :: "('k, 'v) hmap \<Rightarrow> ('k, 'v) hmap" where
  "clear_and_extend kvs = fold (\<lambda>(k, v). hm_insert k v) kvs []"

definition fork_revert_state_snapshot ::
    "u256 \<Rightarrow> RevertStateSnapshotAction \<Rightarrow> ('c, 'a) ForkedDatabase \<Rightarrow> bool \<times> ('c, 'a) ForkedDatabase" where
  "fork_revert_state_snapshot k act d =
     (case snapshots_remove_at k (fd_state_snapshots d) of
        (Some snap, s) \<Rightarrow>
          (True,
           d\<lparr>fd_state_snapshots := (if is_keep act then snd (snapshots_insert_at snap k s) else s),
             fd_db :=
               \<lparr>ss_accounts = clear_and_extend (ss_accounts (fs_state_snapshot snap)),
                ss_storage = clear_and_extend (ss_storage (fs_state_snapshot snap)),
                ss_block_hashes = clear_and_extend (ss_block_hashes (fs_state_snapshot snap))\<rparr>,
             fd_cache_db := fs_local snap\<rparr>)
      | (None, s) \<Rightarrow> (False, d\<lparr>fd_state_snapshots := s\<rparr>))"

lemma fold_hm_insert_fresh:
  "distinct (map fst (m @ kvs)) \<Longrightarrow> fold (\<lambda>(k, v). hm_insert k v) kvs m = m @ kvs"
proof (induction kvs arbitrary: m)
  case (Cons p kvs)
  obtain k v where p: "p = (k, v)" by (cases p)
  have "hm_insert k v m = m @ [(k, v)]" if "k \<notin> fst ` set m" for m
    using that by (induction m) auto
  with Cons p show ?case by simp
qed simp

lemma clear_and_extend_id: "hm_wf kvs \<Longrightarrow> clear_and_extend kvs = kvs"
  by (simp add: clear_and_extend_def fold_hm_insert_fresh hm_wf_def)

definition state_snapshot_wf :: "'a StateSnapshot \<Rightarrow> bool" where
  "state_snapshot_wf s = (hm_wf (ss_accounts s) \<and> hm_wf (ss_storage s) \<and> hm_wf (ss_block_hashes s))"

definition fork_inv :: "('c, 'a) ForkedDatabase \<Rightarrow> bool" where
  "fork_inv d =
     (state_snapshot_wf (fd_db d) \<and>
      (\<forall>k x. snapshots_get (fd_state_snapshots d) k = Some x \<longrightarrow> state_snapshot_wf (fs_state_snapshot x)))"

lemma restore_id:
  "state_snapshot_wf s \<Longrightarrow>
   \<lparr>ss_accounts = clear_and_extend (ss_accounts s), ss_storage = clear_and_extend (ss_storage s),
    ss_block_hashes = clear_and_extend (ss_block_hashes s)\<rparr> = s"
  by (simp add: state_snapshot_wf_def clear_and_extend_id)

lemma create_fork_snapshot_simps [simp]:
  "fs_state_snapshot (create_fork_snapshot d) = fd_db d" "fs_local (create_fork_snapshot d) = fd_cache_db d"
  "create_fork_snapshot (d\<lparr>fd_state_snapshots := s\<rparr>) = create_fork_snapshot d"
  by (simp_all add: create_fork_snapshot_def)

interpretation forkdb: snapshot_db create_fork_snapshot "\<lambda>d. snapshots_get (fd_state_snapshots d)" fork_inv
  "\<lambda>d. snap_wf (fd_state_snapshots d)" insert_state_snapshot fork_revert_state_snapshot
proof (unfold_locales, goal_cases)
  case (1 d k d')
  then have "sn_id (fd_state_snapshots d) \<noteq> - 1" by (simp add: snap_wf_def)
  with 1 insert_fresh [OF 1(2)] show ?case
    using insert_simps(2,3) [of "fd_state_snapshots d" "create_fork_snapshot d"]
    by (auto simp: insert_state_snapshot_def case_prod_unfold fork_inv_def split: if_splits)
next
  case (2 d k c act b d')
  then have wf: "state_snapshot_wf (fs_state_snapshot c)" by (auto simp: fork_inv_def)
  from 2 have d': "d' = d\<lparr>fd_state_snapshots :=
        (if is_keep act then snd (snapshots_insert_at c k (snd (snapshots_remove_at k (fd_state_snapshots d))))
         else snd (snapshots_remove_at k (fd_state_snapshots d))),
      fd_db := fs_state_snapshot c, fd_cache_db := fs_local c\<rparr>" "b"
    using results(2) [of k "fd_state_snapshots d"] restore_id [OF wf]
    by (auto simp: fork_revert_state_snapshot_def case_prod_unfold split: option.splits)
  have "create_fork_snapshot d' = c" by (simp add: create_fork_snapshot_def d')
  moreover have "fork_inv d'"
    using 2(1) wf by (auto simp: fork_inv_def d' snaps.get_put snaps.get_del split: if_splits)
  ultimately show ?case using d' by (simp add: snaps.get_put snaps.get_del)
next
  case (3 d k act b d')
  then have "b = False" "d' = d\<lparr>fd_state_snapshots := snd (snapshots_remove_at k (fd_state_snapshots d))\<rparr>"
    using results(2) [of k "fd_state_snapshots d"]
    by (auto simp: fork_revert_state_snapshot_def case_prod_unfold split: option.splits)
  with 3(1) show ?case
    by (auto simp: create_fork_snapshot_def fork_inv_def snaps.get_del split: if_splits)
qed

end
