(* ===== verification/Chain_Storage.thy ===== *)
theory Chain_Storage
  imports Rust_Prelude
begin

text \<open>
  The in-memory storage of the chain, \<^verbatim>\<open>anvil/src/eth/backend/mem/storage.rs\<close>: the
  bounded history of block states (\<open>InMemoryBlockStates\<close>) and the blocks and transactions
  (\<open>BlockchainStorage\<close>). The database of a state and the files of the disk cache are not
  part of it: their operations are parameters, collected in the record \<open>state_ops\<close>.
\<close>

subsection \<open>The history of block states\<close>

record ('s, 'n, 'd) state_ops =
  clear_into_state_snapshot :: "'s \<Rightarrow> 'n \<times> 's"
  init_from_state_snapshot :: "'n \<Rightarrow> 's \<Rightarrow> 's"
  disk_write :: "B256 \<Rightarrow> 'n \<Rightarrow> 'd \<Rightarrow> 'd"
  disk_read :: "B256 \<Rightarrow> 'd \<Rightarrow> 'n option \<times> 'd"
  disk_remove :: "B256 \<Rightarrow> 'd \<Rightarrow> 'd"

record ('s, 'd) InMemoryBlockStates =
  states :: "(B256, 's) hmap"
  on_disk_states :: "(B256, 's) hmap"
  in_memory_limit :: nat
  min_in_memory_limit :: nat
  max_on_disk_limit :: nat
  oldest_on_disk :: "B256 list"
  present :: "B256 list"
  disk_cache :: 'd

definition DEFAULT_HISTORY_LIMIT :: nat where "DEFAULT_HISTORY_LIMIT = 500"
definition MIN_HISTORY_LIMIT :: nat where "MIN_HISTORY_LIMIT = 10"
definition MAX_ON_DISK_HISTORY_LIMIT :: nat where "MAX_ON_DISK_HISTORY_LIMIT = 3600"

definition block_states_new :: "'d \<Rightarrow> nat \<Rightarrow> nat \<Rightarrow> ('s, 'd) InMemoryBlockStates" where
  "block_states_new disk memory_limit on_disk_limit =
     \<lparr>states = [], on_disk_states = [], in_memory_limit = memory_limit,
      min_in_memory_limit = min memory_limit MIN_HISTORY_LIMIT, max_on_disk_limit = on_disk_limit,
      oldest_on_disk = [], present = [], disk_cache = disk\<rparr>"

definition block_states_default :: "'d \<Rightarrow> ('s, 'd) InMemoryBlockStates" where
  "block_states_default disk = block_states_new disk DEFAULT_HISTORY_LIMIT MAX_ON_DISK_HISTORY_LIMIT"

definition memory_only :: "('s, 'd) InMemoryBlockStates \<Rightarrow> ('s, 'd) InMemoryBlockStates" where
  "memory_only m = m\<lparr>max_on_disk_limit := 0\<rparr>"

definition is_memory_only :: "('s, 'd) InMemoryBlockStates \<Rightarrow> bool" where
  "is_memory_only m = (max_on_disk_limit m = 0)"

text \<open>
  One round of each loop of \<open>enforce_limits\<close>. The first loop does not end when the memory
  limit is 0; it is a partial function, \<open>None\<close> where it does not return.
\<close>

definition evict_memory ::
    "('s, 'n, 'd) state_ops \<Rightarrow> ('s, 'd) InMemoryBlockStates \<Rightarrow> ('s, 'd) InMemoryBlockStates" where
  "evict_memory ops m =
     (case present m of
        [] \<Rightarrow> m
      | hash # rest \<Rightarrow>
          let m1 = m\<lparr>present := rest\<rparr>
          in case hm_get (states m) hash of
               None \<Rightarrow> m1
             | Some state \<Rightarrow>
                 let m2 = m1\<lparr>states := hm_remove hash (states m)\<rparr>
                 in if is_memory_only m then m2
                    else
                      let (snapshot, state') = clear_into_state_snapshot ops state
                      in m2\<lparr>disk_cache := disk_write ops hash snapshot (disk_cache m),
                            on_disk_states := hm_insert hash state' (on_disk_states m),
                            oldest_on_disk := oldest_on_disk m @ [hash]\<rparr>)"

partial_function (option) enforce_memory ::
    "('s, 'n, 'd) state_ops \<Rightarrow> ('s, 'd) InMemoryBlockStates \<Rightarrow> ('s, 'd) InMemoryBlockStates option" where
  "enforce_memory ops m =
     (if in_memory_limit m \<le> length (present m) then enforce_memory ops (evict_memory ops m)
      else Some m)"

definition evict_disk ::
    "('s, 'n, 'd) state_ops \<Rightarrow> ('s, 'd) InMemoryBlockStates \<Rightarrow> ('s, 'd) InMemoryBlockStates" where
  "evict_disk ops m =
     (case oldest_on_disk m of
        [] \<Rightarrow> m
      | hash # rest \<Rightarrow>
          m\<lparr>oldest_on_disk := rest, on_disk_states := hm_remove hash (on_disk_states m),
            disk_cache := disk_remove ops hash (disk_cache m)\<rparr>)"

text \<open>The second loop runs only while the disk limit is positive, so its queue is not empty.\<close>

function enforce_disk ::
    "('s, 'n, 'd) state_ops \<Rightarrow> ('s, 'd) InMemoryBlockStates \<Rightarrow> ('s, 'd) InMemoryBlockStates" where
  "enforce_disk ops m =
     (if \<not> is_memory_only m \<and> max_on_disk_limit m \<le> length (oldest_on_disk m)
      then enforce_disk ops (evict_disk ops m) else m)"
  by pat_completeness auto
termination
  by (relation "measure (\<lambda>(ops, m). length (oldest_on_disk m))")
     (auto simp: is_memory_only_def evict_disk_def split: list.split)

declare enforce_disk.simps [simp del]

definition enforce_limits ::
    "('s, 'n, 'd) state_ops \<Rightarrow> ('s, 'd) InMemoryBlockStates \<Rightarrow> ('s, 'd) InMemoryBlockStates option" where
  "enforce_limits ops m = map_option (enforce_disk ops) (enforce_memory ops m)"

definition states_insert ::
    "('s, 'n, 'd) state_ops \<Rightarrow> B256 \<Rightarrow> 's \<Rightarrow> ('s, 'd) InMemoryBlockStates \<Rightarrow>
     ('s, 'd) InMemoryBlockStates option" where
  "states_insert ops hash state m =
     (let m1 = (if \<not> is_memory_only m \<and> in_memory_limit m \<le> length (present m)
                then m\<lparr>in_memory_limit := max (in_memory_limit m - 1) (min_in_memory_limit m)\<rparr>
                else m)
      in map_option
           (\<lambda>m2. m2\<lparr>states := hm_insert hash state (states m2), present := present m2 @ [hash]\<rparr>)
           (enforce_limits ops m1))"

definition update_interval_mine_block_time ::
    "('s, 'n, 'd) state_ops \<Rightarrow> nat \<Rightarrow> ('s, 'd) InMemoryBlockStates \<Rightarrow> ('s, 'd) InMemoryBlockStates option" where
  "update_interval_mine_block_time ops block_time m =
     (if block_time \<le> 2 then enforce_limits ops (m\<lparr>in_memory_limit := DEFAULT_HISTORY_LIMIT * 3\<rparr>)
      else Some m)"

definition states_get ::
    "('s, 'n, 'd) state_ops \<Rightarrow> B256 \<Rightarrow> ('s, 'd) InMemoryBlockStates \<Rightarrow>
     's option \<times> ('s, 'd) InMemoryBlockStates" where
  "states_get ops hash m =
     (case hm_get (states m) hash of
        Some state \<Rightarrow> (Some state, m)
      | None \<Rightarrow>
          (case hm_get (on_disk_states m) hash of
             None \<Rightarrow> (None, m)
           | Some state \<Rightarrow>
               let (cached, disk) = disk_read ops hash (disk_cache m); m1 = m\<lparr>disk_cache := disk\<rparr>
               in case cached of
                    None \<Rightarrow> (None, m1)
                  | Some c \<Rightarrow>
                      let state' = init_from_state_snapshot ops c state
                      in (Some state', m1\<lparr>on_disk_states := hm_insert hash state' (on_disk_states m)\<rparr>)))"

definition set_cache_limit :: "nat \<Rightarrow> ('s, 'd) InMemoryBlockStates \<Rightarrow> ('s, 'd) InMemoryBlockStates" where
  "set_cache_limit limit m = m\<lparr>in_memory_limit := limit\<rparr>"

definition states_clear ::
    "('s, 'n, 'd) state_ops \<Rightarrow> ('s, 'd) InMemoryBlockStates \<Rightarrow> ('s, 'd) InMemoryBlockStates" where
  "states_clear ops m =
     m\<lparr>states := [], on_disk_states := [], present := [], oldest_on_disk := [],
       disk_cache := fold (disk_remove ops) (oldest_on_disk m) (disk_cache m)\<rparr>"

text \<open>\<open>mem_db\<close> is the fresh database that each loaded snapshot is read into.\<close>

fun load_states ::
    "('s, 'n, 'd) state_ops \<Rightarrow> 's \<Rightarrow> (B256 \<times> 'n) list \<Rightarrow> ('s, 'd) InMemoryBlockStates \<Rightarrow>
     ('s, 'd) InMemoryBlockStates option" where
  "load_states ops mem_db [] m = Some m"
| "load_states ops mem_db ((hash, snapshot) # rest) m =
     (case states_insert ops hash (init_from_state_snapshot ops snapshot mem_db) m of
        None \<Rightarrow> None
      | Some m' \<Rightarrow> load_states ops mem_db rest m')"

subsection \<open>Blocks and transactions\<close>

record 'h Block =
  bl_header :: 'h
  bl_number :: u64
  bl_transactions :: "B256 list"

record ('h, 't) BlockchainStorage =
  blocks :: "(B256, 'h Block) hmap"
  hashes :: "(u64, B256) hmap"
  best_hash :: B256
  best_number :: u64
  genesis_hash :: B256
  sto_transactions :: "(B256, 't) hmap"
  total_difficulty :: u256

text \<open>The genesis block and its hash are built from the environment and are arguments.\<close>

definition storage_new :: "'h Block \<Rightarrow> B256 \<Rightarrow> ('h, 't) BlockchainStorage" where
  "storage_new block hash =
     \<lparr>blocks = [(hash, block)], hashes = [(0, hash)], best_hash = hash, best_number = 0,
      genesis_hash = hash, sto_transactions = [], total_difficulty = 0\<rparr>"

definition storage_forked :: "u64 \<Rightarrow> B256 \<Rightarrow> u256 \<Rightarrow> ('h, 't) BlockchainStorage" where
  "storage_forked block_number block_hash difficulty =
     \<lparr>blocks = [], hashes = [(block_number, block_hash)], best_hash = block_hash,
      best_number = block_number, genesis_hash = 0, sto_transactions = [],
      total_difficulty = difficulty\<rparr>"

definition storage_empty :: "('h, 't) BlockchainStorage" where
  "storage_empty =
     \<lparr>blocks = [], hashes = [], best_hash = 0, best_number = 0, genesis_hash = 0,
      sto_transactions = [], total_difficulty = 0\<rparr>"

definition remove_block_transactions ::
    "B256 \<Rightarrow> ('h, 't) BlockchainStorage \<Rightarrow> ('h, 't) BlockchainStorage" where
  "remove_block_transactions block_hash s =
     (case hm_get (blocks s) block_hash of
        None \<Rightarrow> s
      | Some block \<Rightarrow>
          s\<lparr>sto_transactions := fold hm_remove (bl_transactions block) (sto_transactions s),
            blocks := hm_insert block_hash (block\<lparr>bl_transactions := []\<rparr>) (blocks s)\<rparr>)"

definition remove_block_transactions_by_number ::
    "u64 \<Rightarrow> ('h, 't) BlockchainStorage \<Rightarrow> ('h, 't) BlockchainStorage" where
  "remove_block_transactions_by_number num s =
     (case hm_get (hashes s) num of
        None \<Rightarrow> s
      | Some hash \<Rightarrow> remove_block_transactions hash s)"

definition unwind_block :: "u64 \<Rightarrow> ('h, 't) BlockchainStorage \<Rightarrow> ('h, 't) BlockchainStorage" where
  "unwind_block i s =
     (case hm_get (hashes s) i of
        None \<Rightarrow> s
      | Some hash \<Rightarrow>
          let s1 = s\<lparr>hashes := hm_remove i (hashes s)\<rparr>
          in case hm_get (blocks s1) hash of
               None \<Rightarrow> s1
             | Some block \<Rightarrow>
                 remove_block_transactions_by_number (bl_number block)
                   (s1\<lparr>blocks := hm_remove hash (blocks s1)\<rparr>))"

text \<open>The range \<^verbatim>\<open>(block_number + 1)..=best_num\<close>, whose start wraps in a release build.\<close>

definition unwind_range :: "u64 \<Rightarrow> u64 \<Rightarrow> u64 list" where
  "unwind_range block_number best = map of_nat [unat (block_number + 1)..<Suc (unat best)]"

definition unwind_to :: "u64 \<Rightarrow> B256 \<Rightarrow> ('h, 't) BlockchainStorage \<Rightarrow> ('h, 't) BlockchainStorage" where
  "unwind_to block_number block_hash s =
     (fold unwind_block (unwind_range block_number (best_number s)) s)
       \<lparr>best_hash := block_hash, best_number := block_number\<rparr>"

datatype BlockNumberOrTag = Latest | Earliest | Pending | Number u64 | Safe | Finalized

fun storage_hash :: "BlockNumberOrTag \<Rightarrow> ('h, 't) BlockchainStorage \<Rightarrow> B256 option" where
  "storage_hash Latest s = Some (best_hash s)"
| "storage_hash Earliest s = Some (genesis_hash s)"
| "storage_hash Pending s = None"
| "storage_hash (Number num) s = hm_get (hashes s) num"
| "storage_hash Safe s =
     (if 32 < best_number s then hm_get (hashes s) (best_number s - 32) else Some (genesis_hash s))"
| "storage_hash Finalized s =
     (if 64 < best_number s then hm_get (hashes s) (best_number s - 64) else Some (genesis_hash s))"

text \<open>\<open>hash_slow\<close> is the hash of a block's header.\<close>

definition load_blocks ::
    "('h Block \<Rightarrow> B256) \<Rightarrow> 'h Block list \<Rightarrow> ('h, 't) BlockchainStorage \<Rightarrow> ('h, 't) BlockchainStorage" where
  "load_blocks hash_slow bs s =
     fold (\<lambda>b s. s\<lparr>blocks := hm_insert (hash_slow b) b (blocks s),
                   hashes := hm_insert (bl_number b) (hash_slow b) (hashes s)\<rparr>) bs s"

definition load_transactions ::
    "('t \<Rightarrow> B256) \<Rightarrow> 't list \<Rightarrow> ('h, 't) BlockchainStorage \<Rightarrow> ('h, 't) BlockchainStorage" where
  "load_transactions tx_hash ts s =
     fold (\<lambda>t s. s\<lparr>sto_transactions := hm_insert (tx_hash t) t (sto_transactions s)\<rparr>) ts s"

subsection \<open>The limits of the history\<close>

text \<open>
  Every state in memory is queued for eviction, every state on disk is queued for removal,
  and the memory limit never falls below its minimum.
\<close>

definition states_inv :: "('s, 'd) InMemoryBlockStates \<Rightarrow> bool" where
  "states_inv m =
     ((\<forall>h. hm_get (states m) h \<noteq> None \<longrightarrow> h \<in> set (present m)) \<and>
      (\<forall>h. hm_get (on_disk_states m) h \<noteq> None \<longrightarrow> h \<in> set (oldest_on_disk m)) \<and>
      0 < min_in_memory_limit m \<and> min_in_memory_limit m \<le> MIN_HISTORY_LIMIT \<and>
      min_in_memory_limit m \<le> in_memory_limit m)"

text \<open>What the eviction rounds leave alone.\<close>

definition same_limits :: "('s, 'd) InMemoryBlockStates \<Rightarrow> ('s, 'd) InMemoryBlockStates \<Rightarrow> bool" where
  "same_limits m m' =
     (in_memory_limit m' = in_memory_limit m \<and> min_in_memory_limit m' = min_in_memory_limit m \<and>
      max_on_disk_limit m' = max_on_disk_limit m)"

lemma same_limits_refl [simp]: "same_limits m m"
  by (simp add: same_limits_def)

lemma same_limits_trans [trans]: "same_limits a b \<Longrightarrow> same_limits b c \<Longrightarrow> same_limits a c"
  by (simp add: same_limits_def)

lemma evict_memory_limits: "same_limits m (evict_memory ops m)"
  by (simp add: evict_memory_def same_limits_def Let_def split: list.split option.split prod.split)

lemma evict_disk_limits: "same_limits m (evict_disk ops m)"
  by (simp add: evict_disk_def same_limits_def split: list.split)

lemma evict_memory_present: "present (evict_memory ops m) = tl (present m)"
  by (simp add: evict_memory_def Let_def split: list.split option.split prod.split)

lemma evict_disk_present:
  "present (evict_disk ops m) = present m" "states (evict_disk ops m) = states m"
  "oldest_on_disk (evict_disk ops m) = tl (oldest_on_disk m)"
  by (simp_all add: evict_disk_def split: list.split)

lemma states_inv_evict_memory: "states_inv m \<Longrightarrow> states_inv (evict_memory ops m)"
  by (cases "present m")
     (auto simp: evict_memory_def states_inv_def Let_def hm_simps split: option.splits prod.splits if_splits)

lemma states_inv_evict_disk: "states_inv m \<Longrightarrow> states_inv (evict_disk ops m)"
  by (cases "oldest_on_disk m")
     (auto simp: evict_disk_def states_inv_def hm_simps split: if_splits)

text \<open>With a positive memory limit the first loop returns, whatever else it is proved to keep.\<close>

lemma enforce_memory_total:
  assumes "0 < in_memory_limit m" "states_inv m"
  shows "\<exists>m'. enforce_memory ops m = Some m' \<and> length (present m') < in_memory_limit m \<and>
    same_limits m m' \<and> states_inv m'"
  using assms
proof (induction "length (present m)" arbitrary: m rule: less_induct)
  case less
  show ?case
  proof (cases "in_memory_limit m \<le> length (present m)")
    case True
    with less.prems(1) have "length (present (evict_memory ops m)) < length (present m)"
      by (cases "present m") (simp_all add: evict_memory_present)
    moreover have lim: "in_memory_limit (evict_memory ops m) = in_memory_limit m"
      using evict_memory_limits [of m ops] by (simp add: same_limits_def)
    ultimately obtain m' where "enforce_memory ops (evict_memory ops m) = Some m'"
      "length (present m') < in_memory_limit m" "same_limits (evict_memory ops m) m'" "states_inv m'"
      using less.hyps [of "evict_memory ops m"] less.prems states_inv_evict_memory by fastforce
    with True show ?thesis
      using same_limits_trans [OF evict_memory_limits]
      by (subst enforce_memory.simps) auto
  next
    case False
    with less.prems show ?thesis by (subst enforce_memory.simps) auto
  qed
qed

lemma enforce_memory_returns_limit:
  assumes "enforce_memory ops m = Some y"
  shows "in_memory_limit m \<noteq> 0"
proof (rule enforce_memory.raw_induct [of "\<lambda>ops m y. in_memory_limit m \<noteq> 0", OF _ assms], goal_cases)
  case (1 f ops m y)
  show ?case
  proof (cases "in_memory_limit m \<le> length (present m)")
    case True
    with 1(2) have "f ops (evict_memory ops m) = Some y" by simp
    from 1(1) [OF this] evict_memory_limits [of m ops] show ?thesis by (simp add: same_limits_def)
  qed simp
qed

lemma enforce_disk_spec:
  "states_inv m \<Longrightarrow>
   states_inv (enforce_disk ops m) \<and> same_limits m (enforce_disk ops m) \<and>
   present (enforce_disk ops m) = present m \<and> states (enforce_disk ops m) = states m \<and>
   (\<not> is_memory_only m \<longrightarrow> length (oldest_on_disk (enforce_disk ops m)) < max_on_disk_limit m)"
proof (induction ops m rule: enforce_disk.induct)
  case (1 ops m)
  show ?case
  proof (cases "\<not> is_memory_only m \<and> max_on_disk_limit m \<le> length (oldest_on_disk m)")
    case True
    then have "enforce_disk ops m = enforce_disk ops (evict_disk ops m)"
      by (subst enforce_disk.simps) simp
    moreover have "is_memory_only (evict_disk ops m) = is_memory_only m"
      using evict_disk_limits [of m ops] by (simp add: is_memory_only_def same_limits_def)
    ultimately show ?thesis
      using "1.IH" [OF True states_inv_evict_disk [OF "1.prems"]] evict_disk_limits [of m ops]
      by (simp add: same_limits_def evict_disk_present)
  next
    case False
    with "1.prems" show ?thesis by (subst (1 2 3 4 5) enforce_disk.simps) auto
  qed
qed

lemma enforce_limits_total:
  assumes "0 < in_memory_limit m" "states_inv m"
  obtains m' where "enforce_limits ops m = Some m'" "states_inv m'" "same_limits m m'"
    "length (present m') < in_memory_limit m"
    "max_on_disk_limit m = 0 \<or> length (oldest_on_disk m') < max_on_disk_limit m"
proof -
  from enforce_memory_total [OF assms, of ops] obtain m1 where
    m1: "enforce_memory ops m = Some m1" "length (present m1) < in_memory_limit m"
      "same_limits m m1" "states_inv m1" by blast
  note D = enforce_disk_spec [OF m1(4), of ops]
  from D m1 show thesis
    by (intro that [of "enforce_disk ops m1"])
       (auto simp: enforce_limits_def is_memory_only_def same_limits_def)
qed

lemma states_insert_total:
  assumes inv: "states_inv m"
  obtains m' where "states_insert ops hash state m = Some m'" "states_inv m'"
    "length (present m') \<le> in_memory_limit m'"
    "max_on_disk_limit m' = 0 \<or> length (oldest_on_disk m') < max_on_disk_limit m'"
    "hm_get (states m') hash = Some state" "in_memory_limit m' \<le> in_memory_limit m"
proof -
  let ?m = "if \<not> is_memory_only m \<and> in_memory_limit m \<le> length (present m)
      then m\<lparr>in_memory_limit := max (in_memory_limit m - 1) (min_in_memory_limit m)\<rparr> else m"
  have m1: "states_inv ?m" "0 < in_memory_limit ?m" "in_memory_limit ?m \<le> in_memory_limit m"
    using inv by (auto simp: states_inv_def)
  from enforce_limits_total [OF m1(2,1), of ops] obtain m2 where
    e: "enforce_limits ops ?m = Some m2" "states_inv m2" "same_limits ?m m2"
      "length (present m2) < in_memory_limit ?m"
      "max_on_disk_limit ?m = 0 \<or> length (oldest_on_disk m2) < max_on_disk_limit ?m" .
  let ?r = "m2\<lparr>states := hm_insert hash state (states m2), present := present m2 @ [hash]\<rparr>"
  have "states_insert ops hash state m = Some ?r"
    unfolding states_insert_def Let_def e(1) by simp
  moreover have "states_inv ?r"
    using e(2) by (auto simp: states_inv_def hm_simps)
  ultimately show thesis
    using that [of ?r] e(3,4,5) m1(3) unfolding same_limits_def by (simp add: hm_simps)
qed

lemma load_states_total:
  "states_inv m \<Longrightarrow> \<exists>m'. load_states ops mem_db xs m = Some m' \<and> states_inv m'"
proof (induction xs arbitrary: m)
  case (Cons x xs)
  obtain h n where x: "x = (h, n)" by (cases x)
  from states_insert_total [OF Cons.prems, of ops h "init_from_state_snapshot ops n mem_db"]
  obtain m1 where "states_insert ops h (init_from_state_snapshot ops n mem_db) m = Some m1" "states_inv m1"
    by metis
  with Cons.IH x show ?case by auto
qed simp

text \<open>The history as a system: it starts with a positive memory limit, which stays positive.\<close>

inductive states_step ::
    "('s, 'n, 'd) state_ops \<Rightarrow> ('s, 'd) InMemoryBlockStates \<Rightarrow> ('s, 'd) InMemoryBlockStates \<Rightarrow> bool"
  for ops :: "('s, 'n, 'd) state_ops" where
  insert: "states_insert ops hash state m = Some m' \<Longrightarrow> states_step ops m m'"
| lookup: "states_get ops hash m = (res, m') \<Longrightarrow> states_step ops m m'"
| interval: "update_interval_mine_block_time ops t m = Some m' \<Longrightarrow> states_step ops m m'"
| clear: "states_step ops m (states_clear ops m)"
| load: "load_states ops mem_db xs m = Some m' \<Longrightarrow> states_step ops m m'"

definition states_init :: "('s, 'd) InMemoryBlockStates \<Rightarrow> bool" where
  "states_init m = (\<exists>disk mem on_disk. 0 < mem \<and> m = block_states_new disk mem on_disk)"

lemma states_step_inv: "states_step ops m m' \<Longrightarrow> states_inv m \<Longrightarrow> states_inv m'"
proof (induction rule: states_step.induct)
  case (insert hash state m m')
  then show ?case using states_insert_total [OF insert(2), of ops hash state] by (metis option.inject)
next
  case (lookup hash m res m')
  then show ?case
    by (auto simp: states_get_def states_inv_def Let_def hm_simps split: option.splits prod.splits if_splits)
next
  case (interval t m m')
  let ?m = "m\<lparr>in_memory_limit := DEFAULT_HISTORY_LIMIT * 3\<rparr>"
  from interval(2) have "states_inv ?m" "0 < in_memory_limit ?m"
    by (simp_all add: states_inv_def DEFAULT_HISTORY_LIMIT_def MIN_HISTORY_LIMIT_def)
  with interval enforce_limits_total [of ?m ops] show ?case
    by (auto simp: update_interval_mine_block_time_def split: if_splits)
next
  case (clear m)
  then show ?case by (simp add: states_clear_def states_inv_def)
next
  case (load mem_db xs m m')
  then show ?case using load_states_total [OF load(2), of ops mem_db xs] by auto
qed

lemma states_init_inv: "states_init m \<Longrightarrow> states_inv m"
  by (auto simp: states_init_def block_states_new_def states_inv_def MIN_HISTORY_LIMIT_def)

interpretation history: invariant_system states_init "states_step ops" states_inv
  for ops :: "('s, 'n, 'd) state_ops"
  by unfold_locales (auto intro: states_init_inv states_step_inv)

text \<open>
  C17: Storing a block's state always returns in every reachable history that was created
  with a positive memory limit: the eviction loops end. Afterwards the state is in memory,
  at most the limit of states is, fewer than the disk limit are on disk, and the memory
  limit did not grow.
\<close>

theorem states_insert_returns:
  assumes "states_init m0" "(states_step ops)\<^sup>*\<^sup>* m0 m"
  shows "\<exists>m'. states_insert ops hash state m = Some m' \<and> fst (states_get ops hash m') = Some state \<and>
    length (present m') \<le> in_memory_limit m' \<and>
    (\<forall>h. hm_get (states m') h \<noteq> None \<longrightarrow> h \<in> set (present m')) \<and>
    (max_on_disk_limit m' = 0 \<or> length (oldest_on_disk m') < max_on_disk_limit m') \<and>
    in_memory_limit m' \<le> in_memory_limit m"
proof -
  from states_insert_total [OF history.reachable_inv [OF assms], of ops hash state]
  obtain m' where m': "states_insert ops hash state m = Some m'" "states_inv m'"
    "length (present m') \<le> in_memory_limit m'"
    "max_on_disk_limit m' = 0 \<or> length (oldest_on_disk m') < max_on_disk_limit m'"
    "hm_get (states m') hash = Some state" "in_memory_limit m' \<le> in_memory_limit m" .
  moreover have "fst (states_get ops hash m') = Some state" by (simp add: states_get_def m'(5))
  moreover have "\<forall>h. hm_get (states m') h \<noteq> None \<longrightarrow> h \<in> set (present m')"
    using m'(2) unfolding states_inv_def by blast
  ultimately show ?thesis by blast
qed

theorem states_insert_returns_witness:
  "\<exists>m'. states_insert
     \<lparr>clear_into_state_snapshot = (\<lambda>s. (s, 0 :: nat)), init_from_state_snapshot = (\<lambda>n s. n),
      disk_write = hm_insert, disk_read = (\<lambda>h d. (hm_get d h, d)), disk_remove = hm_remove\<rparr>
     7 5 (block_states_new [] 1 2) = Some m' \<and> length (present m') \<le> in_memory_limit m'"
proof -
  have "states_init (block_states_new [] 1 2 :: (nat, (B256, nat) hmap) InMemoryBlockStates)"
    unfolding states_init_def by (intro exI [of _ "[]"] exI [of _ 1] exI [of _ 2]) simp
  from states_insert_returns [OF this rtranclp.rtrancl_refl] show ?thesis by blast
qed

text \<open>
  C40: With a memory limit of 0, which the configuration accepts, storing a state never
  returns: the eviction loop runs forever on the empty queue.
\<close>

theorem states_insert_diverges:
  "states_insert ops hash state (block_states_new disk 0 limit) = None"
proof -
  have "enforce_memory ops m = None" if "in_memory_limit m = 0" for m
    using enforce_memory_returns_limit [of ops m] that by (cases "enforce_memory ops m") auto
  then show ?thesis
    by (simp add: states_insert_def enforce_limits_def block_states_new_def Let_def)
qed

subsection \<open>Unwinding the chain\<close>

text \<open>A storage that files every block under its number.\<close>

definition storage_ok :: "('h, 't) BlockchainStorage \<Rightarrow> bool" where
  "storage_ok s =
     (\<forall>n h b. hm_get (hashes s) n = Some h \<and> hm_get (blocks s) h = Some b \<longrightarrow> bl_number b = n)"

text \<open>
  In such a storage a round of the loop removes the block and its number and nothing else:
  the number is gone when the block's transactions are to be looked up by it.
\<close>

lemma hm_remove_absent: "hm_get m k = None \<Longrightarrow> hm_remove k m = m"
  by (simp add: delete_id map_of_eq_None_iff)

lemma unwind_block_ok:
  assumes "storage_ok s"
  shows "unwind_block i s =
     s\<lparr>hashes := hm_remove i (hashes s),
       blocks := (case hm_get (hashes s) i of None \<Rightarrow> blocks s | Some h \<Rightarrow> hm_remove h (blocks s))\<rparr>"
proof (cases "hm_get (hashes s) i")
  case None
  then show ?thesis by (simp add: unwind_block_def hm_remove_absent)
next
  case (Some h)
  show ?thesis
  proof (cases "hm_get (blocks s) h")
    case None
    with Some show ?thesis by (simp add: unwind_block_def Let_def hm_remove_absent)
  next
    case (Some b)
    with \<open>hm_get (hashes s) i = Some h\<close> assms have "bl_number b = i" by (auto simp: storage_ok_def)
    with Some \<open>hm_get (hashes s) i = Some h\<close> show ?thesis
      by (simp add: unwind_block_def Let_def remove_block_transactions_by_number_def hm_get_remove)
  qed
qed

lemma storage_ok_unwind_block: "storage_ok s \<Longrightarrow> storage_ok (unwind_block i s)"
  by (auto simp: unwind_block_ok) (auto simp: storage_ok_def hm_simps split: option.splits if_splits)

lemma unwind_fold:
  "storage_ok s \<Longrightarrow>
   storage_ok (fold unwind_block is s) \<and>
   sto_transactions (fold unwind_block is s) = sto_transactions s \<and>
   (\<forall>n. hm_get (hashes (fold unwind_block is s)) n = (if n \<in> set is then None else hm_get (hashes s) n)) \<and>
   (\<forall>h. hm_get (blocks (fold unwind_block is s)) h =
      (if \<exists>i \<in> set is. hm_get (hashes s) i = Some h then None else hm_get (blocks s) h))"
proof (induction "is" arbitrary: s)
  case (Cons i "is")
  let ?s = "unwind_block i s"
  have get: "hm_get (hashes ?s) n = (if n = i then None else hm_get (hashes s) n)" for n
    using Cons.prems by (simp add: unwind_block_ok hm_get_remove)
  have blk: "hm_get (blocks ?s) h = (if hm_get (hashes s) i = Some h then None else hm_get (blocks s) h)" for h
    using Cons.prems by (auto simp: unwind_block_ok hm_get_remove split: option.splits)
  have tx: "sto_transactions ?s = sto_transactions s" using Cons.prems by (simp add: unwind_block_ok)
  from Cons.IH [OF storage_ok_unwind_block [OF Cons.prems, of i]] show ?case
    by (simp add: get blk tx) metis
qed simp

lemma set_unwind_range:
  "n < best \<Longrightarrow> set (unwind_range n best) = {i. n < i \<and> i \<le> best}"
proof -
  assume nb: "n < best"
  then have "n + 1 \<noteq> 0" by (metis max_word_max add.commute add_eq_0_iff leD)
  then have s: "unat (n + 1) = Suc (unat n)" by (metis add.commute unatSuc)
  have "i \<in> of_nat ` {Suc (unat n)..<Suc (unat best)} \<longleftrightarrow> n < i \<and> i \<le> best" for i :: u64
  proof
    assume "i \<in> of_nat ` {Suc (unat n)..<Suc (unat best)}"
    then obtain k where k: "i = of_nat k" "Suc (unat n) \<le> k" "k \<le> unat best" by auto
    have "unat best < 2 ^ LENGTH(64)" by (rule unsigned_less)
    with k(3) have "unat i = k" by (simp add: k(1) unat_of_nat take_bit_nat_eq_self)
    with k show "n < i \<and> i \<le> best" by (simp add: word_less_nat_alt word_le_nat_alt)
  next
    assume "n < i \<and> i \<le> best"
    then have "unat i \<in> {Suc (unat n)..<Suc (unat best)}" by (simp add: word_less_nat_alt word_le_nat_alt)
    then show "i \<in> of_nat ` {Suc (unat n)..<Suc (unat best)}" by (intro image_eqI [of _ _ "unat i"]) simp_all
  qed
  then show ?thesis
    unfolding unwind_range_def s set_map set_upt by blast
qed

text \<open>
  C31: Unwinding the chain to an older block removes exactly the later blocks and their
  numbers, makes the given block the best one, and keeps the storage consistent.
\<close>

theorem unwind_to_result:
  assumes "storage_ok s" "n < best_number s"
  shows "storage_ok (unwind_to n h s) \<and> best_number (unwind_to n h s) = n \<and>
    best_hash (unwind_to n h s) = h \<and>
    (\<forall>i. hm_get (hashes (unwind_to n h s)) i =
       (if n < i \<and> i \<le> best_number s then None else hm_get (hashes s) i)) \<and>
    (\<forall>b. hm_get (blocks (unwind_to n h s)) b =
       (if \<exists>i. n < i \<and> i \<le> best_number s \<and> hm_get (hashes s) i = Some b then None
        else hm_get (blocks s) b))"
  using unwind_fold [OF assms(1), of "unwind_range n (best_number s)"]
  by (auto simp: unwind_to_def set_unwind_range [OF assms(2)] storage_ok_def)

text \<open>
  Unwinding removes no transaction, although the code means to remove those of the
  unwound blocks: the storage still answers for them afterwards.
\<close>

theorem unwind_keeps_transactions:
  assumes "storage_ok s"
  shows "sto_transactions (unwind_to n h s) = sto_transactions s"
  using unwind_fold [OF assms, of "unwind_range n (best_number s)"] by (simp add: unwind_to_def)

text \<open>A chain of three blocks, for the concrete instances.\<close>

definition sample_storage :: "(unit, nat) BlockchainStorage" where
  "sample_storage =
     \<lparr>blocks = [(10, \<lparr>bl_header = (), bl_number = 0, bl_transactions = []\<rparr>),
                (11, \<lparr>bl_header = (), bl_number = 1, bl_transactions = [101]\<rparr>),
                (12, \<lparr>bl_header = (), bl_number = 2, bl_transactions = [102]\<rparr>)],
      hashes = [(0, 10), (1, 11), (2, 12)], best_hash = 12, best_number = 2, genesis_hash = 10,
      sto_transactions = [(101, 1), (102, 2)], total_difficulty = 0\<rparr>"

lemma sample_storage_ok: "storage_ok sample_storage"
  by (auto simp: storage_ok_def sample_storage_def split: if_splits)

theorem unwind_to_result_witness:
  "storage_ok sample_storage \<and> 0 < best_number sample_storage \<and>
   hm_get (hashes (unwind_to 0 10 sample_storage)) 2 = None \<and>
   hm_get (hashes (unwind_to 0 10 sample_storage)) 0 = Some 10"
proof -
  have "0 < best_number sample_storage" by code_simp
  from unwind_to_result [OF sample_storage_ok this, of 10] this sample_storage_ok
  show ?thesis by (simp add: sample_storage_def)
qed

theorem unwind_keeps_transactions_witness:
  "storage_ok sample_storage \<and> hm_get (sto_transactions (unwind_to 0 10 sample_storage)) 102 = Some 2"
  using unwind_keeps_transactions [OF sample_storage_ok, of 0 10] sample_storage_ok
  by (simp add: sample_storage_def)

end
