(* ===== verification/Time_Manager.thy ===== *)
theory Time_Manager
  imports Rust_Prelude
begin

text \<open>
  The block clock of the node, \<^verbatim>\<open>anvil/src/eth/backend/time.rs\<close>. The wall clock is an
  argument \<open>now\<close>, in seconds; offsets are \<^verbatim>\<open>i128\<close> values, written as integers
  with the saturation of the source; \<open>last_timestamp + 1\<close> wraps as in a release build.
\<close>

subsection \<open>State and operations\<close>

record TimeManager =
  tm_offset :: int
  last_timestamp :: u64
  next_exact_timestamp :: "u64 option"
  tm_interval :: "u64 option"

definition i128_saturating_add :: "int \<Rightarrow> int \<Rightarrow> int" where
  "i128_saturating_add a b = max (- (2 ^ 127)) (min (2 ^ 127 - 1) (a + b))"

definition i128_as_u64 :: "int \<Rightarrow> u64" where
  "i128_as_u64 x = word_of_int x"

definition time_reset :: "u64 \<Rightarrow> u64 \<Rightarrow> TimeManager \<Rightarrow> TimeManager" where
  "time_reset now start_timestamp t =
     t\<lparr>last_timestamp := start_timestamp,
       tm_offset := uint start_timestamp - uint now,
       next_exact_timestamp := None\<rparr>"

definition TimeManager_new :: "u64 \<Rightarrow> u64 \<Rightarrow> TimeManager" where
  "TimeManager_new now start_timestamp =
     time_reset now start_timestamp
       \<lparr>tm_offset = 0, last_timestamp = 0, next_exact_timestamp = None, tm_interval = None\<rparr>"

definition add_offset :: "int \<Rightarrow> TimeManager \<Rightarrow> int \<times> TimeManager" where
  "add_offset offset t =
     (let next = i128_saturating_add (tm_offset t) offset in (next, t\<lparr>tm_offset := next\<rparr>))"

definition increase_time :: "u64 \<Rightarrow> TimeManager \<Rightarrow> int \<times> TimeManager" where
  "increase_time seconds t = add_offset (uint seconds) t"

datatype TimestampError = TimestampError u64

definition set_next_block_timestamp :: "u64 \<Rightarrow> TimeManager \<Rightarrow> (TimestampError + unit) \<times> TimeManager" where
  "set_next_block_timestamp timestamp t =
     (if timestamp < last_timestamp t then (Inl (TimestampError timestamp), t)
      else (Inr (), t\<lparr>next_exact_timestamp := Some timestamp\<rparr>))"

definition set_block_timestamp_interval :: "u64 \<Rightarrow> TimeManager \<Rightarrow> TimeManager" where
  "set_block_timestamp_interval i t = t\<lparr>tm_interval := Some i\<rparr>"

definition remove_block_timestamp_interval :: "TimeManager \<Rightarrow> bool \<times> TimeManager" where
  "remove_block_timestamp_interval t = (tm_interval t \<noteq> None, t\<lparr>tm_interval := None\<rparr>)"

definition compute_next_timestamp :: "u64 \<Rightarrow> TimeManager \<Rightarrow> u64 \<times> int option" where
  "compute_next_timestamp now t =
     (let current = uint now;
          (next_timestamp, update_offset) =
            (case next_exact_timestamp t of
               Some next \<Rightarrow> (next, True)
             | None \<Rightarrow>
                 (case tm_interval t of
                    Some i \<Rightarrow> (saturating_add (last_timestamp t) i, False)
                  | None \<Rightarrow> (i128_as_u64 (i128_saturating_add current (tm_offset t)), False)));
          next_timestamp' =
            (if next_timestamp < last_timestamp t then last_timestamp t + 1 else next_timestamp)
      in (next_timestamp', if update_offset then Some (uint next_timestamp' - current) else None))"

definition next_timestamp :: "u64 \<Rightarrow> TimeManager \<Rightarrow> u64 \<times> TimeManager" where
  "next_timestamp now t =
     (let (next, next_offset) = compute_next_timestamp now t
      in (next,
          t\<lparr>next_exact_timestamp := None,
            tm_offset := (case next_offset of Some off \<Rightarrow> off | None \<Rightarrow> tm_offset t),
            last_timestamp := next\<rparr>))"

definition current_call_timestamp :: "u64 \<Rightarrow> TimeManager \<Rightarrow> u64" where
  "current_call_timestamp now t = fst (compute_next_timestamp now t)"

subsection \<open>The clock as a system\<close>

inductive time_step :: "TimeManager \<Rightarrow> TimeManager \<Rightarrow> bool" where
  reset: "time_step t (time_reset now start t)"
| increase: "increase_time seconds t = (off, t') \<Longrightarrow> time_step t t'"
| exact: "set_next_block_timestamp ts t = (res, t') \<Longrightarrow> time_step t t'"
| interval: "time_step t (set_block_timestamp_interval i t)"
| no_interval: "remove_block_timestamp_interval t = (b, t') \<Longrightarrow> time_step t t'"
| block: "next_timestamp now t = (ts, t') \<Longrightarrow> time_step t t'"

text \<open>The offset stays an \<^verbatim>\<open>i128\<close> and a pending exact timestamp is never in the past.\<close>

definition time_inv :: "TimeManager \<Rightarrow> bool" where
  "time_inv t =
     (- (2 ^ 127) \<le> tm_offset t \<and> tm_offset t \<le> 2 ^ 127 - 1 \<and>
      (case next_exact_timestamp t of None \<Rightarrow> True | Some ts \<Rightarrow> last_timestamp t \<le> ts))"

definition time_init :: "TimeManager \<Rightarrow> bool" where
  "time_init t = (\<exists>now start. t = TimeManager_new now start)"

lemma uint_u64_bound: "0 \<le> uint (x :: u64)" "uint (x :: u64) < 2 ^ 64"
  using uint_bounded [of x] by simp_all

lemma offset_in_range: "- (2 ^ 127) \<le> uint (a :: u64) - uint (b :: u64) \<and> uint a - uint b \<le> 2 ^ 127 - 1"
proof -
  have "(2 :: int) ^ 64 \<le> 2 ^ 127 - 1" by simp
  with uint_u64_bound [of a] uint_u64_bound [of b] show ?thesis by linarith
qed

lemma i128_saturating_add_range:
  "- (2 ^ 127) \<le> i128_saturating_add a b" "i128_saturating_add a b \<le> 2 ^ 127 - 1"
  by (simp_all add: i128_saturating_add_def)

lemma i128_saturating_add_exact:
  "- (2 ^ 127) \<le> a + b \<Longrightarrow> a + b \<le> 2 ^ 127 - 1 \<Longrightarrow> i128_saturating_add a b = a + b"
  by (simp add: i128_saturating_add_def)

lemma time_inv_reset: "time_inv (time_reset now start t)"
  using offset_in_range [of start now] by (simp add: time_inv_def time_reset_def)

lemma time_inv_next: "time_inv t \<Longrightarrow> time_inv (snd (next_timestamp now t))"
  using offset_in_range
  by (auto simp: time_inv_def next_timestamp_def compute_next_timestamp_def Let_def
        split: option.splits prod.splits if_splits)

lemma time_step_inv: "time_step t t' \<Longrightarrow> time_inv t \<Longrightarrow> time_inv t'"
proof (induction rule: time_step.induct)
  case (reset t now start)
  then show ?case by (simp add: time_inv_reset)
next
  case (increase seconds t off t')
  then show ?case
    using i128_saturating_add_range [of "tm_offset t" "uint seconds"]
    by (auto simp: increase_time_def add_offset_def Let_def time_inv_def split: option.splits)
next
  case (exact ts t res t')
  then show ?case
    by (auto simp: set_next_block_timestamp_def time_inv_def not_less split: if_splits)
next
  case (block now t ts t')
  then show ?case using time_inv_next [of t now] by simp
qed (auto simp: time_inv_def set_block_timestamp_interval_def remove_block_timestamp_interval_def
       split: option.splits)

interpretation clock: invariant_system time_init time_step time_inv
  by unfold_locales (auto simp: time_init_def TimeManager_new_def time_inv_reset intro: time_step_inv)

subsection \<open>Properties\<close>

lemma next_timestamp_simps [simp]:
  "last_timestamp (snd (next_timestamp now t)) = fst (next_timestamp now t)"
  "next_exact_timestamp (snd (next_timestamp now t)) = None"
  "tm_interval (snd (next_timestamp now t)) = tm_interval t"
  "fst (next_timestamp now t) = current_call_timestamp now t"
  by (simp_all add: next_timestamp_def current_call_timestamp_def split: prod.splits)

lemma u64_succ_greater: "a < b \<Longrightarrow> b \<noteq> - 1 \<Longrightarrow> b < b + (1 :: u64)"
proof -
  assume "b \<noteq> - 1"
  then have "1 + b \<noteq> 0" by (metis add_eq_0_iff)
  from unatSuc [OF this] show ?thesis by (simp add: word_less_nat_alt add.commute)
qed

lemma compute_next_ge:
  assumes "last_timestamp t \<noteq> - 1"
  shows "last_timestamp t \<le> current_call_timestamp now t"
proof -
  have "last_timestamp t \<le> (if x < last_timestamp t then last_timestamp t + 1 else x)" for x
    using u64_succ_greater [of x "last_timestamp t"] assms by (auto intro: less_imp_le)
  then show ?thesis
    by (simp add: current_call_timestamp_def compute_next_timestamp_def Let_def split: prod.splits)
qed

text \<open>
  C34: Block timestamps never go backwards: whatever the clock reads and whatever was set,
  the next block's timestamp is at least the last one's, as long as the last one is not the
  greatest 64-bit number; and it is the value a call at the same moment sees.
\<close>

theorem next_timestamp_monotone:
  assumes "last_timestamp t \<noteq> - 1"
  shows "last_timestamp t \<le> fst (next_timestamp now t) \<and>
    last_timestamp (snd (next_timestamp now t)) = fst (next_timestamp now t) \<and>
    fst (next_timestamp now t) = current_call_timestamp now t"
  using compute_next_ge [OF assms] by simp

theorem next_timestamp_monotone_witness:
  "last_timestamp (TimeManager_new 100 70) \<noteq> - 1 \<and>
   last_timestamp (TimeManager_new 100 70) \<le> fst (next_timestamp 90 (TimeManager_new 100 70))"
proof -
  have "last_timestamp (TimeManager_new 100 70) \<noteq> - 1" by code_simp
  with next_timestamp_monotone show ?thesis by blast
qed

text \<open>
  At the greatest 64-bit timestamp the rule breaks: if the clock yields anything
  smaller, the next block's timestamp is 0.
\<close>

theorem next_timestamp_wraps:
  assumes "last_timestamp t = - 1" "next_exact_timestamp t = None" "tm_interval t = None"
    and "i128_as_u64 (i128_saturating_add (uint now) (tm_offset t)) \<noteq> - 1"
  shows "fst (next_timestamp now t) = 0"
  using assms
  by (simp add: current_call_timestamp_def compute_next_timestamp_def Let_def word_order.not_eq_extremum)

theorem next_timestamp_wraps_witness:
  "\<exists>t. time_init t \<and>
     (let (_, t1) = set_next_block_timestamp (- 1) t; (ts, t2) = next_timestamp 1000 t1
      in ts = - 1 \<and> fst (next_timestamp 1005 t2) = 0)"
proof -
  let ?t = "snd (next_timestamp 1000 (snd (set_next_block_timestamp (- 1) (TimeManager_new 1000 1000))))"
  have "last_timestamp ?t = - 1" "next_exact_timestamp ?t = None" "tm_interval ?t = None"
    "i128_as_u64 (i128_saturating_add (uint (1005 :: u64)) (tm_offset ?t)) \<noteq> - 1"
    by code_simp+
  from next_timestamp_wraps [OF this]
  have "fst (next_timestamp 1005 ?t) = 0" .
  moreover have "fst (next_timestamp 1000 (snd (set_next_block_timestamp (- 1) (TimeManager_new 1000 1000)))) = - 1"
    by code_simp
  moreover have "time_init (TimeManager_new 1000 1000)" by (auto simp: time_init_def)
  ultimately show ?thesis
    by (intro exI [of _ "TimeManager_new 1000 1000"]) (simp add: case_prod_beta Let_def)
qed

text \<open>
  An exact timestamp set for the next block is refused exactly when it is lower than the
  last one, and otherwise is the timestamp of the next block; from then on time flows from
  there: a block \<open>d\<close> seconds later gets the timestamp \<open>d\<close> seconds later.
\<close>

theorem exact_timestamp_taken:
  assumes "tm_interval t = None"
    and "uint ts + int d < 2 ^ 64" "uint now + int d < 2 ^ 64"
  shows "(fst (set_next_block_timestamp ts t) = Inl (TimestampError ts) \<longleftrightarrow> ts < last_timestamp t) \<and>
    (\<not> ts < last_timestamp t \<longrightarrow>
      (let (_, t1) = set_next_block_timestamp ts t; (ts', t2) = next_timestamp now t1
       in ts' = ts \<and> uint (fst (next_timestamp (now + of_nat d) t2)) = uint ts + int d))"
proof -
  have later: "uint (fst (next_timestamp (now + of_nat d) t2)) = uint ts + int d"
    if "t2 = t\<lparr>next_exact_timestamp := None, tm_offset := uint ts - uint now, last_timestamp := ts\<rparr>" for t2
  proof -
    have d: "int d < 2 ^ 64" using assms(3) uint_u64_bound(1) [of now] by linarith
    have n: "uint (now + of_nat d) = uint now + int d"
    proof -
      have "now + of_nat d = word_of_int (uint now + int d)" by simp
      with assms(3) uint_u64_bound(1) [of now] show ?thesis
        by (simp only: uint_word_of_int) (simp add: take_bit_int_eq_self)
    qed
    have "uint now + int d + (uint ts - uint now) = uint ts + int d" by simp
    moreover have "(2 :: int) ^ 64 \<le> 2 ^ 127 - 1" "- (2 ^ 127 :: int) \<le> 0" by simp_all
    ultimately have "i128_saturating_add (uint now + int d) (uint ts - uint now) = uint ts + int d"
      using i128_saturating_add_exact [of "uint now + int d" "uint ts - uint now"]
        assms(2) uint_u64_bound(1) [of ts] by linarith
    moreover have u: "uint (word_of_int (uint ts + int d) :: u64) = uint ts + int d"
      using assms(2) uint_u64_bound(1) [of ts]
      by (simp only: uint_word_of_int) (simp add: take_bit_int_eq_self)
    moreover have "\<not> word_of_int (uint ts + int d) < ts"
      unfolding word_less_def u by simp
    ultimately show ?thesis
      using assms(1)
      by (simp add: that current_call_timestamp_def compute_next_timestamp_def Let_def i128_as_u64_def n)
  qed
  have "next_timestamp now (t\<lparr>next_exact_timestamp := Some ts\<rparr>) =
      (ts, t\<lparr>next_exact_timestamp := None, tm_offset := uint ts - uint now, last_timestamp := ts\<rparr>)"
    if "\<not> ts < last_timestamp t"
    using that by (simp add: next_timestamp_def compute_next_timestamp_def Let_def)
  with later show ?thesis
    unfolding set_next_block_timestamp_def Let_def by (simp del: next_timestamp_simps)
qed

theorem exact_timestamp_taken_witness:
  "(let (_, t1) = set_next_block_timestamp 500 (TimeManager_new 100 70); (ts, t2) = next_timestamp 110 t1
    in ts = 500 \<and> uint (fst (next_timestamp (110 + of_nat 12) t2)) = 512)"
  using exact_timestamp_taken [of "TimeManager_new 100 70" 500 12 110]
  by (simp add: TimeManager_new_def time_reset_def)

text \<open>
  In every state the clock can reach, a pending exact timestamp is the timestamp of the
  next block, whatever was set in between: it is never replaced by the last one plus one.
\<close>

theorem exact_timestamp_honoured:
  assumes "time_init t0" "time_step\<^sup>*\<^sup>* t0 t" "next_exact_timestamp t = Some ts"
  shows "fst (next_timestamp now t) = ts"
proof -
  from clock.reachable_inv [OF assms(1,2)] assms(3) have "\<not> ts < last_timestamp t"
    by (simp add: time_inv_def not_less)
  with assms(3) show ?thesis
    by (simp add: current_call_timestamp_def compute_next_timestamp_def Let_def)
qed

theorem exact_timestamp_honoured_witness:
  "\<exists>t. time_step\<^sup>*\<^sup>* (TimeManager_new 100 70) t \<and> next_exact_timestamp t = Some 90 \<and>
       fst (next_timestamp 105 t) = 90"
proof -
  let ?start = "TimeManager_new 100 70"
  let ?t = "snd (set_next_block_timestamp 90 ?start)"
  have i: "time_init ?start" unfolding time_init_def by blast
  have s: "time_step\<^sup>*\<^sup>* ?start ?t" by (rule r_into_rtranclp, rule time_step.exact [OF prod.collapse [symmetric]])
  have e: "next_exact_timestamp ?t = Some 90" by code_simp
  from exact_timestamp_honoured [OF i s e] s e show ?thesis by blast
qed

end
