(* ===== verification/Node_Backend.thy ===== *)
theory Node_Backend
  imports Executor State_Snapshots Chain_Storage Time_Manager Txpool
begin

text \<open>
  The backend of the node, \<^verbatim>\<open>anvil/src/eth/backend/mem/mod.rs\<close>: mining a block
  (\<open>do_mine_block\<close>), snapshots of the chain (\<open>create_state_snapshot\<close>,
  \<open>revert_state_snapshot\<close>), \<open>rollback\<close> and \<open>reorg\<close>. It composes the block clock, the
  fee manager, the history of states, the storage of the chain and the executor. The
  database is any implementation of the \<^verbatim>\<open>Db\<close> trait: a record of its functions.
  Library functions are the fields of \<open>node_lib\<close>; locks are not modelled, an operation
  runs alone. The chain is a local one: a fork is an optional function that answers for
  blocks the storage does not have.
\<close>

subsection \<open>State\<close>

record 'tr MinedTransaction =
  mt_info :: "'tr TransactionInfo"
  mt_receipt :: TypedReceipt
  mt_block_hash :: B256
  mt_block_number :: u64

record DbAccount =
  da_info :: AccountInfo
  da_storage :: "(u256 \<times> u256) list"

record ('db, 'st) db_trait =
  db_snapshot_state :: "'db \<Rightarrow> u256 \<times> 'db"
  db_revert_state :: "u256 \<Rightarrow> RevertStateSnapshotAction \<Rightarrow> 'db \<Rightarrow> bool \<times> 'db"
  db_insert_block_hash :: "u256 \<Rightarrow> B256 \<Rightarrow> 'db \<Rightarrow> 'db"
  db_current_state :: "'db \<Rightarrow> 'st"
  db_clear :: "'db \<Rightarrow> 'db"
  db_set_storage_at :: "address \<Rightarrow> B256 \<Rightarrow> B256 \<Rightarrow> 'db \<Rightarrow> (string + unit) \<times> 'db"
  db_insert_account :: "address \<Rightarrow> AccountInfo \<Rightarrow> 'db \<Rightarrow> 'db"
  state_as_full_db :: "'st \<Rightarrow> (address \<times> DbAccount) list option"

text \<open>The header of a block as the fork or the conversion for the RPC interface gives it.\<close>

record AnyHeader =
  ah_timestamp :: u64
  ah_difficulty :: u256
  ah_mix_hash :: "B256 option"
  ah_gas_limit :: u64

record ('v, 'db, 'tr, 'st, 'n, 'd) node_lib =
  nl_val :: "'v validation_lib"
  nl_exec :: "('db, 'tr) exec_ops"
  nl_db :: "('db, 'st) db_trait"
  nl_states :: "('st, 'n, 'd) state_ops"
  nl_hash_slow :: "BlockHeader \<Rightarrow> B256"
  nl_tx_hash :: "MaybeImpersonatedTransaction \<Rightarrow> B256"
  nl_any_header :: "BlockHeader \<Rightarrow> AnyHeader"
  nl_calc_base_fee :: "u64 \<Rightarrow> u64 \<Rightarrow> u64 \<Rightarrow> u64"
  nl_calc_excess_blob_gas :: "u64 \<Rightarrow> u64 \<Rightarrow> u64"
  nl_blob_excess_gas_and_price :: "u64 \<Rightarrow> BlobExcessGasAndPrice"
  nl_is_arbitrum :: "u64 \<Rightarrow> bool"
  nl_merge :: u8
  nl_default_block_env :: BlockEnv

datatype BackendError = BlockNotFound | DataUnavailable | ForkError string | DbError string

record ('db, 'tr, 'st, 'd) Backend =
  bk_db :: 'db
  bk_storage :: "(BlockHeader, 'tr MinedTransaction) BlockchainStorage"
  bk_states :: "('st, 'd) InMemoryBlockStates"
  bk_block_env :: BlockEnv
  bk_cfg_env :: CfgEnv
  bk_time :: TimeManager
  bk_fees :: FeeManager
  bk_active_state_snapshots :: "(u256, u64 \<times> B256) hmap"
  bk_prune_enabled :: bool
  bk_max_memory_history :: "nat option"
  bk_transaction_block_keeper :: "nat option"

definition is_state_history_supported :: "('db, 'tr, 'st, 'd) Backend \<Rightarrow> bool" where
  "is_state_history_supported b = (\<not> bk_prune_enabled b \<or> bk_max_memory_history b \<noteq> None)"

definition is_eip3675 :: "('v, 'db, 'tr, 'st, 'n, 'd) node_lib \<Rightarrow> ('db, 'tr, 'st, 'd) Backend \<Rightarrow> bool" where
  "is_eip3675 lib b = (nl_merge lib \<le> cfg_spec_id (bk_cfg_env b))"

subsection \<open>Mining a block\<close>

definition stored_block :: "('v, 'db, 'tr, 'st, 'n, 'd) node_lib \<Rightarrow> ExecBlock \<Rightarrow> BlockHeader Block" where
  "stored_block lib block =
     \<lparr>bl_header = eb_header block, bl_number = ph_number (eb_header block),
      bl_transactions = map (nl_tx_hash lib) (eb_transactions block)\<rparr>"

definition store_transactions ::
    "B256 \<Rightarrow> u64 \<Rightarrow> 'tr BlockInfo \<Rightarrow> (B256, 'tr MinedTransaction) hmap \<Rightarrow> (B256, 'tr MinedTransaction) hmap" where
  "store_transactions block_hash block_number info m =
     fold (\<lambda>(i, receipt). hm_insert (ti_transaction_hash i)
             \<lparr>mt_info = i, mt_receipt = receipt, mt_block_hash = block_hash, mt_block_number = block_number\<rparr>)
       (zip (bi_transactions info) (bi_receipts info)) m"

definition store_block ::
    "('v, 'db, 'tr, 'st, 'n, 'd) node_lib \<Rightarrow> ('db, 'tr, 'st, 'd) Backend \<Rightarrow> u64 \<Rightarrow> B256 \<Rightarrow> 'tr BlockInfo \<Rightarrow>
     (BlockHeader, 'tr MinedTransaction) BlockchainStorage" where
  "store_block lib b block_number block_hash info =
     (let s = bk_storage b; block = bi_block info;
          s = s\<lparr>best_number := block_number, best_hash := block_hash\<rparr>;
          s = (if is_eip3675 lib b then s
               else s\<lparr>total_difficulty := saturating_add (total_difficulty s) (ph_difficulty (eb_header block))\<rparr>);
          s = s\<lparr>blocks := hm_insert block_hash (stored_block lib block) (blocks s),
                hashes := hm_insert block_number block_hash (hashes s)\<rparr>;
          s = s\<lparr>sto_transactions := store_transactions block_hash block_number info (sto_transactions s)\<rparr>
      in case bk_transaction_block_keeper b of
           None \<Rightarrow> s
         | Some keeper \<Rightarrow>
             if keeper < length (blocks s)
             then remove_block_transactions_by_number
                    (saturating_sub block_number (if keeper < 2 ^ 64 then of_nat keeper else - 1)) s
             else s)"

definition next_fees ::
    "('v, 'db, 'tr, 'st, 'n, 'd) node_lib \<Rightarrow> BlockHeader \<Rightarrow> FeeManager \<Rightarrow> FeeManager" where
  "next_fees lib header fees =
     (let next_block_base_fee =
            get_next_block_base_fee_per_gas (nl_calc_base_fee lib) (ucast (ph_gas_used header))
              (ucast (ph_gas_limit header)) (case ph_base_fee header of Some f \<Rightarrow> f | None \<Rightarrow> 0) fees;
          next_block_excess_blob_gas =
            get_next_block_blob_excess_gas (nl_calc_excess_blob_gas lib)
              (case ph_excess_blob_gas header of Some g \<Rightarrow> ucast g | None \<Rightarrow> 0)
              (case ph_blob_gas_used header of Some g \<Rightarrow> ucast g | None \<Rightarrow> 0)
      in set_blob_excess_gas_and_price (nl_blob_excess_gas_and_price lib next_block_excess_blob_gas)
           (set_base_fee next_block_base_fee fees))"

text \<open>
  The environment of the next block. The base fee is tested before the new one is set.
\<close>

definition mining_env ::
    "('v, 'db, 'tr, 'st, 'n, 'd) node_lib \<Rightarrow> B256 \<Rightarrow> ('db, 'tr, 'st, 'd) Backend \<Rightarrow> CfgEnv \<times> BlockEnv" where
  "mining_env lib random b =
     (let cfg = bk_cfg_env b; block = bk_block_env b;
          block_number = saturating_add (best_number (bk_storage b)) 1
      in (if be_basefee block = 0 then cfg\<lparr>cfg_disable_base_fee := True\<rparr> else cfg,
          block\<lparr>be_number :=
                  (if nl_is_arbitrum lib (cfg_chain_id cfg) then ucast block_number
                   else saturating_add (be_number block) 1),
                be_basefee := ucast (base_fee (bk_fees b)),
                be_blob_excess_gas_and_price := excess_blob_gas_and_price (bk_fees b),
                be_prevrandao := Some random\<rparr>))"

text \<open>
  The result is \<open>None\<close> if storing the state of the parent does not return, and a panic if
  the executor panics.
\<close>

definition do_mine_block ::
    "('v, 'db, 'tr, 'st, 'n, 'd) node_lib \<Rightarrow> u64 \<Rightarrow> B256 \<Rightarrow> PoolTransaction list \<Rightarrow>
     ('db, 'tr, 'st, 'd) Backend \<Rightarrow> (MinedBlockOutcome \<times> ('db, 'tr, 'st, 'd) Backend) rust option" where
  "do_mine_block lib now random pool_transactions b =
     (let (cfg, block_env) = mining_env lib random b;
          block_number = saturating_add (best_number (bk_storage b)) 1;
          parent = best_hash (bk_storage b)
      in case (if is_state_history_supported b
               then states_insert (nl_states lib) parent (db_current_state (nl_db lib) (bk_db b)) (bk_states b)
               else Some (bk_states b)) of
           None \<Rightarrow> None
         | Some states' \<Rightarrow>
             let (timestamp, time') = next_timestamp now (bk_time b);
                 block_env = block_env\<lparr>be_timestamp := ucast timestamp\<rparr>
             in Some (rbind
                  (execute (nl_val lib) (nl_exec lib) (cfg_chain_id (bk_cfg_env b))
                     \<lparr>te_db = bk_db b, te_pending = pool_transactions, te_block_env = block_env,
                      te_cfg_env = cfg, te_parent_hash = parent, te_gas_used = 0, te_blob_gas_used = 0\<rparr>)
                  (\<lambda>(executed, db).
                     let info = et_block executed; header = eb_header (bi_block info);
                         block_hash = nl_hash_slow lib header
                     in Ret (\<lparr>mb_block_number = block_number, mb_included = et_included executed,
                              mb_invalid = et_invalid executed\<rparr>,
                             b\<lparr>bk_db := db_insert_block_hash (nl_db lib) (ucast (ph_number header)) block_hash db,
                               bk_storage := store_block lib b block_number block_hash info,
                               bk_states := states',
                               bk_block_env := block_env\<lparr>be_difficulty := 0\<rparr>,
                               bk_cfg_env := cfg,
                               bk_time := time',
                               bk_fees := next_fees lib header (bk_fees b)\<rparr>))))"

subsection \<open>Snapshots of the chain\<close>

definition create_state_snapshot ::
    "('v, 'db, 'tr, 'st, 'n, 'd) node_lib \<Rightarrow> ('db, 'tr, 'st, 'd) Backend \<Rightarrow> u256 \<times> ('db, 'tr, 'st, 'd) Backend" where
  "create_state_snapshot lib b =
     (let num = best_number (bk_storage b); hash = best_hash (bk_storage b);
          (k, db) = db_snapshot_state (nl_db lib) (bk_db b)
      in (k, b\<lparr>bk_db := db,
              bk_active_state_snapshots := hm_insert k (num, hash) (bk_active_state_snapshots b)\<rparr>))"

text \<open>Removal of one block with its transactions, from the newest block down.\<close>

definition revert_block ::
    "u64 \<Rightarrow> ('h, 't) BlockchainStorage \<Rightarrow> ('h, 't) BlockchainStorage" where
  "revert_block n s =
     (case hm_get (hashes s) n of
        None \<Rightarrow> s
      | Some hash \<Rightarrow>
          let s = s\<lparr>hashes := hm_remove n (hashes s)\<rparr>
          in case hm_get (blocks s) hash of
               None \<Rightarrow> s
             | Some block \<Rightarrow>
                 s\<lparr>blocks := hm_remove hash (blocks s),
                   sto_transactions := fold hm_remove (bl_transactions block) (sto_transactions s)\<rparr>)"

definition revert_storage ::
    "u64 \<Rightarrow> B256 \<Rightarrow> ('h, 't) BlockchainStorage \<Rightarrow> ('h, 't) BlockchainStorage" where
  "revert_storage num hash s =
     (fold revert_block (rev (unwind_range num (best_number s))) s)\<lparr>best_number := num, best_hash := hash\<rparr>"

definition block_by_hash ::
    "('v, 'db, 'tr, 'st, 'n, 'd) node_lib \<Rightarrow> (B256 \<Rightarrow> string + AnyHeader option) option \<Rightarrow> B256 \<Rightarrow>
     ('db, 'tr, 'st, 'd) Backend \<Rightarrow> BackendError + AnyHeader option" where
  "block_by_hash lib fork hash b =
     (case hm_get (blocks (bk_storage b)) hash of
        Some block \<Rightarrow> Inr (Some (nl_any_header lib (bl_header block)))
      | None \<Rightarrow>
          (case fork of
             Some fork_block_by_hash \<Rightarrow>
               (case fork_block_by_hash hash of Inl e \<Rightarrow> Inl (ForkError e) | Inr r \<Rightarrow> Inr r)
           | None \<Rightarrow> Inr None))"

definition revert_env ::
    "('v, 'db, 'tr, 'st, 'n, 'd) node_lib \<Rightarrow> u64 \<Rightarrow> AnyHeader \<Rightarrow> BlockEnv \<Rightarrow> BlockEnv" where
  "revert_env lib num header env =
     (nl_default_block_env lib)
       \<lparr>be_number := ucast num, be_timestamp := ucast (ah_timestamp header),
        be_difficulty := ah_difficulty header,
        be_prevrandao := Some (case ah_mix_hash header of Some h \<Rightarrow> h | None \<Rightarrow> 0),
        be_gas_limit := ucast (ah_gas_limit header),
        be_coinbase := be_coinbase env, be_basefee := be_basefee env\<rparr>"

definition revert_state_snapshot ::
    "('v, 'db, 'tr, 'st, 'n, 'd) node_lib \<Rightarrow> (B256 \<Rightarrow> string + AnyHeader option) option \<Rightarrow> u64 \<Rightarrow> u256 \<Rightarrow>
     ('db, 'tr, 'st, 'd) Backend \<Rightarrow> (BackendError + bool) \<times> ('db, 'tr, 'st, 'd) Backend" where
  "revert_state_snapshot lib fork now k b =
     (let revert_db = (\<lambda>b. let (r, db) = db_revert_state (nl_db lib) k RevertRemove (bk_db b)
                           in (Inr r, b\<lparr>bk_db := db\<rparr>));
          b1 = b\<lparr>bk_active_state_snapshots := hm_remove k (bk_active_state_snapshots b)\<rparr>
      in case hm_get (bk_active_state_snapshots b) k of
           None \<Rightarrow> revert_db b1
         | Some (num, hash) \<Rightarrow>
             let b2 = b1\<lparr>bk_storage := revert_storage num hash (bk_storage b1)\<rparr>
             in case block_by_hash lib fork hash b2 of
                  Inl e \<Rightarrow> (Inl e, b2)
                | Inr None \<Rightarrow> (Inl BlockNotFound, b2)
                | Inr (Some header) \<Rightarrow>
                    revert_db (b2\<lparr>bk_time := time_reset now (ah_timestamp header) (bk_time b2),
                                  bk_block_env := revert_env lib num header (bk_block_env b2)\<rparr>))"

subsection \<open>Rollback and reorganisation\<close>

fun restore_storage ::
    "('db, 'st) db_trait \<Rightarrow> address \<Rightarrow> (u256 \<times> u256) list \<Rightarrow> 'db \<Rightarrow> (string + unit) \<times> 'db" where
  "restore_storage dbt a [] db = (Inr (), db)"
| "restore_storage dbt a ((key, val) # kvs) db =
     (case db_set_storage_at dbt a key val db of
        (Inl e, db') \<Rightarrow> (Inl e, db')
      | (Inr _, db') \<Rightarrow> restore_storage dbt a kvs db')"

fun restore_accounts ::
    "('db, 'st) db_trait \<Rightarrow> (address \<times> DbAccount) list \<Rightarrow> 'db \<Rightarrow> (string + unit) \<times> 'db" where
  "restore_accounts dbt [] db = (Inr (), db)"
| "restore_accounts dbt ((a, acc) # rest) db =
     (case restore_storage dbt a (da_storage acc) db of
        (Inl e, db') \<Rightarrow> (Inl e, db')
      | (Inr _, db') \<Rightarrow> restore_accounts dbt rest (db_insert_account dbt a (da_info acc) db'))"

definition rollback ::
    "('v, 'db, 'tr, 'st, 'n, 'd) node_lib \<Rightarrow> u64 \<Rightarrow> BlockHeader Block \<Rightarrow> ('db, 'tr, 'st, 'd) Backend \<Rightarrow>
     (BackendError + unit) \<times> ('db, 'tr, 'st, 'd) Backend" where
  "rollback lib now common_block b =
     (let header = bl_header common_block; hash = nl_hash_slow lib header;
          (state, states') = states_get (nl_states lib) hash (bk_states b);
          b1 = b\<lparr>bk_states := states'\<rparr>
      in case state of
           None \<Rightarrow> (Inl DataUnavailable, b1)
         | Some state_db \<Rightarrow>
             (case state_as_full_db (nl_db lib) state_db of
                None \<Rightarrow> (Inl DataUnavailable, b1)
              | Some common_state \<Rightarrow>
                  (case restore_accounts (nl_db lib) common_state (db_clear (nl_db lib) (bk_db b1)) of
                     (Inl e, db) \<Rightarrow> (Inl (DbError e), b1\<lparr>bk_db := db\<rparr>)
                   | (Inr _, db) \<Rightarrow>
                       (Inr (),
                        b1\<lparr>bk_db := db,
                           bk_storage := unwind_to (ph_number header) hash (bk_storage b1),
                           bk_block_env := (bk_block_env b1)
                             \<lparr>be_number := ucast (ph_number header), be_timestamp := ucast (ph_timestamp header),
                              be_gas_limit := ucast (ph_gas_limit header), be_difficulty := ph_difficulty header,
                              be_prevrandao := Some (ph_mix_hash header)\<rparr>,
                           bk_time := time_reset now (ph_timestamp header) (bk_time b1)\<rparr>))))"

datatype RollbackError = RollbackDepthExceedsHeight | RollbackFailed BackendError

definition anvil_rollback ::
    "('v, 'db, 'tr, 'st, 'n, 'd) node_lib \<Rightarrow> u64 \<Rightarrow> u64 option \<Rightarrow> ('db, 'tr, 'st, 'd) Backend \<Rightarrow>
     (RollbackError + unit) \<times> ('db, 'tr, 'st, 'd) Backend" where
  "anvil_rollback lib now depth_arg b =
     (let depth = (case depth_arg of Some d \<Rightarrow> d | None \<Rightarrow> 1);
          current_height = best_number (bk_storage b)
      in if current_height < depth then (Inl RollbackDepthExceedsHeight, b)
         else case hm_get (hashes (bk_storage b)) (current_height - depth) of
                None \<Rightarrow> (Inl (RollbackFailed BlockNotFound), b)
              | Some hash \<Rightarrow>
                  (case hm_get (blocks (bk_storage b)) hash of
                     None \<Rightarrow> (Inl (RollbackFailed BlockNotFound), b)
                   | Some common_block \<Rightarrow>
                       (case rollback lib now common_block b of
                          (Inl e, b') \<Rightarrow> (Inl (RollbackFailed e), b')
                        | (Inr _, b') \<Rightarrow> (Inr (), b'))))"

text \<open>The clock and the random numbers of the mined blocks are indexed by their position.\<close>

fun reorg_loop ::
    "('v, 'db, 'tr, 'st, 'n, 'd) node_lib \<Rightarrow> (nat \<Rightarrow> u64) \<Rightarrow> (nat \<Rightarrow> B256) \<Rightarrow>
     (nat, PoolTransaction list) hmap \<Rightarrow> nat \<Rightarrow> nat \<Rightarrow> ('db, 'tr, 'st, 'd) Backend \<Rightarrow>
     ('db, 'tr, 'st, 'd) Backend rust option" where
  "reorg_loop lib now random tx_pairs i 0 b = Some (Ret b)"
| "reorg_loop lib now random tx_pairs i (Suc depth) b =
     (case do_mine_block lib (now i) (random i)
             (case hm_get tx_pairs i of Some txs \<Rightarrow> txs | None \<Rightarrow> []) b of
        None \<Rightarrow> None
      | Some (Panic msg) \<Rightarrow> Some (Panic msg)
      | Some (Ret (outcome, b')) \<Rightarrow> reorg_loop lib now random tx_pairs (Suc i) depth b')"

definition reorg ::
    "('v, 'db, 'tr, 'st, 'n, 'd) node_lib \<Rightarrow> (nat \<Rightarrow> u64) \<Rightarrow> (nat \<Rightarrow> B256) \<Rightarrow> u64 \<Rightarrow>
     (nat, PoolTransaction list) hmap \<Rightarrow> BlockHeader Block \<Rightarrow> ('db, 'tr, 'st, 'd) Backend \<Rightarrow>
     ((BackendError + unit) \<times> ('db, 'tr, 'st, 'd) Backend) rust option" where
  "reorg lib now random depth tx_pairs common_block b =
     (case rollback lib (now 0) common_block b of
        (Inl e, b') \<Rightarrow> Some (Ret (Inl e, b'))
      | (Inr _, b') \<Rightarrow>
          map_option (\<lambda>r. rbind r (\<lambda>b. Ret (Inr (), b)))
            (reorg_loop lib now random tx_pairs 0 (unat depth) b'))"

subsection \<open>The chain of blocks\<close>

text \<open>
  Number and header of the blocks, and the chain invariant: the best block is filed under
  its number, every number up to it leads to a block with that number whose hash it is and
  whose parent is the block before it, and there are no other blocks.
\<close>

definition headers :: "('h, 't) BlockchainStorage \<Rightarrow> B256 \<Rightarrow> (u64 \<times> 'h) option" where
  "headers s h = map_option (\<lambda>b. (bl_number b, bl_header b)) (hm_get (blocks s) h)"

definition chain_ok ::
    "(BlockHeader \<Rightarrow> B256) \<Rightarrow> u64 \<Rightarrow> B256 \<Rightarrow> (u64 \<Rightarrow> B256 option) \<Rightarrow> (B256 \<Rightarrow> (u64 \<times> BlockHeader) option) \<Rightarrow> bool" where
  "chain_ok hash_slow best bh H D =
     (H best = Some bh \<and>
      (\<forall>n h. H n = Some h \<longrightarrow> n \<le> best \<and>
         (\<exists>hr. D h = Some (n, hr) \<and> ph_number hr = n \<and> hash_slow hr = h \<and>
            (n \<noteq> 0 \<longrightarrow> H (n - 1) = Some (ph_parent_hash hr)))) \<and>
      (\<forall>h n hr. D h = Some (n, hr) \<longrightarrow> H n = Some h))"

definition storage_chain_ok :: "(BlockHeader \<Rightarrow> B256) \<Rightarrow> (BlockHeader, 't) BlockchainStorage \<Rightarrow> bool" where
  "storage_chain_ok hash_slow s =
     chain_ok hash_slow (best_number s) (best_hash s) (hm_get (hashes s)) (headers s)"

lemma chain_ok_best: "chain_ok hs best bh H D \<Longrightarrow> H best = Some bh"
  by (simp add: chain_ok_def)

lemma chain_ok_block: "chain_ok hs best bh H D \<Longrightarrow> D h = Some (n, hr) \<Longrightarrow> H n = Some h"
  by (simp add: chain_ok_def)

lemma chain_ok_number:
  assumes "chain_ok hs best bh H D" "H n = Some h"
  obtains hr where "n \<le> best" "D h = Some (n, hr)" "ph_number hr = n" "hs hr = h"
    "n \<noteq> 0 \<Longrightarrow> H (n - 1) = Some (ph_parent_hash hr)"
  using assms unfolding chain_ok_def by blast

lemma word_minus_one_cases:
  assumes "(n :: 'a::len word) \<noteq> 0"
  shows "unat (n - 1) = unat n - 1" "n - 1 < n"
proof -
  have "1 \<le> n" using assms by (simp add: word_le_nat_alt unat_gt_0 Suc_le_eq)
  then show "unat (n - 1) = unat n - 1" by (simp add: unat_sub)
  with assms show "n - 1 < n" by (simp add: word_less_nat_alt unat_gt_0)
qed

lemma word_plus_one_cases:
  assumes "(n :: 'a::len word) \<noteq> - 1"
  shows "unat (n + 1) = Suc (unat n)" "m \<le> n \<Longrightarrow> m < n + 1" "n + 1 \<noteq> 0"
proof -
  show ne: "n + 1 \<noteq> 0" using assms by (metis add.commute add_eq_0_iff)
  then show "unat (n + 1) = Suc (unat n)" by (metis add.commute unatSuc)
  then show "m \<le> n \<Longrightarrow> m < n + 1" by (simp add: word_le_nat_alt word_less_nat_alt)
qed

lemma chain_ok_extend:
  assumes ok: "chain_ok hs n bh H D" and n: "n \<noteq> - 1" and new: "D h = None"
    and hr: "ph_number hr = n + 1" "ph_parent_hash hr = bh" "hs hr = h"
  shows "chain_ok hs (n + 1) h (H(n + 1 \<mapsto> h)) (D(h \<mapsto> (n + 1, hr)))"
proof -
  have le: "m \<le> n" if "H m = Some k" for m k using chain_ok_number [OF ok that] by blast
  then have fresh: "H (n + 1) = None"
    using word_plus_one_cases(2) [OF n] by (metis leD order_refl not_None_eq)
  have old: "m \<le> n + 1 \<and> (\<exists>hr'. (D(h \<mapsto> (n + 1, hr))) k = Some (m, hr') \<and> ph_number hr' = m \<and> hs hr' = k \<and>
      (m \<noteq> 0 \<longrightarrow> (H(n + 1 \<mapsto> h)) (m - 1) = Some (ph_parent_hash hr')))"
    if "H m = Some k" for m k
  proof -
    from chain_ok_number [OF ok that] obtain hr' where hr': "D k = Some (m, hr')" "ph_number hr' = m" "hs hr' = k"
      "m \<noteq> 0 \<longrightarrow> H (m - 1) = Some (ph_parent_hash hr')" by blast
    moreover have "k \<noteq> h" using hr'(1) new by auto
    moreover have "m \<noteq> 0 \<longrightarrow> m - 1 \<noteq> n + 1" using hr'(4) fresh by (metis option.distinct(1))
    moreover have "m \<le> n + 1" using word_plus_one_cases(2) [OF n le [OF that]] by simp
    ultimately show ?thesis by simp
  qed
  have D: "(H(n + 1 \<mapsto> h)) m = Some k" if "D k = Some (m, hr')" for m k hr'
    using chain_ok_block [OF ok that] fresh by (cases "m = n + 1") auto
  note best = chain_ok_best [OF ok]
  have top: "(H(n + 1 \<mapsto> h)) (n + 1 - 1) = Some bh" using best by simp
  show ?thesis
    unfolding chain_ok_def
  proof (intro conjI allI impI)
    fix m k
    assume mk: "(H(n + 1 \<mapsto> h)) m = Some k"
    show "m \<le> n + 1" using mk old by (cases "m = n + 1") auto
    show "\<exists>hr'. (D(h \<mapsto> (n + 1, hr))) k = Some (m, hr') \<and> ph_number hr' = m \<and> hs hr' = k \<and>
      (m \<noteq> 0 \<longrightarrow> (H(n + 1 \<mapsto> h)) (m - 1) = Some (ph_parent_hash hr'))"
    proof (cases "m = n + 1")
      case True
      with mk have "k = h" by simp
      then show ?thesis using True hr top by (intro exI [of _ hr]) simp
    next
      case False
      with mk have "H m = Some k" by simp
      from old [OF this] show ?thesis by blast
    qed
  next
    fix k m hr'
    assume "(D(h \<mapsto> (n + 1, hr))) k = Some (m, hr')"
    then show "(H(n + 1 \<mapsto> h)) m = Some k" using D by (cases "k = h") auto
  qed simp
qed

lemma chain_ok_truncate:
  assumes ok: "chain_ok hs n bh H D" and m: "H m = Some h"
  shows "chain_ok hs m h (\<lambda>i. if m < i \<and> i \<le> n then None else H i)
    (\<lambda>k. if \<exists>i. m < i \<and> i \<le> n \<and> H i = Some k then None else D k)"
proof -
  have le: "i \<le> n" if "H i = Some k" for i k using chain_ok_number [OF ok that] by blast
  have inj: "i = j" if "H i = Some k" "H j = Some k" for i j k
    using chain_ok_number [OF ok that(1)] chain_ok_number [OF ok that(2)] by (metis option.inject prod.inject)
  have *: "i \<le> m \<and> (\<exists>hr. (if \<exists>i. m < i \<and> i \<le> n \<and> H i = Some k then None else D k) = Some (i, hr) \<and>
      ph_number hr = i \<and> hs hr = k \<and>
      (i \<noteq> 0 \<longrightarrow> (if m < i - 1 \<and> i - 1 \<le> n then None else H (i - 1)) = Some (ph_parent_hash hr)))"
    if "H i = Some k" "\<not> (m < i \<and> i \<le> n)" for i k
  proof -
    from that(2) le [OF that(1)] have im: "i \<le> m" by simp
    have no: "\<nexists>j. m < j \<and> j \<le> n \<and> H j = Some k" using inj [OF that(1)] im by (metis leD)
    have "i \<noteq> 0 \<longrightarrow> \<not> m < i - 1"
      using im word_minus_one_cases(2) [of i] by (metis less_trans leD)
    moreover from chain_ok_number [OF ok that(1)] obtain hr where "D k = Some (i, hr)" "ph_number hr = i" "hs hr = k"
      "i \<noteq> 0 \<longrightarrow> H (i - 1) = Some (ph_parent_hash hr)" by blast
    ultimately show ?thesis using im no by (intro conjI exI [of _ hr]) simp_all
  qed
  show ?thesis
    unfolding chain_ok_def
  proof (intro conjI allI impI)
    fix k i hr
    assume "(if \<exists>i. m < i \<and> i \<le> n \<and> H i = Some k then None else D k) = Some (i, hr)"
    then have "D k = Some (i, hr)" "\<nexists>i. m < i \<and> i \<le> n \<and> H i = Some k" by (auto split: if_splits)
    moreover from chain_ok_block [OF ok this(1)] have "H i = Some k" .
    ultimately show "(if m < i \<and> i \<le> n then None else H i) = Some k" by auto
  next
    fix i k
    assume "(if m < i \<and> i \<le> n then None else H i) = Some k"
    then have "H i = Some k" "\<not> (m < i \<and> i \<le> n)" by (simp_all split: if_splits)
    note * [OF this]
    then show "i \<le> m"
      "\<exists>hr. (if \<exists>i. m < i \<and> i \<le> n \<and> H i = Some k then None else D k) = Some (i, hr) \<and>
        ph_number hr = i \<and> hs hr = k \<and>
        (i \<noteq> 0 \<longrightarrow> (if m < i - 1 \<and> i - 1 \<le> n then None else H (i - 1)) = Some (ph_parent_hash hr))"
      by blast+
  qed (simp add: m)
qed

lemma set_unwind_range_le:
  "n \<le> best \<Longrightarrow> n \<noteq> - 1 \<Longrightarrow> set (unwind_range n best) = {i. n < i \<and> i \<le> best}"
  using set_unwind_range [of n best]
  by (cases "n = best") (auto simp: unwind_range_def word_plus_one_cases)

lemma revert_fold:
  "(\<forall>n. hm_get (hashes (fold revert_block is s)) n = (if n \<in> set is then None else hm_get (hashes s) n)) \<and>
   (\<forall>h. hm_get (blocks (fold revert_block is s)) h =
      (if \<exists>i \<in> set is. hm_get (hashes s) i = Some h then None else hm_get (blocks s) h))"
proof (induction "is" arbitrary: s)
  case (Cons i "is")
  have "hm_get (hashes (revert_block i s)) n = (if n = i then None else hm_get (hashes s) n)" for n
    by (auto simp: revert_block_def Let_def hm_get_remove split: option.split)
  moreover have "hm_get (blocks (revert_block i s)) h =
      (if hm_get (hashes s) i = Some h then None else hm_get (blocks s) h)" for h
    by (auto simp: revert_block_def Let_def hm_get_remove split: option.split)
  ultimately show ?case using Cons.IH [of "revert_block i s"] by (simp only: fold_simps list.set) (auto split: if_splits)
qed simp

lemma revert_storage_view:
  assumes "num \<le> best_number s" "num \<noteq> - 1"
  shows "hm_get (hashes (revert_storage num hash s)) =
      (\<lambda>i. if num < i \<and> i \<le> best_number s then None else hm_get (hashes s) i)"
    "headers (revert_storage num hash s) =
      (\<lambda>k. if \<exists>i. num < i \<and> i \<le> best_number s \<and> hm_get (hashes s) i = Some k then None else headers s k)"
    "best_number (revert_storage num hash s) = num" "best_hash (revert_storage num hash s) = hash"
  using revert_fold [of "rev (unwind_range num (best_number s))" s]
  by (auto simp: revert_storage_def headers_def fun_eq_iff set_unwind_range_le [OF assms])

lemma revert_storage_ok:
  assumes "storage_chain_ok hs s" "hm_get (hashes s) num = Some hash" "num \<noteq> - 1"
  shows "storage_chain_ok hs (revert_storage num hash s)"
proof -
  have le: "num \<le> best_number s" using chain_ok_number [OF assms(1) [unfolded storage_chain_ok_def] assms(2)] by blast
  show ?thesis
    using chain_ok_truncate [OF assms(1) [unfolded storage_chain_ok_def] assms(2)]
    unfolding storage_chain_ok_def revert_storage_view [OF le assms(3)] .
qed

subsection \<open>A mined block extends the chain\<close>

lemma headers_remove_block_transactions [simp]:
  "headers (remove_block_transactions h s) = headers s" "hashes (remove_block_transactions h s) = hashes s"
  "best_number (remove_block_transactions h s) = best_number s" "best_hash (remove_block_transactions h s) = best_hash s"
  by (auto simp: remove_block_transactions_def headers_def fun_eq_iff hm_get_insert split: option.split)

lemma headers_remove_block_transactions_by_number [simp]:
  "headers (remove_block_transactions_by_number n s) = headers s"
  "hashes (remove_block_transactions_by_number n s) = hashes s"
  "best_number (remove_block_transactions_by_number n s) = best_number s"
  "best_hash (remove_block_transactions_by_number n s) = best_hash s"
  by (auto simp: remove_block_transactions_by_number_def split: option.split)

lemma headers_insert:
  "blocks s = hm_insert h blk (blocks s0) \<Longrightarrow>
   headers s = (headers s0)(h \<mapsto> (bl_number blk, bl_header blk))"
  by (simp add: headers_def fun_eq_iff hm_get_insert)

lemma store_block_view:
  "hashes (store_block lib b n h info) = hm_insert n h (hashes (bk_storage b))"
  "headers (store_block lib b n h info) =
     (headers (bk_storage b))(h \<mapsto> (ph_number (eb_header (bi_block info)), eb_header (bi_block info)))"
  "best_number (store_block lib b n h info) = n" "best_hash (store_block lib b n h info) = h"
  by (simp_all add: store_block_def Let_def stored_block_def
      headers_insert [where h = h and blk = "stored_block lib (bi_block info)" and ?s0.0 = "bk_storage b"] split: option.split)

definition backend_ok :: "('v, 'db, 'tr, 'st, 'n, 'd) node_lib \<Rightarrow> ('db, 'tr, 'st, 'd) Backend \<Rightarrow> bool" where
  "backend_ok lib b =
     (storage_chain_ok (nl_hash_slow lib) (bk_storage b) \<and>
      be_number (bk_block_env b) = ucast (best_number (bk_storage b)) \<and>
      \<not> nl_is_arbitrum lib (cfg_chain_id (bk_cfg_env b)))"

lemma do_mine_block_cases:
  assumes "do_mine_block lib now random txs b = Some (Ret (outcome, b'))"
  obtains executed db where
    "execute (nl_val lib) (nl_exec lib) (cfg_chain_id (bk_cfg_env b))
       \<lparr>te_db = bk_db b, te_pending = txs,
        te_block_env = (snd (mining_env lib random b))\<lparr>be_timestamp := ucast (current_call_timestamp now (bk_time b))\<rparr>,
        te_cfg_env = fst (mining_env lib random b), te_parent_hash = best_hash (bk_storage b),
        te_gas_used = 0, te_blob_gas_used = 0\<rparr> = Ret (executed, db)"
    "bk_time b' = snd (next_timestamp now (bk_time b))"
    "bk_db b' = db_insert_block_hash (nl_db lib) (ucast (ph_number (eb_header (bi_block (et_block executed)))))
       (nl_hash_slow lib (eb_header (bi_block (et_block executed)))) db"
    "bk_storage b' = store_block lib b (saturating_add (best_number (bk_storage b)) 1)
       (nl_hash_slow lib (eb_header (bi_block (et_block executed)))) (et_block executed)"
    "bk_block_env b' = (snd (mining_env lib random b))\<lparr>be_timestamp := ucast (current_call_timestamp now (bk_time b)), be_difficulty := 0\<rparr>"
    "bk_cfg_env b' = fst (mining_env lib random b)"
    "bk_fees b' = next_fees lib (eb_header (bi_block (et_block executed))) (bk_fees b)"
    "bk_active_state_snapshots b' = bk_active_state_snapshots b"
    "outcome = \<lparr>mb_block_number = saturating_add (best_number (bk_storage b)) 1,
       mb_included = et_included executed, mb_invalid = et_invalid executed\<rparr>"
  using assms
  by (auto simp: do_mine_block_def Let_def case_prod_unfold elim!: rbind_RetE intro!: that
      split: option.splits)

lemma mining_env_number:
  assumes "backend_ok lib b" "best_number (bk_storage b) \<noteq> - 1"
  shows "be_number (snd (mining_env lib random b)) = ucast (best_number (bk_storage b) + 1)"
    "saturating_add (best_number (bk_storage b)) 1 = best_number (bk_storage b) + 1"
    "unat (ucast (best_number (bk_storage b) + 1) :: u256) = unat (best_number (bk_storage b) + 1)"
proof -
  let ?n = "best_number (bk_storage b)"
  have lt: "unat ?n < 2 ^ 64 - 1"
    using assms(2) by (simp add: word_order.not_eq_extremum word_less_nat_alt unat_minus_one_word_max)
  show "saturating_add ?n 1 = ?n + 1" using lt by (simp add: saturating_add_def)
  show u: "unat (ucast (?n + 1) :: u256) = unat (?n + 1)" by (rule unat_ucast_up) simp
  have "unat (ucast ?n :: u256) = unat ?n" by (rule unat_ucast_up) simp
  with lt have "unat (saturating_add (ucast ?n) 1 :: u256) = unat ?n + 1" by (simp add: unat_saturating_add)
  then have "saturating_add (ucast ?n) 1 = (ucast (?n + 1) :: u256)"
    using word_plus_one_cases(1) [OF assms(2)] u by (simp add: word_unat_eq_iff)
  with assms(1) show "be_number (snd (mining_env lib random b)) = ucast (?n + 1)"
    by (simp add: mining_env_def Let_def backend_ok_def)
qed

text \<open>The storage after a block was mined.\<close>

lemma mine_storage:
  assumes "backend_ok lib b" "best_number (bk_storage b) \<noteq> - 1"
    and mine: "do_mine_block lib now random txs b = Some (Ret (outcome, b'))"
  obtains header where
    "hm_get (hashes (bk_storage b')) = (hm_get (hashes (bk_storage b)))(best_number (bk_storage b) + 1 \<mapsto> nl_hash_slow lib header)"
    "headers (bk_storage b') = (headers (bk_storage b))(nl_hash_slow lib header \<mapsto> (best_number (bk_storage b) + 1, header))"
    "best_number (bk_storage b') = best_number (bk_storage b) + 1" "best_hash (bk_storage b') = nl_hash_slow lib header"
    "ph_number header = best_number (bk_storage b) + 1" "ph_parent_hash header = best_hash (bk_storage b)"
    "unat (ph_timestamp header) = unat (fst (next_timestamp now (bk_time b)))"
    "mb_block_number outcome = best_number (bk_storage b) + 1"
    "be_number (bk_block_env b') = ucast (best_number (bk_storage b) + 1)"
    "cfg_chain_id (bk_cfg_env b') = cfg_chain_id (bk_cfg_env b)"
  using mine
proof (cases rule: do_mine_block_cases)
  case (1 executed db)
  let ?h = "eb_header (bi_block (et_block executed))"
  note N = mining_env_number [OF assms(1,2)]
  have ts: "unat (ucast (current_call_timestamp now (bk_time b)) :: u256) = unat (current_call_timestamp now (bk_time b))"
    by (rule unat_ucast_up) simp
  have E: "ph_parent_hash ?h = best_hash (bk_storage b)"
      "unat (ph_number ?h) = unat (best_number (bk_storage b) + 1)" "unat (ph_timestamp ?h) = unat (current_call_timestamp now (bk_time b))"
    using N(1) [of random] N(3) ts by - (rule execute_cases [OF 1(1)], simp)+
  then have num: "ph_number ?h = best_number (bk_storage b) + 1" by (simp add: word_unat_eq_iff)
  show thesis
    using that [of ?h] 1 E num N
    by (simp add: store_block_view hm_get_insert mining_env_def Let_def)
qed

lemma mine_backend_ok:
  assumes ok: "backend_ok lib b" and best: "best_number (bk_storage b) \<noteq> - 1"
    and mine: "do_mine_block lib now random txs b = Some (Ret (outcome, b'))"
    and fresh: "headers (bk_storage b) (best_hash (bk_storage b')) = None"
  shows "backend_ok lib b'"
proof (rule mine_storage [OF ok best mine])
  fix header
  assume S: "hm_get (hashes (bk_storage b')) = (hm_get (hashes (bk_storage b)))(best_number (bk_storage b) + 1 \<mapsto> nl_hash_slow lib header)"
    "headers (bk_storage b') = (headers (bk_storage b))(nl_hash_slow lib header \<mapsto> (best_number (bk_storage b) + 1, header))"
    "best_number (bk_storage b') = best_number (bk_storage b) + 1" "best_hash (bk_storage b') = nl_hash_slow lib header"
    "ph_number header = best_number (bk_storage b) + 1" "ph_parent_hash header = best_hash (bk_storage b)"
    "be_number (bk_block_env b') = ucast (best_number (bk_storage b) + 1)"
    "cfg_chain_id (bk_cfg_env b') = cfg_chain_id (bk_cfg_env b)"
  have "chain_ok (nl_hash_slow lib) (best_number (bk_storage b)) (best_hash (bk_storage b))
      (hm_get (hashes (bk_storage b))) (headers (bk_storage b))"
    using ok by (simp add: backend_ok_def storage_chain_ok_def)
  from chain_ok_extend [OF this best fresh, of header] S ok show ?thesis
    by (simp add: backend_ok_def storage_chain_ok_def)
qed

text \<open>
  C3: Mining extends the chain by one block: the new block has the next number, the old best
  block as its parent and the timestamp the clock gave; the older part of the chain is
  unchanged and the whole is again a chain from the genesis block. The hash of the new block
  must not be the hash of another one.
\<close>

theorem mined_block_extends_chain:
  assumes "backend_ok lib b" "best_number (bk_storage b) \<noteq> - 1"
    and "do_mine_block lib now random txs b = Some (Ret (outcome, b'))"
    and "headers (bk_storage b) (best_hash (bk_storage b')) = None"
  shows "backend_ok lib b' \<and> best_number (bk_storage b') = best_number (bk_storage b) + 1 \<and>
    mb_block_number outcome = best_number (bk_storage b') \<and>
    (\<forall>n \<le> best_number (bk_storage b). hm_get (hashes (bk_storage b')) n = hm_get (hashes (bk_storage b)) n) \<and>
    (\<exists>header. headers (bk_storage b') (best_hash (bk_storage b')) = Some (best_number (bk_storage b'), header) \<and>
       ph_parent_hash header = best_hash (bk_storage b) \<and>
       ph_timestamp header = fst (next_timestamp now (bk_time b)))"
proof (rule mine_storage [OF assms(1-3)])
  fix header
  assume S: "hm_get (hashes (bk_storage b')) = (hm_get (hashes (bk_storage b)))(best_number (bk_storage b) + 1 \<mapsto> nl_hash_slow lib header)"
    "headers (bk_storage b') = (headers (bk_storage b))(nl_hash_slow lib header \<mapsto> (best_number (bk_storage b) + 1, header))"
    "best_number (bk_storage b') = best_number (bk_storage b) + 1" "best_hash (bk_storage b') = nl_hash_slow lib header"
    "ph_parent_hash header = best_hash (bk_storage b)"
    "unat (ph_timestamp header) = unat (fst (next_timestamp now (bk_time b)))"
    "mb_block_number outcome = best_number (bk_storage b) + 1"
  have "n \<noteq> best_number (bk_storage b) + 1" if "n \<le> best_number (bk_storage b)" for n
    using word_plus_one_cases(2) [OF assms(2) that] by simp
  with S mine_backend_ok [OF assms] show ?thesis by (simp add: word_unat_eq_iff)
qed

subsection \<open>Mining returns\<close>

lemma mining_env_fits:
  assumes "backend_ok lib b" "best_number (bk_storage b) \<noteq> - 1" "unat (be_gas_limit (bk_block_env b)) < 2 ^ 64"
  shows "block_env_fits ((snd (mining_env lib random b))\<lparr>be_timestamp := ucast (t :: u64)\<rparr>)"
proof -
  have u: "unat (ucast (x :: u64) :: u256) < 2 ^ 64" for x
    using unsigned_less [of x] by (simp add: unat_ucast_up)
  have "be_gas_limit (snd (mining_env lib random b)) = be_gas_limit (bk_block_env b)"
    "be_basefee (snd (mining_env lib random b)) = ucast (base_fee (bk_fees b))"
    by (simp_all add: mining_env_def Let_def)
  with assms(3) u show ?thesis
    using mining_env_number(1) [OF assms(1,2), of random] by (simp add: block_env_fits_def)
qed

lemma do_mine_block_ret:
  assumes "backend_ok lib b" "best_number (bk_storage b) \<noteq> - 1" "unat (be_gas_limit (bk_block_env b)) < 2 ^ 64"
    and "is_state_history_supported b \<longrightarrow> states_inv (bk_states b)"
    and "\<forall>tx \<in> set txs. tx_fits tx" "evm_no_other (nl_exec lib)"
  shows "\<exists>outcome b'. do_mine_block lib now random txs b = Some (Ret (outcome, b'))"
proof -
  let ?e = "\<lparr>te_db = bk_db b, te_pending = txs,
      te_block_env = (snd (mining_env lib random b))\<lparr>be_timestamp := ucast (current_call_timestamp now (bk_time b))\<rparr>,
      te_cfg_env = fst (mining_env lib random b), te_parent_hash = best_hash (bk_storage b),
      te_gas_used = 0, te_blob_gas_used = 0\<rparr>"
  obtain states' where st: "(if is_state_history_supported b
      then states_insert (nl_states lib) (best_hash (bk_storage b)) (db_current_state (nl_db lib) (bk_db b)) (bk_states b)
      else Some (bk_states b)) = Some states'"
    using assms(4) states_insert_total [of "bk_states b" "nl_states lib" "best_hash (bk_storage b)"
        "db_current_state (nl_db lib) (bk_db b)"]
    by (cases "is_state_history_supported b") (simp_all, blast)
  have "is_ret (execute (nl_val lib) (nl_exec lib) (cfg_chain_id (bk_cfg_env b)) ?e)"
    using assms(5,6) mining_env_fits [OF assms(1-3)] by (intro execute_ret) simp_all
  then obtain et db where ex: "execute (nl_val lib) (nl_exec lib) (cfg_chain_id (bk_cfg_env b)) ?e = Ret (et, db)"
    by (cases "execute (nl_val lib) (nl_exec lib) (cfg_chain_id (bk_cfg_env b)) ?e") auto
  show ?thesis
    unfolding do_mine_block_def Let_def case_prod_unfold st option.case
    using ex by simp
qed


end
