(* ===== verification/Node_Snapshots.thy ===== *)
theory Node_Snapshots
  imports Node_Backend
begin

text \<open>
  Snapshots of a running node: the backend on top of the in-memory database
  (\<^verbatim>\<open>evm/core/src/backend/in_memory_db.rs\<close>,
  \<^verbatim>\<open>anvil/src/eth/backend/mem/in_memory_db.rs\<close>), the interface a database offers to the
  backend as a locale, and what a snapshot is worth after more blocks were mined.
\<close>

subsection \<open>The backend on the in-memory database\<close>

text \<open>The in-memory database passes every operation but the snapshots on to its inner database.\<close>

definition on_inner :: "('i \<Rightarrow> 'a \<times> 'i) \<Rightarrow> 'i MemDb \<Rightarrow> 'a \<times> 'i MemDb" where
  "on_inner f d = (let (r, i) = f (md_inner d) in (r, d\<lparr>md_inner := i\<rparr>))"

definition memdb_exec :: "('i, 'tr) exec_ops \<Rightarrow> ('i MemDb, 'tr) exec_ops" where
  "memdb_exec ops =
     \<lparr>db_basic = (\<lambda>a. on_inner (db_basic ops a)),
      transact_commit = (\<lambda>cfg block env d.
        let (r, tr, i) = transact_commit ops cfg block env (md_inner d) in (r, tr, d\<lparr>md_inner := i\<rparr>)),
      maybe_state_root = (\<lambda>d. maybe_state_root ops (md_inner d)), rlp_encode = rlp_encode ops,
      transactions_trie_root = transactions_trie_root ops, receipts_trie_root = receipts_trie_root ops,
      bloom_accrue = bloom_accrue ops, b256_bytes = b256_bytes ops,
      instruction_revert = instruction_revert ops, instruction_selfdestruct = instruction_selfdestruct ops,
      max_data_gas_per_block = max_data_gas_per_block ops, empty_ommer_root_hash = empty_ommer_root_hash ops,
      empty_withdrawals = empty_withdrawals ops, empty_requests_hash = empty_requests_hash ops\<rparr>"

definition memdb_trait :: "('i, 'st) db_trait \<Rightarrow> ('i MemDb, 'st) db_trait" where
  "memdb_trait dbt =
     \<lparr>db_snapshot_state = memdb_snapshot_state, db_revert_state = memdb_revert_state,
      db_insert_block_hash = (\<lambda>n h d. d\<lparr>md_inner := db_insert_block_hash dbt n h (md_inner d)\<rparr>),
      db_current_state = (\<lambda>d. db_current_state dbt (md_inner d)),
      db_clear = (\<lambda>d. d\<lparr>md_inner := db_clear dbt (md_inner d)\<rparr>),
      db_set_storage_at = (\<lambda>a k v. on_inner (db_set_storage_at dbt a k v)),
      db_insert_account = (\<lambda>a acc d. d\<lparr>md_inner := db_insert_account dbt a acc (md_inner d)\<rparr>),
      state_as_full_db = state_as_full_db dbt\<rparr>"

definition with_memdb ::
    "('v, 'i, 'tr, 'st, 'n, 'd) node_lib \<Rightarrow> ('v, 'i MemDb, 'tr, 'st, 'n, 'd) node_lib" where
  "with_memdb lib =
     \<lparr>nl_val = nl_val lib, nl_exec = memdb_exec (nl_exec lib), nl_db = memdb_trait (nl_db lib),
      nl_states = nl_states lib, nl_hash_slow = nl_hash_slow lib, nl_tx_hash = nl_tx_hash lib,
      nl_any_header = nl_any_header lib, nl_calc_base_fee = nl_calc_base_fee lib,
      nl_calc_excess_blob_gas = nl_calc_excess_blob_gas lib,
      nl_blob_excess_gas_and_price = nl_blob_excess_gas_and_price lib, nl_is_arbitrum = nl_is_arbitrum lib,
      nl_merge = nl_merge lib, nl_default_block_env = nl_default_block_env lib\<rparr>"

subsection \<open>What happens between a snapshot and its reversion\<close>

text \<open>
  Blocks are mined, the database is written by other operations that leave its snapshots
  alone, further snapshots are taken, the clock and the fees are changed.
\<close>

inductive node_step ::
    "('v, 'db, 'tr, 'st, 'n, 'd) node_lib \<Rightarrow> ('db \<Rightarrow> u256 \<Rightarrow> 'c option) \<Rightarrow> ('db \<Rightarrow> bool) \<Rightarrow> ('db \<Rightarrow> bool) \<Rightarrow>
     ('db, 'tr, 'st, 'd) Backend \<Rightarrow> ('db, 'tr, 'st, 'd) Backend \<Rightarrow> bool"
  for lib :: "('v, 'db, 'tr, 'st, 'n, 'd) node_lib" and saved inv ready where
  mine: "do_mine_block lib now random txs b = Some (Ret (outcome, b')) \<Longrightarrow>
    best_number (bk_storage b) \<noteq> - 1 \<Longrightarrow> headers (bk_storage b) (best_hash (bk_storage b')) = None \<Longrightarrow>
    node_step lib saved inv ready b b'"
| db_write: "saved d = saved (bk_db b) \<Longrightarrow> inv d \<Longrightarrow> node_step lib saved inv ready b (b\<lparr>bk_db := d\<rparr>)"
| snapshot: "ready (bk_db b) \<Longrightarrow> create_state_snapshot lib b = (k, b') \<Longrightarrow> node_step lib saved inv ready b b'"
| clock: "time_step (bk_time b) t \<Longrightarrow> node_step lib saved inv ready b (b\<lparr>bk_time := t\<rparr>)"
| fees: "node_step lib saved inv ready b (b\<lparr>bk_fees := f\<rparr>)"

text \<open>
  What holds from taking a snapshot \<open>k\<close> in state \<open>b0\<close> on: the snapshot is there, the chain
  up to it is unchanged.
\<close>

definition since ::
    "('v, 'db, 'tr, 'st, 'n, 'd) node_lib \<Rightarrow> ('db \<Rightarrow> 'c) \<Rightarrow> ('db \<Rightarrow> u256 \<Rightarrow> 'c option) \<Rightarrow> ('db \<Rightarrow> bool) \<Rightarrow>
     ('db, 'tr, 'st, 'd) Backend \<Rightarrow> u256 \<Rightarrow> ('db, 'tr, 'st, 'd) Backend \<Rightarrow> bool" where
  "since lib content saved dinv b0 k b =
     (backend_ok lib b \<and> dinv (bk_db b) \<and> saved (bk_db b) k = Some (content (bk_db b0)) \<and>
      hm_get (bk_active_state_snapshots b) k = Some (best_number (bk_storage b0), best_hash (bk_storage b0)) \<and>
      best_number (bk_storage b0) \<le> best_number (bk_storage b) \<and>
      (\<forall>n \<le> best_number (bk_storage b0). hm_get (hashes (bk_storage b)) n = hm_get (hashes (bk_storage b0)) n) \<and>
      map_le (headers (bk_storage b0)) (headers (bk_storage b)))"

text \<open>
  The interface of a database to the backend: snapshots as before, and the executor and the
  recording of block hashes leave the snapshots alone.
\<close>

locale node_db = snapshot_db content saved inv ready "db_snapshot_state (nl_db lib)" "db_revert_state (nl_db lib)"
  for lib :: "('v, 'db, 'tr, 'st, 'n, 'd) node_lib"
    and content :: "'db \<Rightarrow> 'c" and saved :: "'db \<Rightarrow> u256 \<Rightarrow> 'c option"
    and inv :: "'db \<Rightarrow> bool" and ready :: "'db \<Rightarrow> bool" +
  assumes basic_keeps: "inv d \<Longrightarrow> db_basic (nl_exec lib) a d = (r, d') \<Longrightarrow>
      saved d' = saved d \<and> inv d' \<and> ready d' = ready d"
    and transact_keeps: "inv d \<Longrightarrow> transact_commit (nl_exec lib) cfg block env d = (res, tr, d') \<Longrightarrow>
      saved d' = saved d \<and> inv d' \<and> ready d' = ready d"
    and hash_keeps: "inv d \<Longrightarrow> saved (db_insert_block_hash (nl_db lib) n h d) = saved d \<and>
      inv (db_insert_block_hash (nl_db lib) n h d) \<and> ready (db_insert_block_hash (nl_db lib) n h d) = ready d"
begin

lemma exec_run_keeps:
  assumes "exec_run v (nl_exec lib) tx account env self = Ret (out, self')" "inv (te_db self)"
  shows "saved (te_db self') = saved (te_db self) \<and> inv (te_db self') \<and> ready (te_db self') = ready (te_db self)"
proof -
  obtain res tr d where t: "transact_commit (nl_exec lib) (te_cfg_env self) (te_block_env self) env (te_db self) = (res, tr, d)"
    by (metis prod.collapse)
  from transact_keeps [OF assms(2) t] assms(1) show ?thesis
    by (auto simp: exec_run_def t Let_def split: sum.splits EVMError.splits prod.splits)
qed

lemma exec_next_keeps:
  assumes "exec_next v (nl_exec lib) chain self = Ret (out, self')" "inv (te_db self)"
  shows "saved (te_db self') = saved (te_db self) \<and> inv (te_db self') \<and> ready (te_db self') = ready (te_db self)"
proof (cases "te_pending self")
  case Nil
  with assms show ?thesis by (simp add: exec_next_def)
next
  case (Cons tx rest)
  obtain r d where b: "db_basic (nl_exec lib) (pt_sender (pending_transaction tx)) (te_db self) = (r, d)" by fastforce
  note keep = basic_keeps [OF assms(2) b]
  from assms(1) Cons b keep show ?thesis
    by (cases r) (auto simp: exec_next_def Let_def elim!: rbind_RetE split: sum.splits dest!: exec_run_keeps)
qed

lemma execute_keeps:
  assumes "execute v (nl_exec lib) chain self = Ret (et, d)" "inv (te_db self)"
  shows "saved d = saved (te_db self) \<and> inv d \<and> ready d = ready (te_db self)"
proof (rule execute_cases [OF assms(1)])
  fix a self'
  let ?c = "fork_cancun v \<le> cfg_spec_id (te_cfg_env self)"
  let ?P = "\<lambda>a s. saved (te_db s) = saved (te_db self) \<and> inv (te_db s) \<and> ready (te_db s) = ready (te_db self)"
  assume loop: "exec_loop v (nl_exec lib) chain ?c (acc_init ?c) self = Ret (a, self')" and d: "d = te_db self'"
  have "?P a self' \<and> te_pending self' = []"
    by (rule exec_loop_inv [OF loop]) (auto simp: assms(2) dest: exec_next_keeps)
  then show ?thesis by (simp add: d)
qed

lemma mine_keeps:
  assumes "do_mine_block lib now random txs b = Some (Ret (outcome, b'))" "inv (bk_db b)"
  shows "saved (bk_db b') = saved (bk_db b) \<and> inv (bk_db b') \<and> ready (bk_db b') = ready (bk_db b) \<and>
    bk_active_state_snapshots b' = bk_active_state_snapshots b"
  using assms(1)
proof (cases rule: do_mine_block_cases)
  case (1 executed db)
  from execute_keeps [OF 1(1)] assms(2) 1 hash_keeps [of db] show ?thesis by simp
qed

lemma since_create:
  assumes "backend_ok lib b" "inv (bk_db b)" "ready (bk_db b)" "create_state_snapshot lib b = (k, b1)"
  shows "since lib content saved inv b k b1"
proof -
  obtain k' d where s: "db_snapshot_state (nl_db lib) (bk_db b) = (k', d)" by fastforce
  from snapshot_saves [OF assms(2,3) s] assms(4) s show ?thesis
    using assms(1) by (auto simp: since_def create_state_snapshot_def backend_ok_def hm_get_insert)
qed

lemma since_mine:
  assumes "since lib content saved inv b0 k b" "do_mine_block lib now random txs b = Some (Ret (outcome, b'))"
    and "best_number (bk_storage b) \<noteq> - 1" "headers (bk_storage b) (best_hash (bk_storage b')) = None"
  shows "since lib content saved inv b0 k b'"
proof -
  from assms(1) have ok: "backend_ok lib b" "inv (bk_db b)" by (simp_all add: since_def)
  show ?thesis
  proof (rule mine_storage [OF ok(1) assms(3,2)])
    fix header
    assume S: "hm_get (hashes (bk_storage b')) = (hm_get (hashes (bk_storage b)))(best_number (bk_storage b) + 1 \<mapsto> nl_hash_slow lib header)"
      "headers (bk_storage b') = (headers (bk_storage b))(nl_hash_slow lib header \<mapsto> (best_number (bk_storage b) + 1, header))"
      "best_number (bk_storage b') = best_number (bk_storage b) + 1" "best_hash (bk_storage b') = nl_hash_slow lib header"
    have lt: "n < best_number (bk_storage b) + 1" if "n \<le> best_number (bk_storage b0)" for n
      using assms(1) that word_plus_one_cases(2) [OF assms(3)] by (auto simp: since_def)
    from lt [of "best_number (bk_storage b0)"] have "best_number (bk_storage b0) \<le> best_number (bk_storage b')"
      by (simp add: S)
    moreover from lt have "\<forall>n \<le> best_number (bk_storage b0). hm_get (hashes (bk_storage b')) n = hm_get (hashes (bk_storage b0)) n"
      using assms(1) by (auto simp: S since_def)
    moreover have "map_le (headers (bk_storage b)) (headers (bk_storage b'))"
      using assms(4) by (auto simp: S map_le_def)
    then have "map_le (headers (bk_storage b0)) (headers (bk_storage b'))"
      using assms(1) by (auto simp: since_def intro: map_le_trans)
    ultimately show ?thesis
      using assms(1) mine_keeps [OF assms(2) ok(2)] mine_backend_ok [OF ok(1) assms(3,2,4)]
      by (simp add: since_def)
  qed
qed

lemma since_step:
  assumes "node_step lib saved inv ready b b'" "since lib content saved inv b0 k b"
  shows "since lib content saved inv b0 k b'"
  using assms
proof (induction rule: node_step.induct)
  case (mine now random txs b outcome b')
  then show ?case using since_mine by blast
next
  case (snapshot b k' b')
  obtain k'' d where s: "db_snapshot_state (nl_db lib) (bk_db b) = (k'', d)" by fastforce
  from snapshot(3) have "inv (bk_db b)" by (simp add: since_def)
  from snapshot_saves [OF this snapshot(1) s] snapshot s show ?case
    by (auto simp: since_def create_state_snapshot_def backend_ok_def hm_get_insert)
qed (simp_all add: since_def backend_ok_def)

lemma since_steps: "(node_step lib saved inv ready)\<^sup>*\<^sup>* b b' \<Longrightarrow> since lib content saved inv b0 k b \<Longrightarrow> since lib content saved inv b0 k b'"
  by (induction rule: rtranclp_induct) (auto intro: since_step)

text \<open>Reverting the storage then gives the chain of \<open>b0\<close> back.\<close>

lemma since_storage:
  assumes ok0: "backend_ok lib b0" and best: "best_number (bk_storage b0) \<noteq> - 1" and sc: "since lib content saved inv b0 k b"
  defines "s \<equiv> revert_storage (best_number (bk_storage b0)) (best_hash (bk_storage b0)) (bk_storage b)"
  shows "hm_get (hashes s) = hm_get (hashes (bk_storage b0)) \<and> headers s = headers (bk_storage b0) \<and>
    best_number s = best_number (bk_storage b0) \<and> best_hash s = best_hash (bk_storage b0)"
proof -
  let ?s0 = "bk_storage b0"
  have le: "best_number ?s0 \<le> best_number (bk_storage b)" using sc by (simp add: since_def)
  note V = revert_storage_view [OF le best, of "best_hash ?s0", folded s_def]
  have c0: "chain_ok (nl_hash_slow lib) (best_number ?s0) (best_hash ?s0) (hm_get (hashes ?s0)) (headers ?s0)"
    using ok0 by (simp add: backend_ok_def storage_chain_ok_def)
  have c: "chain_ok (nl_hash_slow lib) (best_number (bk_storage b)) (best_hash (bk_storage b))
      (hm_get (hashes (bk_storage b))) (headers (bk_storage b))"
    using sc by (simp add: since_def backend_ok_def storage_chain_ok_def)
  have "hm_get (hashes s) n = hm_get (hashes ?s0) n" for n
  proof (cases "n \<le> best_number ?s0")
    case True
    then have "\<not> best_number ?s0 < n" by simp
    with True sc show ?thesis by (simp add: V since_def)
  next
    case False
    then have "hm_get (hashes ?s0) n = None" using chain_ok_number [OF c0] by (metis not_None_eq)
    moreover have "hm_get (hashes (bk_storage b)) n = None" if "\<not> n \<le> best_number (bk_storage b)"
      using chain_ok_number [OF c] that by (metis not_None_eq)
    ultimately show ?thesis using False by (auto simp: V)
  qed
  then have H: "hm_get (hashes s) = hm_get (hashes ?s0)" by (rule ext)
  have cs: "chain_ok (nl_hash_slow lib) (best_number ?s0) (best_hash ?s0) (hm_get (hashes ?s0)) (headers s)"
    using chain_ok_truncate [OF c, of "best_number ?s0" "best_hash ?s0"] H chain_ok_best [OF c0] sc
    by (simp add: V since_def)
  have "headers s h = headers ?s0 h" for h
  proof (cases "headers ?s0 h")
    case None
    have "headers s h = None"
    proof (rule ccontr)
      assume "headers s h \<noteq> None"
      then obtain n hr where "headers s h = Some (n, hr)" by auto
      from chain_ok_block [OF cs this] chain_ok_number [OF c0] None show False by (metis option.distinct(1))
    qed
    with None show ?thesis by simp
  next
    case (Some x)
    obtain n hr where x: "x = (n, hr)" by (cases x)
    from chain_ok_block [OF c0] Some x have "hm_get (hashes ?s0) n = Some h" by simp
    from chain_ok_number [OF cs this] obtain hr' where "headers s h = Some (n, hr')" by blast
    moreover from this have "headers (bk_storage b) h = Some (n, hr')" by (simp add: V split: if_splits)
    moreover have "headers (bk_storage b) h = Some x" using sc Some unfolding since_def map_le_def by (metis domI)
    ultimately show ?thesis using Some x by simp
  qed
  then show ?thesis using H V by auto
qed

lemma revert_restores:
  assumes "backend_ok lib b0" "best_number (bk_storage b0) \<noteq> - 1" "since lib content saved inv b0 k b"
    and "headers (bk_storage b0) (best_hash (bk_storage b0)) = Some (best_number (bk_storage b0), header)"
  obtains b' where "revert_state_snapshot lib fork now k b = (Inr True, b')" "content (bk_db b') = content (bk_db b0)"
    "hm_get (hashes (bk_storage b')) = hm_get (hashes (bk_storage b0))"
    "headers (bk_storage b') = headers (bk_storage b0)"
    "best_number (bk_storage b') = best_number (bk_storage b0)" "best_hash (bk_storage b') = best_hash (bk_storage b0)"
    "be_number (bk_block_env b') = ucast (best_number (bk_storage b0))" "bk_cfg_env b' = bk_cfg_env b"
    "last_timestamp (bk_time b') = ah_timestamp (nl_any_header lib header)"
proof -
  let ?n = "best_number (bk_storage b0)" and ?h = "best_hash (bk_storage b0)"
  let ?s = "revert_storage ?n ?h (bk_storage b)"
  note S = since_storage [OF assms(1-3)]
  from S assms(4) have "headers ?s ?h = Some (?n, header)" by simp
  then obtain blk where blk: "hm_get (blocks ?s) ?h = Some blk" "bl_header blk = header"
    by (auto simp: headers_def)
  obtain r d where r: "db_revert_state (nl_db lib) k RevertRemove (bk_db b) = (r, d)" by fastforce
  from assms(3) have sc: "inv (bk_db b)" "saved (bk_db b) k = Some (content (bk_db b0))"
      "hm_get (bk_active_state_snapshots b) k = Some (?n, ?h)" by (simp_all add: since_def)
  from revert_saved [OF sc(1,2) r] have "r" "content d = content (bk_db b0)" by simp_all
  with blk r sc S show thesis
    by (intro that [of "snd (revert_state_snapshot lib fork now k b)"])
      (simp_all add: revert_state_snapshot_def Let_def block_by_hash_def revert_env_def time_reset_def)
qed

end

lemma with_memdb_simps [simp]:
  "nl_exec (with_memdb lib) = memdb_exec (nl_exec lib)" "nl_db (with_memdb lib) = memdb_trait (nl_db lib)"
  "nl_hash_slow (with_memdb lib) = nl_hash_slow lib" "nl_any_header (with_memdb lib) = nl_any_header lib"
  "nl_is_arbitrum (with_memdb lib) = nl_is_arbitrum lib" "nl_states (with_memdb lib) = nl_states lib"
  by (simp_all add: with_memdb_def)

interpretation mem_node: node_db "with_memdb lib" md_inner "\<lambda>d. snapshots_get (md_state_snapshots d)" "\<lambda>_. True"
    "\<lambda>d. snap_wf (md_state_snapshots d)"
  for lib :: "('v, 'i, 'tr, 'st, 'n, 'd) node_lib"
proof (unfold_locales, goal_cases)
  case (1 d k d')
  then show ?case using memdb.snapshot_saves [of d k d'] by (simp add: memdb_trait_def)
next
  case (2 d k c act b d')
  then show ?case using memdb.revert_saved [of d k c act b d'] by (simp add: memdb_trait_def)
next
  case (3 d k act b d')
  then show ?case using memdb.revert_unsaved [of d k act b d'] by (simp add: memdb_trait_def)
qed (auto simp: memdb_exec_def memdb_trait_def on_inner_def Let_def split: prod.splits)

text \<open>The steps of a node on the in-memory database.\<close>

abbreviation mem_node_step ::
    "('v, 'i, 'tr, 'st, 'n, 'd) node_lib \<Rightarrow> ('i MemDb, 'tr, 'st, 'd) Backend \<Rightarrow> ('i MemDb, 'tr, 'st, 'd) Backend \<Rightarrow> bool" where
  "mem_node_step lib \<equiv>
     node_step (with_memdb lib) (\<lambda>d. snapshots_get (md_state_snapshots d)) (\<lambda>_. True)
       (\<lambda>d. snap_wf (md_state_snapshots d))"


subsection \<open>Snapshots that outlive their blocks\<close>

text \<open>
  C38: Reverting to a snapshot leaves the records of the later snapshots in place. Reverting
  to one of those afterwards fails, but only after the chain was changed: the node then
  claims a best block that it does not have.
\<close>

theorem stale_snapshot_breaks_chain:
  assumes "backend_ok (with_memdb lib) b" "best_number (bk_storage b) \<noteq> - 1"
    and "snap_wf (md_state_snapshots (bk_db b))"
    and "create_state_snapshot (with_memdb lib) b = (k1, b1)" "(mem_node_step lib)\<^sup>*\<^sup>* b1 b2"
    and "hm_get (bk_active_state_snapshots b2) k2 = Some (n2, h2)" "k2 \<noteq> k1"
    and "headers (bk_storage b2) h2 = Some (n2, header)" "best_number (bk_storage b) < n2"
    and "revert_state_snapshot (with_memdb lib) None now k1 b2 = (r, b3)"
  shows "\<exists>b4. revert_state_snapshot (with_memdb lib) None now' k2 b3 = (Inl BlockNotFound, b4) \<and>
    best_number (bk_storage b4) = n2 \<and> best_hash (bk_storage b4) = h2 \<and>
    headers (bk_storage b4) h2 = None \<and> \<not> backend_ok (with_memdb lib) b4"
proof -
  have c: "chain_ok (nl_hash_slow lib) (best_number (bk_storage b)) (best_hash (bk_storage b))
      (hm_get (hashes (bk_storage b))) (headers (bk_storage b))"
    using assms(1) by (simp add: backend_ok_def storage_chain_ok_def)
  from chain_ok_number [OF c chain_ok_best [OF c]] obtain hr where
    h: "headers (bk_storage b) (best_hash (bk_storage b)) = Some (best_number (bk_storage b), hr)" by blast
  have sc: "since (with_memdb lib) md_inner (\<lambda>d. snapshots_get (md_state_snapshots d)) (\<lambda>_. True) b k1 b2"
    using mem_node.since_steps [OF assms(5)] mem_node.since_create [OF assms(1) _ assms(3,4)] by simp
  have "headers (bk_storage b3) = headers (bk_storage b)"
    by (rule mem_node.revert_restores [OF assms(1,2) sc h, of None now]) (use assms(10) in simp)
  moreover have "headers (bk_storage b) h2 = None"
  proof (rule ccontr)
    assume "headers (bk_storage b) h2 \<noteq> None"
    then obtain n hr where x: "headers (bk_storage b) h2 = Some (n, hr)" by auto
    then have "headers (bk_storage b2) h2 = Some (n, hr)"
      using sc unfolding since_def map_le_def by (metis domI)
    with assms(8) have "n = n2" by simp
    with chain_ok_number [OF c chain_ok_block [OF c x]] assms(9) show False by (metis leD)
  qed
  ultimately have "headers (bk_storage b3) h2 = None" by simp
  then have gone: "hm_get (blocks (bk_storage b3)) h2 = None" by (simp add: headers_def)
  have "bk_active_state_snapshots b3 = hm_remove k1 (bk_active_state_snapshots b2)"
    using assms(10) by (auto simp: revert_state_snapshot_def Let_def split: option.splits sum.splits prod.splits)
  with assms(6,7) have act: "hm_get (bk_active_state_snapshots b3) k2 = Some (n2, h2)"
    by (simp add: hm_get_remove)
  let ?s = "revert_storage n2 h2 (bk_storage b3)"
  have none: "hm_get (blocks ?s) h2 = None"
    using revert_fold [of "rev (unwind_range n2 (best_number (bk_storage b3)))" "bk_storage b3"] gone
    by (simp add: revert_storage_def)
  have best: "best_number ?s = n2" "best_hash ?s = h2" by (simp_all add: revert_storage_def)
  have "\<not> storage_chain_ok hs ?s" for hs
  proof
    assume "storage_chain_ok hs ?s"
    then have "chain_ok hs n2 h2 (hm_get (hashes ?s)) (headers ?s)" by (simp add: storage_chain_ok_def best)
    from chain_ok_number [OF this chain_ok_best [OF this]] none show False by (auto simp: headers_def)
  qed
  with act none best show ?thesis
    by (simp add: revert_state_snapshot_def Let_def block_by_hash_def headers_def backend_ok_def)
qed

subsection \<open>Rollback\<close>

lemma storage_ok_of_chain: "storage_chain_ok hs s \<Longrightarrow> storage_ok s"
  unfolding storage_chain_ok_def storage_ok_def
proof (intro allI impI, elim conjE)
  fix n h b
  assume "chain_ok hs (best_number s) (best_hash s) (hm_get (hashes s)) (headers s)"
    and n: "hm_get (hashes s) n = Some h" "hm_get (blocks s) h = Some b"
  from chain_ok_number [OF this(1,2)] n(2) show "bl_number b = n" by (auto simp: headers_def)
qed

lemma unwind_to_chain_ok:
  assumes ok: "storage_chain_ok hs s" and n: "hm_get (hashes s) n = Some h" "n \<noteq> - 1"
  shows "storage_chain_ok hs (unwind_to n h s)"
    "hm_get (hashes (unwind_to n h s)) = (\<lambda>i. if n < i \<and> i \<le> best_number s then None else hm_get (hashes s) i)"
    "best_number (unwind_to n h s) = n"
proof -
  have c: "chain_ok hs (best_number s) (best_hash s) (hm_get (hashes s)) (headers s)"
    using ok by (simp add: storage_chain_ok_def)
  from chain_ok_number [OF c n(1)] have le: "n \<le> best_number s" by blast
  note F = unwind_fold [OF storage_ok_of_chain [OF ok], of "unwind_range n (best_number s)"]
  show H: "hm_get (hashes (unwind_to n h s)) = (\<lambda>i. if n < i \<and> i \<le> best_number s then None else hm_get (hashes s) i)"
    using F by (simp add: unwind_to_def fun_eq_iff set_unwind_range_le [OF le n(2)])
  have D: "headers (unwind_to n h s) =
      (\<lambda>k. if \<exists>i. n < i \<and> i \<le> best_number s \<and> hm_get (hashes s) i = Some k then None else headers s k)"
    using F by (auto simp: unwind_to_def headers_def fun_eq_iff set_unwind_range_le [OF le n(2)])
  show B: "best_number (unwind_to n h s) = n" by (simp add: unwind_to_def)
  have "best_hash (unwind_to n h s) = h" by (simp add: unwind_to_def)
  then show "storage_chain_ok hs (unwind_to n h s)"
    using chain_ok_truncate [OF c n(1)] by (simp add: storage_chain_ok_def H D B)
qed

lemma rollback_cases:
  assumes "rollback lib now blk b = (res, b')"
  obtains e where "res = Inl e" "bk_storage b' = bk_storage b" "bk_block_env b' = bk_block_env b" "bk_cfg_env b' = bk_cfg_env b"
    | "res = Inr ()" "bk_storage b' = unwind_to (ph_number (bl_header blk)) (nl_hash_slow lib (bl_header blk)) (bk_storage b)"
      "be_number (bk_block_env b') = ucast (ph_number (bl_header blk))" "bk_cfg_env b' = bk_cfg_env b"
      "last_timestamp (bk_time b') = ph_timestamp (bl_header blk)"
  using assms
  by (auto simp: rollback_def Let_def time_reset_def split: prod.splits option.splits sum.splits)

text \<open>
  C20: Rolling back by a depth is refused without any change when the depth exceeds the height;
  when it fails later, the chain is still unchanged; otherwise the chain is cut at the height
  reduced by the depth, everything up to there is kept, and the whole is again a chain.
\<close>

theorem rollback_result:
  assumes "backend_ok lib b" "best_number (bk_storage b) \<noteq> - 1" "anvil_rollback lib now (Some depth) b = (res, b')"
  shows "case res of
      Inl RollbackDepthExceedsHeight \<Rightarrow> best_number (bk_storage b) < depth \<and> b' = b
    | Inl (RollbackFailed e) \<Rightarrow> bk_storage b' = bk_storage b \<and> backend_ok lib b'
    | Inr _ \<Rightarrow> backend_ok lib b' \<and> depth \<le> best_number (bk_storage b) \<and>
        best_number (bk_storage b') = best_number (bk_storage b) - depth \<and>
        (\<forall>n. hm_get (hashes (bk_storage b')) n =
           (if n \<le> best_number (bk_storage b) - depth then hm_get (hashes (bk_storage b)) n else None))"
proof -
  let ?s = "bk_storage b" and ?m = "best_number (bk_storage b) - depth"
  show ?thesis
  proof (cases "best_number ?s < depth")
    case True
    with assms(3) show ?thesis by (auto simp: anvil_rollback_def Let_def)
  next
    case False
    then have le: "?m \<le> best_number ?s" by (simp add: word_le_nat_alt unat_sub not_less)
    have c: "chain_ok (nl_hash_slow lib) (best_number ?s) (best_hash ?s) (hm_get (hashes ?s)) (headers ?s)"
      using assms(1) by (simp add: backend_ok_def storage_chain_ok_def)
    show ?thesis
    proof (cases "hm_get (hashes ?s) ?m")
      case None
      with False assms(1,3) show ?thesis by (auto simp: anvil_rollback_def Let_def)
    next
      case (Some h)
      from chain_ok_number [OF c Some] obtain hr where hr: "headers ?s h = Some (?m, hr)" "ph_number hr = ?m"
        "nl_hash_slow lib hr = h" by blast
      then obtain blk where blk: "hm_get (blocks ?s) h = Some blk" "bl_header blk = hr" by (auto simp: headers_def)
      obtain r bb where r: "rollback lib now blk b = (r, bb)" by fastforce
      have m: "?m \<noteq> - 1" using le assms(2) by (metis word_order.extremum_unique)
      note U = unwind_to_chain_ok [OF _ Some m, of "nl_hash_slow lib"]
      from assms(1) have ok: "storage_chain_ok (nl_hash_slow lib) ?s" by (simp add: backend_ok_def)
      have above: "hm_get (hashes ?s) n = None" if "\<not> n \<le> best_number ?s" for n
        using chain_ok_number [OF c] that by (metis not_None_eq)
      from r show ?thesis
      proof (cases rule: rollback_cases)
        case (1 e)
        with r False Some blk assms(1,3) show ?thesis by (auto simp: anvil_rollback_def Let_def backend_ok_def)
      next
        case 2
        have b': "res = Inr ()" "b' = bb" using 2(1) r False Some blk assms(3) by (auto simp: anvil_rollback_def Let_def)
        have "hm_get (hashes (bk_storage bb)) n = (if n \<le> ?m then hm_get (hashes ?s) n else None)" for n
          using above [of n] by (auto simp: 2(2) blk hr U(2) [OF ok])
        moreover have "backend_ok lib bb"
          using assms(1) 2 U(1,3) [OF ok] by (simp add: backend_ok_def blk hr)
        ultimately show ?thesis
          using False 2 U(3) [OF ok] by (simp add: b' blk hr not_less)
      qed
    qed
  qed
qed

subsection \<open>A concrete node\<close>

text \<open>A node with a genesis block, whose block hashes are the block number plus 100.\<close>

definition sample_node :: "(nat, unit, unit, unit, unit, unit) node_lib" where
  "sample_node =
     \<lparr>nl_val = sample_lib, nl_exec = sample_ops,
      nl_db =
        \<lparr>db_snapshot_state = (\<lambda>d. (0, d)), db_revert_state = (\<lambda>k act d. (False, d)),
         db_insert_block_hash = (\<lambda>n h d. d), db_current_state = (\<lambda>d. d), db_clear = (\<lambda>d. d),
         db_set_storage_at = (\<lambda>a k v d. (Inr (), d)), db_insert_account = (\<lambda>a acc d. d),
         state_as_full_db = (\<lambda>s. Some [])\<rparr>,
      nl_states =
        \<lparr>clear_into_state_snapshot = (\<lambda>s. (s, s)), init_from_state_snapshot = (\<lambda>n s. n),
         disk_write = (\<lambda>h n d. d), disk_read = (\<lambda>h d. (None, d)), disk_remove = (\<lambda>h d. d)\<rparr>,
      nl_hash_slow = (\<lambda>h. 100 + ucast (ph_number h)), nl_tx_hash = (\<lambda>_. 0),
      nl_any_header = (\<lambda>h. \<lparr>ah_timestamp = ph_timestamp h, ah_difficulty = ph_difficulty h,
                             ah_mix_hash = Some (ph_mix_hash h), ah_gas_limit = ph_gas_limit h\<rparr>),
      nl_calc_base_fee = (\<lambda>used limit fee. fee), nl_calc_excess_blob_gas = (\<lambda>used excess. 0),
      nl_blob_excess_gas_and_price = (\<lambda>g. \<lparr>excess_blob_gas = g, blob_gasprice = 1\<rparr>),
      nl_is_arbitrum = (\<lambda>_. False), nl_merge = 15, nl_default_block_env = sample_block_env\<rparr>"

definition sample_genesis :: BlockHeader where
  "sample_genesis =
     PartialHeader.extend
       \<lparr>ph_parent_hash = 0, ph_beneficiary = [], ph_state_root = 0, ph_receipts_root = 0, ph_logs_bloom = [],
        ph_difficulty = 0, ph_number = 0, ph_gas_limit = 30000000, ph_gas_used = 0, ph_timestamp = 50,
        ph_extra_data = [], ph_mix_hash = 0, ph_blob_gas_used = None, ph_excess_blob_gas = None,
        ph_parent_beacon_block_root = None, ph_nonce = 0, ph_base_fee = None, ph_withdrawals_root = None,
        ph_requests_hash = None\<rparr>
       (BlockHeader.fields 0 0)"

definition sample_backend :: "(unit MemDb, unit, unit, unit) Backend" where
  "sample_backend =
     \<lparr>bk_db = \<lparr>md_inner = (), md_state_snapshots = snapshots_default\<rparr>,
      bk_storage = storage_new \<lparr>bl_header = sample_genesis, bl_number = 0, bl_transactions = []\<rparr> 100,
      bk_states = block_states_new () 1 0, bk_block_env = sample_block_env\<lparr>be_number := 0\<rparr>,
      bk_cfg_env = sample_cfg, bk_time = TimeManager_new 60 50,
      bk_fees = \<lparr>fm_spec_id = 17, fm_london = 12, fm_cancun = 17, fm_base_fee = 10,
                 fm_min_priority_fee_enforced = True,
                 fm_blob_excess_gas_and_price = \<lparr>excess_blob_gas = 0, blob_gasprice = 1\<rparr>, fm_gas_price = 20\<rparr>,
      bk_active_state_snapshots = [], bk_prune_enabled = False, bk_max_memory_history = None,
      bk_transaction_block_keeper = None\<rparr>"

lemma sample_backend_simps [simp]:
  "bk_storage sample_backend = storage_new \<lparr>bl_header = sample_genesis, bl_number = 0, bl_transactions = []\<rparr> 100"
  "bk_block_env sample_backend = sample_block_env\<lparr>be_number := 0\<rparr>" "bk_cfg_env sample_backend = sample_cfg"
  "bk_db sample_backend = \<lparr>md_inner = (), md_state_snapshots = snapshots_default\<rparr>"
  "bk_states sample_backend = block_states_new () 1 0" "bk_active_state_snapshots sample_backend = []"
  by (simp_all add: sample_backend_def)

lemma sample_genesis_simps [simp]: "ph_number sample_genesis = 0" "ph_timestamp sample_genesis = 50"
  by (simp_all add: sample_genesis_def PartialHeader.defs BlockHeader.defs)

lemma sample_node_simps [simp]:
  "nl_hash_slow sample_node h = 100 + ucast (ph_number h)" "nl_is_arbitrum sample_node c = False"
  "nl_exec sample_node = sample_ops"
  by (simp_all add: sample_node_def)

lemma storage_new_simps [simp]:
  "best_number (storage_new blk h) = 0" "best_hash (storage_new blk h) = h"
  "hashes (storage_new blk h) = [(0, h)]" "blocks (storage_new blk h) = [(h, blk)]"
  "headers (storage_new blk h) k = (if k = h then Some (bl_number blk, bl_header blk) else None)"
  by (simp_all add: storage_new_def headers_def)

lemma sample_ok: "backend_ok (with_memdb sample_node) sample_backend"
  by (auto simp: backend_ok_def storage_chain_ok_def chain_ok_def split: if_splits)

lemma sample_ready: "snap_wf (md_state_snapshots (bk_db sample_backend))"
  by (simp add: snap_wf_def snapshots_default_def snapshots_get_def)

lemma sample_evm: "evm_no_other (nl_exec (with_memdb sample_node))"
  using sample_promises(2)
  by (auto simp: evm_no_other_def memdb_exec_def Let_def sample_ops_def)

lemma sample_states:
  "states_init (bk_states sample_backend)"
  unfolding states_init_def sample_backend_simps by (intro exI [of _ "()"] exI [of _ 1] exI [of _ 0]) simp


text \<open>The first block mined on the sample node.\<close>

lemma sample_mine:
  assumes "bk_storage b = bk_storage sample_backend" "bk_block_env b = bk_block_env sample_backend"
    and "bk_cfg_env b = bk_cfg_env sample_backend" "bk_states b = bk_states sample_backend"
  obtains outcome b' header where "do_mine_block (with_memdb sample_node) 70 5 [] b = Some (Ret (outcome, b'))"
    "best_number (bk_storage b') = 1" "best_hash (bk_storage b') = 101"
    "headers (bk_storage b) (best_hash (bk_storage b')) = None"
    "headers (bk_storage b') 101 = Some (1, header)" "ph_parent_hash header = 100"
proof -
  have ok: "backend_ok (with_memdb sample_node) b" using sample_ok assms by (simp add: backend_ok_def)
  have best: "best_number (bk_storage b) \<noteq> - 1" by (simp add: assms)
  have "\<exists>outcome b'. do_mine_block (with_memdb sample_node) 70 5 [] b = Some (Ret (outcome, b'))"
    using states_init_inv [OF sample_states]
    by (intro do_mine_block_ret [OF ok best _ _ _ sample_evm]) (simp_all add: assms sample_block_env_def)
  then obtain outcome b' where mine: "do_mine_block (with_memdb sample_node) 70 5 [] b = Some (Ret (outcome, b'))"
    by blast
  show thesis
    by (rule mine_storage [OF ok best mine], rule that [OF mine]) (simp_all add: assms)
qed

theorem mined_block_extends_chain_witness:
  "\<exists>outcome b'. do_mine_block (with_memdb sample_node) 70 5 [] sample_backend = Some (Ret (outcome, b')) \<and>
     backend_ok (with_memdb sample_node) b' \<and> mb_block_number outcome = 1"
proof (rule sample_mine [of sample_backend])
  fix outcome b' header
  assume mine: "do_mine_block (with_memdb sample_node) 70 5 [] sample_backend = Some (Ret (outcome, b'))"
    and b': "best_number (bk_storage b') = 1" "headers (bk_storage sample_backend) (best_hash (bk_storage b')) = None"
  from mined_block_extends_chain [OF sample_ok _ mine b'(2)] b'(1) mine show ?thesis by simp
qed simp_all

text \<open>The sample node with a second block and the state before it on record.\<close>

definition sample_two_blocks :: "(unit MemDb, unit, unit, unit) Backend" where
  "sample_two_blocks = sample_backend
     \<lparr>bk_storage := (bk_storage sample_backend)
        \<lparr>best_number := 1, best_hash := 101, hashes := [(1, 101), (0, 100)],
         blocks := [(101, \<lparr>bl_header = sample_genesis\<lparr>ph_number := 1, ph_parent_hash := 100\<rparr>, bl_number = 1, bl_transactions = []\<rparr>),
                    (100, \<lparr>bl_header = sample_genesis, bl_number = 0, bl_transactions = []\<rparr>)]\<rparr>,
      bk_block_env := sample_block_env\<lparr>be_number := 1\<rparr>,
      bk_states := (bk_states sample_backend)\<lparr>states := [(100, ())], present := [100]\<rparr>\<rparr>"

lemma sample_two_ok: "backend_ok (with_memdb sample_node) sample_two_blocks"
  by (auto simp: backend_ok_def storage_chain_ok_def chain_ok_def sample_two_blocks_def headers_def hm_simps
      split: if_splits)

theorem rollback_result_witness:
  "\<exists>b'. anvil_rollback (with_memdb sample_node) 80 (Some 1) sample_two_blocks = (Inr (), b') \<and>
     backend_ok (with_memdb sample_node) b' \<and> best_number (bk_storage b') = 0 \<and>
     hm_get (hashes (bk_storage b')) 1 = None"
proof -
  obtain res b' where r: "anvil_rollback (with_memdb sample_node) 80 (Some 1) sample_two_blocks = (res, b')" by fastforce
  then have "res = Inr ()"
    by (simp add: anvil_rollback_def rollback_def sample_two_blocks_def states_get_def hm_simps
        sample_node_def memdb_trait_def split: prod.splits)
  with rollback_result [OF sample_two_ok _ r] r show ?thesis by (simp add: sample_two_blocks_def)
qed

text \<open>A snapshot, a block, and another snapshot.\<close>

lemma sample_snapshots_taken:
  obtains b1 b2 k2 header where "create_state_snapshot (with_memdb sample_node) sample_backend = (0, b1)"
    "(mem_node_step sample_node)\<^sup>*\<^sup>* b1 b2" "best_number (bk_storage b2) = 1"
    "k2 \<noteq> 0" "hm_get (bk_active_state_snapshots b2) k2 = Some (1, 101)" "headers (bk_storage b2) 101 = Some (1, header)"
proof -
  let ?lib = "with_memdb sample_node"
  let ?b1 = "snd (create_state_snapshot ?lib sample_backend)"
  have c1: "create_state_snapshot ?lib sample_backend = (0, ?b1)"
    by (simp add: create_state_snapshot_def memdb_trait_def memdb_snapshot_state_def snapshots_insert_def
        snapshots_next_id_def snapshots_default_def Let_def)
  have sn1: "md_state_snapshots (bk_db ?b1) = \<lparr>sn_id = 1, state_snapshots = [(0, ())]\<rparr>"
    by (simp add: create_state_snapshot_def memdb_trait_def memdb_snapshot_state_def snapshots_insert_def
        snapshots_next_id_def snapshots_default_def Let_def saturating_add_def)
  have eq: "bk_storage ?b1 = bk_storage sample_backend" "bk_block_env ?b1 = bk_block_env sample_backend"
    "bk_cfg_env ?b1 = bk_cfg_env sample_backend" "bk_states ?b1 = bk_states sample_backend"
    by (simp_all add: create_state_snapshot_def Let_def case_prod_unfold)
  show thesis
  proof (rule sample_mine [OF eq])
    fix outcome b' header
    assume mine: "do_mine_block ?lib 70 5 [] ?b1 = Some (Ret (outcome, b'))"
      and b': "best_number (bk_storage b') = 1" "best_hash (bk_storage b') = 101"
        "headers (bk_storage ?b1) (best_hash (bk_storage b')) = None" "headers (bk_storage b') 101 = Some (1, header)"
    obtain k2 b2 where c2: "create_state_snapshot ?lib b' = (k2, b2)" by fastforce
    obtain k d where d: "memdb_snapshot_state (bk_db b') = (k, d)" by fastforce
    have wf1: "snap_wf (md_state_snapshots (bk_db ?b1))"
      by (simp add: sn1 snap_wf_def snapshots_get_def)
    from mem_node.mine_keeps [OF mine] wf1
    have keeps: "snapshots_get (md_state_snapshots (bk_db b')) = snapshots_get (md_state_snapshots (bk_db ?b1))"
      "snap_wf (md_state_snapshots (bk_db b'))" by auto
    have "snapshots_get (md_state_snapshots (bk_db b')) 0 = Some ()"
      by (simp add: keeps sn1 snapshots_get_def)
    moreover from c2 d have k: "k2 = k" "bk_storage b2 = bk_storage b'"
      "hm_get (bk_active_state_snapshots b2) k = Some (1, 101)"
      by (auto simp: create_state_snapshot_def memdb_trait_def Let_def b' hm_get_insert)
    ultimately have "k2 \<noteq> 0" using memdb.snapshot_saves [OF _ keeps(2) d] by auto
    moreover have "mem_node_step sample_node ?b1 b'"
      by (rule node_step.mine [OF mine _ b'(3)]) (simp add: eq)
    moreover have "mem_node_step sample_node b' b2"
      using keeps(2) c2 by (intro node_step.snapshot) simp_all
    ultimately show thesis
      using k b' by (intro that [OF c1, of b2 k2 header]) auto
  qed
qed


theorem stale_snapshot_breaks_chain_witness:
  "\<exists>b3 b4 k2. revert_state_snapshot (with_memdb sample_node) None 90 k2 b3 = (Inl BlockNotFound, b4) \<and>
     best_number (bk_storage b4) = 1 \<and> headers (bk_storage b4) (best_hash (bk_storage b4)) = None"
proof (rule sample_snapshots_taken)
  fix b1 b2 :: "(unit MemDb, unit, unit, unit) Backend" and k2 header
  assume b: "create_state_snapshot (with_memdb sample_node) sample_backend = (0, b1)"
    "(mem_node_step sample_node)\<^sup>*\<^sup>* b1 b2" "best_number (bk_storage b2) = 1" "k2 \<noteq> 0"
    "hm_get (bk_active_state_snapshots b2) k2 = Some (1, 101)" "headers (bk_storage b2) 101 = Some (1, header)"
  obtain r b3 where r: "revert_state_snapshot (with_memdb sample_node) None 80 0 b2 = (r, b3)" by fastforce
  have best: "best_number (bk_storage sample_backend) \<noteq> - 1" "best_number (bk_storage sample_backend) < 1"
    by simp_all
  from stale_snapshot_breaks_chain [OF sample_ok best(1) sample_ready b(1,2,5,4,6) best(2) r, of 90]
  show ?thesis by (elim exE conjE) (intro exI conjI, assumption, assumption, simp)
qed

end
