(* ===== verification/Node_Service.thy ===== *)
theory Node_Service
  imports Pool_Order Node_Snapshots "HOL-Library.Sublist"
begin

text \<open>
  Block production: the miner that picks transactions from the pool
  (\<^verbatim>\<open>anvil/src/eth/miner.rs\<close>), the service that feeds them to the backend one block at a
  time (\<^verbatim>\<open>anvil/src/service.rs\<close>), and the requests that mine blocks or change the mining
  mode (\<^verbatim>\<open>anvil/src/eth/api.rs\<close>). The runtime is a parameter: whether the interval of a
  miner ticks, and whether a poll of the mining task sees that it has finished, are
  arguments. The service, the mining task and the other users of the pool run
  concurrently; they are the steps of one transition system.
\<close>

subsection \<open>The miner\<close>

datatype 'a poll = PollReady 'a | PollPending

record ReadyTransactionMiner =
  max_transactions :: nat
  has_pending_txs :: "bool option"
  rx :: "TxHash list"

record FixedBlockTimeMiner =
  interval_secs :: u64

datatype MiningMode =
    NoMining
  | Auto ReadyTransactionMiner
  | FixedBlockTime FixedBlockTimeMiner
  | Mixed ReadyTransactionMiner FixedBlockTimeMiner

record Miner =
  mode :: MiningMode
  force_transactions :: "PoolTransaction list option"

definition mode_instant :: "nat \<Rightarrow> TxHash list \<Rightarrow> MiningMode" where
  "mode_instant max_txs listener = Auto \<lparr>max_transactions = max_txs, has_pending_txs = None, rx = listener\<rparr>"

definition mode_interval :: "u64 \<Rightarrow> MiningMode" where
  "mode_interval duration = FixedBlockTime \<lparr>interval_secs = duration\<rparr>"

definition mode_mixed :: "nat \<Rightarrow> TxHash list \<Rightarrow> u64 \<Rightarrow> MiningMode" where
  "mode_mixed max_txs listener duration =
     Mixed \<lparr>max_transactions = max_txs, has_pending_txs = None, rx = listener\<rparr> \<lparr>interval_secs = duration\<rparr>"

definition Miner_new :: "MiningMode \<Rightarrow> Miner" where
  "Miner_new m = \<lparr>mode = m, force_transactions = None\<rparr>"

definition with_forced_transactions :: "PoolTransaction list option \<Rightarrow> Miner \<Rightarrow> Miner" where
  "with_forced_transactions txs m = m\<lparr>force_transactions := txs\<rparr>"

definition is_auto_mine :: "Miner \<Rightarrow> bool" where
  "is_auto_mine m = (case mode m of Auto _ \<Rightarrow> True | _ \<Rightarrow> False)"

definition get_interval :: "Miner \<Rightarrow> u64 option" where
  "get_interval m = (case mode m of FixedBlockTime f \<Rightarrow> Some (interval_secs f) | _ \<Rightarrow> None)"

definition set_mining_mode :: "MiningMode \<Rightarrow> Miner \<Rightarrow> Miner" where
  "set_mining_mode new m = m\<lparr>mode := new\<rparr>"

text \<open>Reading the notifications that have arrived.\<close>

fun drain_rx :: "ReadyTransactionMiner \<Rightarrow> TxHash list \<Rightarrow> ReadyTransactionMiner" where
  "drain_rx m [] = m\<lparr>rx := []\<rparr>"
| "drain_rx m (_ # rest) = drain_rx (m\<lparr>has_pending_txs := Some True\<rparr>) rest"

definition ready_miner_poll ::
    "PoolInner \<Rightarrow> ReadyTransactionMiner \<Rightarrow> PoolTransaction list poll \<times> ReadyTransactionMiner" where
  "ready_miner_poll pool m =
     (let m = drain_rx m (rx m)
      in if has_pending_txs m = Some False then (PollPending, m)
         else
           let transactions = iter_take (max_transactions m) (inner_ready_transactions pool);
               m = m\<lparr>has_pending_txs := Some (max_transactions m \<le> length transactions)\<rparr>
           in if transactions = [] then (PollPending, m) else (PollReady transactions, m))"

text \<open>
  Collecting all ready transactions takes fuel; \<open>None\<close> where it does not suffice.
\<close>

definition fixed_miner_poll :: "nat \<Rightarrow> bool \<Rightarrow> PoolInner \<Rightarrow> PoolTransaction list poll option" where
  "fixed_miner_poll fuel tick pool =
     (if tick then map_option PollReady (iter_collect fuel (inner_ready_transactions pool))
      else Some PollPending)"

fun add_unique :: "PoolTransaction list \<Rightarrow> PoolTransaction list \<Rightarrow> PoolTransaction list" where
  "add_unique auto_txs [] = auto_txs"
| "add_unique auto_txs (tx # fixed_txs) =
     (if list_ex (\<lambda>auto_tx. pool_tx_hash auto_tx = pool_tx_hash tx) auto_txs
      then add_unique auto_txs fixed_txs
      else add_unique (auto_txs @ [tx]) fixed_txs)"

fun combine_polls ::
    "PoolTransaction list poll \<Rightarrow> PoolTransaction list poll \<Rightarrow> PoolTransaction list poll" where
  "combine_polls (PollReady auto_txs) (PollReady fixed_txs) = PollReady (add_unique auto_txs fixed_txs)"
| "combine_polls (PollReady auto_txs) PollPending = PollReady auto_txs"
| "combine_polls PollPending fixed_txs = fixed_txs"

fun mode_poll ::
    "nat \<Rightarrow> bool \<Rightarrow> PoolInner \<Rightarrow> MiningMode \<Rightarrow> (PoolTransaction list poll \<times> MiningMode) option" where
  "mode_poll fuel tick pool NoMining = Some (PollPending, NoMining)"
| "mode_poll fuel tick pool (Auto miner) =
     (let (txs, miner') = ready_miner_poll pool miner in Some (txs, Auto miner'))"
| "mode_poll fuel tick pool (FixedBlockTime miner) =
     map_option (\<lambda>txs. (txs, FixedBlockTime miner)) (fixed_miner_poll fuel tick pool)"
| "mode_poll fuel tick pool (Mixed auto_miner fixed) =
     (let (auto_txs, auto') = ready_miner_poll pool auto_miner
      in map_option (\<lambda>fixed_txs. (combine_polls auto_txs fixed_txs, Mixed auto' fixed))
           (fixed_miner_poll fuel tick pool))"

definition miner_poll ::
    "nat \<Rightarrow> bool \<Rightarrow> PoolInner \<Rightarrow> Miner \<Rightarrow> (PoolTransaction list poll \<times> Miner) option" where
  "miner_poll fuel tick pool m =
     map_option
       (\<lambda>(res, mode'). case res of
           PollPending \<Rightarrow> (PollPending, m\<lparr>mode := mode'\<rparr>)
         | PollReady txs \<Rightarrow>
             (case force_transactions m of
                Some transactions \<Rightarrow>
                  (PollReady (transactions @ txs), m\<lparr>mode := mode', force_transactions := None\<rparr>)
              | None \<Rightarrow> (PollReady txs, m\<lparr>mode := mode'\<rparr>)))
       (mode_poll fuel tick pool (mode m))"

text \<open>The mode a node starts with.\<close>

definition startup_mode :: "u64 option \<Rightarrow> bool \<Rightarrow> bool \<Rightarrow> nat \<Rightarrow> MiningMode" where
  "startup_mode block_time mixed_mining no_mining max_txs =
     (case block_time of
        Some t \<Rightarrow> if mixed_mining then mode_mixed max_txs [] t else mode_interval t
      | None \<Rightarrow> if no_mining then NoMining else mode_instant max_txs [])"

definition startup_miner :: "PoolTransaction list option option \<Rightarrow> MiningMode \<Rightarrow> Miner" where
  "startup_miner fork m =
     (case fork of
        Some forced \<Rightarrow> with_forced_transactions forced (Miner_new m)
      | None \<Rightarrow> Miner_new m)"

subsection \<open>The producer of blocks\<close>

text \<open>
  The producer owns a handle of the backend while no block is being mined. The mining task
  takes the handle and a batch of transactions and gives back the outcome; it fails if
  mining panics.
\<close>

datatype mining_task = Running "PoolTransaction list" | Finished MinedBlockOutcome | Failed string

record BlockProducer =
  idle_backend :: "unit option"
  block_mining :: "mining_task option"
  queued :: "PoolTransaction list list"

definition BlockProducer_new :: BlockProducer where
  "BlockProducer_new = \<lparr>idle_backend = Some (), block_mining = None, queued = []\<rparr>"

definition start_mining :: "BlockProducer \<Rightarrow> BlockProducer" where
  "start_mining p =
     (case (queued p, idle_backend p) of
        (transactions # rest, Some _) \<Rightarrow>
          p\<lparr>idle_backend := None, queued := rest, block_mining := Some (Running transactions)\<rparr>
      | _ \<Rightarrow> p)"

text \<open>\<open>seen\<close>: the runtime reports the end of the task to this poll.\<close>

definition producer_poll_next ::
    "bool \<Rightarrow> BlockProducer \<Rightarrow> (MinedBlockOutcome poll \<times> BlockProducer) rust" where
  "producer_poll_next seen p =
     (let p = start_mining p
      in case block_mining p of
           None \<Rightarrow> Ret (PollPending, p)
         | Some mining \<Rightarrow>
             if \<not> seen then Ret (PollPending, p)
             else (case mining of
                     Running _ \<Rightarrow> Ret (PollPending, p)
                   | Finished outcome \<Rightarrow>
                       Ret (PollReady outcome, p\<lparr>idle_backend := Some (), block_mining := None\<rparr>)
                   | Failed err \<Rightarrow> Panic (''miner task failed: '' @ err)))"

subsection \<open>Requests that mine\<close>

text \<open>
  Mining on request, without interference of other requests. The clock and the random value
  of a block are given by \<open>env\<close>; the result is \<open>None\<close> where the fuel for collecting the
  transactions does not suffice or mining does not return.
\<close>

type_synonym ('db, 'tr, 'st, 'd) node = "PoolInner \<times> ('db, 'tr, 'st, 'd) Backend"

definition mine_one ::
    "('v, 'db, 'tr, 'st, 'n, 'd) node_lib \<Rightarrow> nat \<Rightarrow> (TxHash list \<Rightarrow> TxHash list) \<Rightarrow> u64 \<times> B256 \<Rightarrow>
     ('db, 'tr, 'st, 'd) node \<Rightarrow> ('db, 'tr, 'st, 'd) node rust option" where
  "mine_one lib fuel it env nd =
     (case iter_collect fuel (inner_ready_transactions (fst nd)) of
        None \<Rightarrow> None
      | Some transactions \<Rightarrow>
          (case do_mine_block lib (fst env) (snd env) transactions (snd nd) of
             None \<Rightarrow> None
           | Some mined \<Rightarrow>
               Some (rbind mined (\<lambda>(outcome, b).
                 rbind (on_mined_block it outcome (fst nd)) (\<lambda>(_, pool). Ret (pool, b))))))"

primrec mine_blocks ::
    "('v, 'db, 'tr, 'st, 'n, 'd) node_lib \<Rightarrow> nat \<Rightarrow> (TxHash list \<Rightarrow> TxHash list) \<Rightarrow> (nat \<Rightarrow> u64 \<times> B256) \<Rightarrow>
     u64 option \<Rightarrow> nat \<Rightarrow> ('db, 'tr, 'st, 'd) node \<Rightarrow> ('db, 'tr, 'st, 'd) node rust option" where
  "mine_blocks lib fuel it env interval 0 nd = Some (Ret nd)"
| "mine_blocks lib fuel it env interval (Suc n) nd =
     (let b = (case interval of
                 Some i \<Rightarrow> (snd nd)\<lparr>bk_time := snd (increase_time i (bk_time (snd nd)))\<rparr>
               | None \<Rightarrow> snd nd)
      in case mine_one lib fuel it (env n) (fst nd, b) of
           None \<Rightarrow> None
         | Some (Panic e) \<Rightarrow> Some (Panic e)
         | Some (Ret nd') \<Rightarrow> mine_blocks lib fuel it env interval n nd')"

definition block_count :: "u256 option \<Rightarrow> u256" where
  "block_count num_blocks = (case num_blocks of Some n \<Rightarrow> n | None \<Rightarrow> 1)"

definition anvil_mine ::
    "('v, 'db, 'tr, 'st, 'n, 'd) node_lib \<Rightarrow> nat \<Rightarrow> (TxHash list \<Rightarrow> TxHash list) \<Rightarrow> (nat \<Rightarrow> u64 \<times> B256) \<Rightarrow>
     u256 option \<Rightarrow> u256 option \<Rightarrow> ('db, 'tr, 'st, 'd) node \<Rightarrow> ('db, 'tr, 'st, 'd) node rust option" where
  "anvil_mine lib fuel it env num_blocks interval nd =
     (case (case interval of
              None \<Rightarrow> Ret None
            | Some i \<Rightarrow> rbind (u256_to_u64 i) (\<lambda>secs. Ret (Some secs))) of
        Panic e \<Rightarrow> Some (Panic e)
      | Ret interval \<Rightarrow>
          let count = block_count num_blocks
          in if count = 0 then Some (Ret nd)
             else (case u256_to_u64 count of
                     Panic e \<Rightarrow> Some (Panic e)
                   | Ret n \<Rightarrow> mine_blocks lib fuel it env interval (unat n) nd))"

datatype MineOptions = MineTimestamp "u64 option" | MineOptions "u64 option" "u64 option"

fun mine_options :: "MineOptions option \<Rightarrow> u64 option \<times> u64" where
  "mine_options None = (None, 1)"
| "mine_options (Some (MineTimestamp timestamp)) = (timestamp, 1)"
| "mine_options (Some (MineOptions timestamp num_blocks)) =
     (timestamp, case num_blocks of Some n \<Rightarrow> n | None \<Rightarrow> 1)"

definition do_evm_mine ::
    "('v, 'db, 'tr, 'st, 'n, 'd) node_lib \<Rightarrow> nat \<Rightarrow> (TxHash list \<Rightarrow> TxHash list) \<Rightarrow> (nat \<Rightarrow> u64 \<times> B256) \<Rightarrow>
     MineOptions option \<Rightarrow> ('db, 'tr, 'st, 'd) node \<Rightarrow>
     ((TimestampError + u64) \<times> ('db, 'tr, 'st, 'd) node) rust option" where
  "do_evm_mine lib fuel it env opts nd =
     (let (timestamp, blocks_to_mine) = mine_options opts;
          (res, time) = (case timestamp of
             Some t \<Rightarrow> set_next_block_timestamp t (bk_time (snd nd))
           | None \<Rightarrow> (Inr (), bk_time (snd nd)));
          nd = (fst nd, (snd nd)\<lparr>bk_time := time\<rparr>)
      in case res of
           Inl e \<Rightarrow> Some (Ret (Inl e, nd))
         | Inr _ \<Rightarrow>
             map_option (\<lambda>r. rbind r (\<lambda>nd. Ret (Inr blocks_to_mine, nd)))
               (mine_blocks lib fuel it env None (unat blocks_to_mine) nd))"

subsection \<open>Requests that change the mode\<close>

text \<open>\<open>tx\<close> is the sending end of the new channel, which starts empty.\<close>

definition anvil_get_auto_mine :: "Miner \<Rightarrow> bool" where
  "anvil_get_auto_mine miner = is_auto_mine miner"

definition anvil_get_interval_mining :: "Miner \<Rightarrow> u64 option" where
  "anvil_get_interval_mining miner = get_interval miner"

definition anvil_set_auto_mine :: "'l \<Rightarrow> bool \<Rightarrow> 'l Pool \<Rightarrow> Miner \<Rightarrow> 'l Pool \<times> Miner" where
  "anvil_set_auto_mine tx enable_automine pool miner =
     (if is_auto_mine miner
      then if enable_automine then (pool, miner) else (pool, set_mining_mode NoMining miner)
      else if enable_automine
      then (add_ready_listener tx pool, set_mining_mode (mode_instant 1000 []) miner)
      else (pool, miner))"

definition anvil_set_interval_mining ::
    "('v, 'db, 'tr, 'st, 'n, 'd) node_lib \<Rightarrow> u64 \<Rightarrow> Miner \<Rightarrow> ('db, 'tr, 'st, 'd) Backend \<Rightarrow>
     (Miner \<times> ('db, 'tr, 'st, 'd) Backend) option" where
  "anvil_set_interval_mining lib secs miner b =
     (if secs = 0 then Some (set_mining_mode NoMining miner, b)
      else map_option
             (\<lambda>states. (set_mining_mode (mode_interval secs) miner, b\<lparr>bk_states := states\<rparr>))
             (update_interval_mine_block_time (nl_states lib) (unat secs) (bk_states b)))"

subsection \<open>The service as a system\<close>

text \<open>
  The loop of the service first takes finished blocks from the producer until there is none
  (\<open>Draining\<close>), then asks the miner for a batch (\<open>Selecting\<close>), and either queues the batch
  and starts again or goes to sleep (\<open>Parked\<close>). Between its steps the mining task may end,
  transactions may be submitted or removed, blocks may be mined on request and the mode may
  change. Submitted transactions fit their types (\<open>tx_fits\<close>), and their hash determines sender
  and nonce (\<open>origin\<close>). A submission notifies the miner of the transactions that became
  ready; a full channel drops notifications.
\<close>

datatype service_pc = Draining | Selecting | Parked

record ('db, 'tr, 'st, 'd) NodeService =
  sv_pool :: PoolInner
  sv_miner :: Miner
  sv_producer :: BlockProducer
  sv_backend :: "('db, 'tr, 'st, 'd) Backend"
  sv_pc :: service_pc

fun notified_hashes :: "PoolError + AddedTransaction \<Rightarrow> TxHash list" where
  "notified_hashes (Inr (AddedReadyTx ready)) = ar_hash ready # ar_promoted ready"
| "notified_hashes _ = []"

fun deliver :: "TxHash list \<Rightarrow> MiningMode \<Rightarrow> MiningMode" where
  "deliver hs (Auto m) = Auto (m\<lparr>rx := rx m @ hs\<rparr>)"
| "deliver hs (Mixed m f) = Mixed (m\<lparr>rx := rx m @ hs\<rparr>) f"
| "deliver hs m = m"

inductive service_step ::
    "(TxHash \<Rightarrow> address \<times> u64) \<Rightarrow> ('v, 'db, 'tr, 'st, 'n, 'd) node_lib \<Rightarrow>
     ('db, 'tr, 'st, 'd) NodeService \<Rightarrow> ('db, 'tr, 'st, 'd) NodeService \<Rightarrow> bool"
  for origin :: "TxHash \<Rightarrow> address \<times> u64" and lib :: "('v, 'db, 'tr, 'st, 'n, 'd) node_lib" where
  block_done: "sv_pc s = Draining \<Longrightarrow>
    producer_poll_next seen (sv_producer s) = Ret (PollReady outcome, producer) \<Longrightarrow>
    iteration_order it \<Longrightarrow> on_mined_block it outcome (sv_pool s) = Ret (pruned, pool) \<Longrightarrow>
    service_step origin lib s (s\<lparr>sv_producer := producer, sv_pool := pool\<rparr>)"
| no_block: "sv_pc s = Draining \<Longrightarrow>
    producer_poll_next seen (sv_producer s) = Ret (PollPending, producer) \<Longrightarrow>
    service_step origin lib s (s\<lparr>sv_producer := producer, sv_pc := Selecting\<rparr>)"
| batch: "sv_pc s = Selecting \<Longrightarrow>
    miner_poll fuel tick (sv_pool s) (sv_miner s) = Some (PollReady transactions, miner) \<Longrightarrow>
    service_step origin lib s
      (s\<lparr>sv_miner := miner,
         sv_producer := (sv_producer s)\<lparr>queued := queued (sv_producer s) @ [transactions]\<rparr>,
         sv_pc := Draining\<rparr>)"
| no_batch: "sv_pc s = Selecting \<Longrightarrow>
    miner_poll fuel tick (sv_pool s) (sv_miner s) = Some (PollPending, miner) \<Longrightarrow>
    service_step origin lib s (s\<lparr>sv_miner := miner, sv_pc := Parked\<rparr>)"
| wake: "sv_pc s = Parked \<Longrightarrow> service_step origin lib s (s\<lparr>sv_pc := Draining\<rparr>)"
| task_ends: "block_mining (sv_producer s) = Some (Running transactions) \<Longrightarrow>
    do_mine_block lib now random transactions (sv_backend s) = Some (Ret (outcome, b)) \<Longrightarrow>
    service_step origin lib s
      (s\<lparr>sv_backend := b, sv_producer := (sv_producer s)\<lparr>block_mining := Some (Finished outcome)\<rparr>\<rparr>)"
| task_fails: "block_mining (sv_producer s) = Some (Running transactions) \<Longrightarrow>
    do_mine_block lib now random transactions (sv_backend s) = Some (Panic e) \<Longrightarrow>
    service_step origin lib s
      (s\<lparr>sv_producer := (sv_producer s)\<lparr>block_mining := Some (Failed e)\<rparr>\<rparr>)"
| submitted: "iteration_order it \<Longrightarrow> origin (pt_hash pt) = (pt_sender pt, pt_nonce pt) \<Longrightarrow>
    tx_fits (api_transaction order k pt) \<Longrightarrow>
    inner_add_transaction it time (api_transaction order k pt) (sv_pool s) = Ret (res, pool) \<Longrightarrow>
    subseq delivered (notified_hashes res) \<Longrightarrow>
    service_step origin lib s
      (s\<lparr>sv_pool := pool, sv_miner := (sv_miner s)\<lparr>mode := deliver delivered (mode (sv_miner s))\<rparr>\<rparr>)"
| removed: "inner_remove_invalid hs (sv_pool s) = (txs, pool) \<Longrightarrow>
    service_step origin lib s (s\<lparr>sv_pool := pool\<rparr>)"
| dropped: "drop_transaction h (sv_pool s) = (found, pool) \<Longrightarrow>
    service_step origin lib s (s\<lparr>sv_pool := pool\<rparr>)"
| removed_address: "remove_transactions_by_address fuel it sender (sv_pool s) = Some (txs, pool) \<Longrightarrow>
    service_step origin lib s (s\<lparr>sv_pool := pool\<rparr>)"
| cleared: "service_step origin lib s (s\<lparr>sv_pool := inner_clear (sv_pool s)\<rparr>)"
| mined_on_request: "iter_collect fuel (inner_ready_transactions (sv_pool s)) = Some transactions \<Longrightarrow>
    do_mine_block lib now random transactions (sv_backend s) = Some (Ret (outcome, b)) \<Longrightarrow>
    service_step origin lib s (s\<lparr>sv_backend := b\<rparr>)"
| pruned_on_request: "iteration_order it \<Longrightarrow> on_mined_block it outcome (sv_pool s) = Ret (pruned, pool) \<Longrightarrow>
    service_step origin lib s (s\<lparr>sv_pool := pool\<rparr>)"
| mode_changed: "service_step origin lib s (s\<lparr>sv_miner := set_mining_mode m (sv_miner s)\<rparr>)"

subsection \<open>Mining keeps the backend ready\<close>

definition node_ready :: "('v, 'db, 'tr, 'st, 'n, 'd) node_lib \<Rightarrow> ('db, 'tr, 'st, 'd) Backend \<Rightarrow> bool" where
  "node_ready lib b =
     (backend_ok lib b \<and> unat (be_gas_limit (bk_block_env b)) < 2 ^ 64 \<and>
      (is_state_history_supported b \<longrightarrow> states_inv (bk_states b)))"

text \<open>Headers with different numbers have different hashes.\<close>

definition hash_numbers :: "('v, 'db, 'tr, 'st, 'n, 'd) node_lib \<Rightarrow> bool" where
  "hash_numbers lib = (\<forall>x y. nl_hash_slow lib x = nl_hash_slow lib y \<longrightarrow> ph_number x = ph_number y)"

lemma mining_returns_ready:
  assumes "node_ready lib b" "best_number (bk_storage b) \<noteq> - 1"
    and "\<forall>tx \<in> set txs. tx_fits tx" "evm_no_other (nl_exec lib)"
  obtains outcome b' where "do_mine_block lib now random txs b = Some (Ret (outcome, b'))"
  using do_mine_block_ret [of lib b txs now random] assms by (auto simp: node_ready_def)

lemma mined_states:
  assumes "do_mine_block lib now random txs b = Some (Ret (outcome, b'))"
    and "is_state_history_supported b \<longrightarrow> states_inv (bk_states b)"
  shows "is_state_history_supported b' \<longrightarrow> states_inv (bk_states b')"
    "be_gas_limit (bk_block_env b') = be_gas_limit (bk_block_env b)"
proof -
  from assms(1) obtain states' where
    st: "(if is_state_history_supported b
      then states_insert (nl_states lib) (best_hash (bk_storage b)) (db_current_state (nl_db lib) (bk_db b)) (bk_states b)
      else Some (bk_states b)) = Some states'"
    unfolding do_mine_block_def Let_def case_prod_unfold by (fastforce split: option.splits)
  from assms(1) have b': "bk_states b' = states'" "bk_prune_enabled b' = bk_prune_enabled b"
    "bk_max_memory_history b' = bk_max_memory_history b"
    "be_gas_limit (bk_block_env b') = be_gas_limit (bk_block_env b)"
    unfolding do_mine_block_def Let_def case_prod_unfold st option.case option.inject rbind_Ret_iff
    by (auto simp: mining_env_def Let_def)
  then show "be_gas_limit (bk_block_env b') = be_gas_limit (bk_block_env b)" by simp
  show "is_state_history_supported b' \<longrightarrow> states_inv (bk_states b')"
  proof (cases "is_state_history_supported b")
    case True
    with st assms(2) b' states_insert_total [of "bk_states b" "nl_states lib" "best_hash (bk_storage b)"
        "db_current_state (nl_db lib) (bk_db b)"]
    show ?thesis by auto
  next
    case False
    then show ?thesis using b' by (simp add: is_state_history_supported_def)
  qed
qed

lemma mined_fresh:
  assumes "backend_ok lib b" "best_number (bk_storage b) \<noteq> - 1" "hash_numbers lib"
    and "do_mine_block lib now random txs b = Some (Ret (outcome, b'))"
  shows "headers (bk_storage b) (best_hash (bk_storage b')) = None"
proof (rule ccontr)
  assume "headers (bk_storage b) (best_hash (bk_storage b')) \<noteq> None"
  then obtain n x where x: "headers (bk_storage b) (best_hash (bk_storage b')) = Some (n, x)" by auto
  obtain y where y: "best_hash (bk_storage b') = nl_hash_slow lib y" "ph_number y = best_number (bk_storage b) + 1"
    by (rule mine_storage [OF assms(1,2,4)])
  from assms(1) have ok: "chain_ok (nl_hash_slow lib) (best_number (bk_storage b)) (best_hash (bk_storage b))
      (hm_get (hashes (bk_storage b))) (headers (bk_storage b))"
    by (simp add: backend_ok_def storage_chain_ok_def)
  from ok x have H: "hm_get (hashes (bk_storage b)) n = Some (best_hash (bk_storage b'))"
    unfolding chain_ok_def by blast
  with ok obtain hr where "n \<le> best_number (bk_storage b)"
    "headers (bk_storage b) (best_hash (bk_storage b')) = Some (n, hr)" "ph_number hr = n"
    "nl_hash_slow lib hr = best_hash (bk_storage b')"
    unfolding chain_ok_def by blast
  with x have "n \<le> best_number (bk_storage b)" "ph_number x = n" "nl_hash_slow lib x = best_hash (bk_storage b')"
    by simp_all
  with y assms(3) have "best_number (bk_storage b) + 1 \<le> best_number (bk_storage b)"
    by (metis hash_numbers_def)
  with word_plus_one_cases(2) [OF assms(2) order_refl] show False by simp
qed

lemma mined_ready:
  assumes "node_ready lib b" "best_number (bk_storage b) \<noteq> - 1" "hash_numbers lib"
    and "do_mine_block lib now random txs b = Some (Ret (outcome, b'))"
  shows "node_ready lib b'" "best_number (bk_storage b') = best_number (bk_storage b) + 1"
proof -
  have ok: "backend_ok lib b" using assms(1) by (simp add: node_ready_def)
  have "backend_ok lib b'"
    by (rule mine_backend_ok [OF ok assms(2,4) mined_fresh [OF ok assms(2-4)]])
  with assms(1) mined_states [OF assms(4)] show "node_ready lib b'" by (simp add: node_ready_def)
  show "best_number (bk_storage b') = best_number (bk_storage b) + 1"
    by (rule mine_storage [OF ok assms(2,4)])
qed

lemma mined_saturated:
  assumes "do_mine_block lib now random txs b = Some (Ret (outcome, b'))" "best_number (bk_storage b) = - 1"
  shows "best_number (bk_storage b') = - 1"
  using assms(1)
proof (cases rule: do_mine_block_cases)
  case (1 executed db)
  have "saturating_add (- 1) 1 = (- 1 :: u64)" using le_saturating_add [of "- 1 :: u64" 1] by (simp add: word_order.extremum_unique)
  with 1 assms(2) show ?thesis by (simp add: store_block_view)
qed

subsection \<open>What the miner offers\<close>

lemma drain_rx_simps [simp]:
  "max_transactions (drain_rx m hs) = max_transactions m" "rx (drain_rx m hs) = []"
  "has_pending_txs (drain_rx m hs) = (if hs = [] then has_pending_txs m else Some True)"
  by (induction m hs rule: drain_rx.induct) auto

text \<open>A batch that stems from the pool: its transactions are ready there and fit.\<close>

definition from_pool :: "PoolInner \<Rightarrow> PoolTransaction list \<Rightarrow> bool" where
  "from_pool p txs = (\<forall>tx \<in> set txs. tx_fits tx \<and> ready_contains (ready_transactions p) (pool_tx_hash tx))"

lemma from_poolI: "pool_tx_hash ` set txs \<subseteq> in_ready p \<Longrightarrow> \<forall>tx \<in> set txs. tx_fits tx \<Longrightarrow> from_pool p txs"
  by (auto simp: from_pool_def ready_contains_iff)

lemma ready_miner_from_pool:
  assumes "pool_signed tx_fits origin p" "ready_miner_poll p m = (PollReady txs, m')"
  shows "from_pool p txs" "txs \<noteq> []" "length txs \<le> max_transactions m"
proof -
  have "length (iter_take n s) \<le> n" for n s
    by (induction n arbitrary: s) (auto split: option.splits)
  with assms(2) have "txs = iter_take (max_transactions m) (inner_ready_transactions p)" "txs \<noteq> []"
    "length txs \<le> max_transactions m"
    by (auto simp: ready_miner_poll_def Let_def split: if_splits)
  with take_ready [OF assms(1), of "max_transactions m"]
  show "from_pool p txs" "txs \<noteq> []" "length txs \<le> max_transactions m"
    by (simp_all add: from_poolI)
qed

lemma set_add_unique: "set (add_unique xs ys) \<subseteq> set xs \<union> set ys"
  by (induction xs ys rule: add_unique.induct) auto

lemma from_pool_combine:
  "combine_polls a f = PollReady txs \<Longrightarrow> (\<And>xs. a = PollReady xs \<Longrightarrow> from_pool p xs) \<Longrightarrow>
   (\<And>xs. f = PollReady xs \<Longrightarrow> from_pool p xs) \<Longrightarrow> from_pool p txs"
  using set_add_unique by (cases a; cases f) (fastforce simp: from_pool_def)+

lemma fixed_miner_from_pool:
  assumes "pool_signed tx_fits origin p" "fixed_miner_poll fuel tick p = Some (PollReady txs)"
  shows "from_pool p txs"
proof -
  from assms(2) have c: "iter_collect fuel (inner_ready_transactions p) = Some txs"
    by (auto simp: fixed_miner_poll_def split: if_splits)
  obtain fuel' txs' where r: "iter_collect fuel' (inner_ready_transactions p) = Some txs'"
    "pool_tx_hash ` set txs' \<subseteq> in_ready p" "\<forall>tx \<in> set txs'. tx_fits tx"
    by (rule collect_returns [OF assms(1)])
  from iter_collect_more [OF c, of "max fuel fuel'"] iter_collect_more [OF r(1), of "max fuel fuel'"] r(2,3)
  show ?thesis by (simp add: from_poolI)
qed

lemma fixed_miner_returns:
  assumes "pool_signed tx_fits origin p"
  obtains fuel res where "fixed_miner_poll fuel tick p = Some res"
proof (cases tick)
  case True
  with that show ?thesis by (auto simp: fixed_miner_poll_def intro: collect_returns [OF assms])
next
  case False
  with that show ?thesis by (simp add: fixed_miner_poll_def)
qed

lemma mode_poll_from_pool:
  assumes "pool_signed tx_fits origin p" "mode_poll fuel tick p m = Some (PollReady txs, m')"
  shows "from_pool p txs"
proof (cases m)
  case NoMining
  with assms(2) show ?thesis by simp
next
  case (Auto a)
  with assms(2) obtain a' where "ready_miner_poll p a = (PollReady txs, a')"
    by (auto simp: Let_def split: prod.splits)
  from ready_miner_from_pool(1) [OF assms(1) this] show ?thesis .
next
  case (FixedBlockTime f)
  with assms(2) have "fixed_miner_poll fuel tick p = Some (PollReady txs)" by auto
  from fixed_miner_from_pool [OF assms(1) this] show ?thesis .
next
  case (Mixed a f)
  obtain pa a' where a: "ready_miner_poll p a = (pa, a')" by fastforce
  with assms(2) Mixed obtain pf where f: "fixed_miner_poll fuel tick p = Some pf" "combine_polls pa pf = PollReady txs"
    by auto
  show ?thesis
    by (rule from_pool_combine [OF f(2)])
       (use ready_miner_from_pool(1) [OF assms(1)] fixed_miner_from_pool [OF assms(1)] a f(1) in simp_all)
qed

lemma mode_poll_returns:
  assumes "pool_signed tx_fits origin p"
  obtains fuel res where "mode_poll fuel tick p m = Some res"
proof -
  obtain fuel r where "fixed_miner_poll fuel tick p = Some r" by (rule fixed_miner_returns [OF assms])
  then have "\<exists>res. mode_poll fuel tick p m = Some res"
    by (cases m) (simp_all add: case_prod_unfold Let_def)
  with that show ?thesis by blast
qed

definition forced :: "Miner \<Rightarrow> PoolTransaction list" where
  "forced m = (case force_transactions m of Some txs \<Rightarrow> txs | None \<Rightarrow> [])"

lemma miner_poll_cases:
  assumes "miner_poll fuel tick p m = Some (res, m')"
  obtains mode' where "mode_poll fuel tick p (mode m) = Some (PollPending, mode')" "res = PollPending"
      "m' = m\<lparr>mode := mode'\<rparr>"
    | txs mode' where "mode_poll fuel tick p (mode m) = Some (PollReady txs, mode')" "res = PollReady (forced m @ txs)"
      "m' = m\<lparr>mode := mode', force_transactions := None\<rparr>"
proof -
  from assms obtain r mode' where r: "mode_poll fuel tick p (mode m) = Some (r, mode')"
    by (auto simp: miner_poll_def)
  with assms that show thesis
    by (cases r; cases "force_transactions m") (auto simp: miner_poll_def forced_def)
qed

subsection \<open>The invariant of the service\<close>

definition batch_fits :: "PoolTransaction list \<Rightarrow> bool" where
  "batch_fits txs = (\<forall>tx \<in> set txs. tx_fits tx)"

definition producer_inv :: "BlockProducer \<Rightarrow> bool" where
  "producer_inv p =
     ((idle_backend p = None \<longleftrightarrow> block_mining p \<noteq> None) \<and> (\<forall>txs \<in> set (queued p). batch_fits txs) \<and>
      (\<forall>txs. block_mining p = Some (Running txs) \<longrightarrow> batch_fits txs))"

text \<open>The queue is served: a batch waits only while a block is being mined.\<close>

definition served :: "BlockProducer \<Rightarrow> bool" where
  "served p = (queued p = [] \<or> block_mining p \<noteq> None)"

definition service_lib :: "('v, 'db, 'tr, 'st, 'n, 'd) node_lib \<Rightarrow> bool" where
  "service_lib lib = (evm_no_other (nl_exec lib) \<and> hash_numbers lib)"

definition chain_full :: "('db, 'tr, 'st, 'd) NodeService \<Rightarrow> bool" where
  "chain_full s = (best_number (bk_storage (sv_backend s)) = - 1)"

definition service_init ::
    "('v, 'db, 'tr, 'st, 'n, 'd) node_lib \<Rightarrow> ('db, 'tr, 'st, 'd) NodeService \<Rightarrow> bool" where
  "service_init lib s =
     (service_lib lib \<and> node_ready lib (sv_backend s) \<and> batch_fits (forced (sv_miner s)) \<and>
      sv_pool s = pool_default \<and> sv_producer s = BlockProducer_new \<and> sv_pc s = Draining)"

definition service_inv ::
    "(TxHash \<Rightarrow> address \<times> u64) \<Rightarrow> ('v, 'db, 'tr, 'st, 'n, 'd) node_lib \<Rightarrow>
     ('db, 'tr, 'st, 'd) NodeService \<Rightarrow> bool" where
  "service_inv origin lib s =
     (service_lib lib \<and> pool_inv (sv_pool s) \<and> pool_signed tx_fits origin (sv_pool s) \<and>
      producer_inv (sv_producer s) \<and> batch_fits (forced (sv_miner s)) \<and>
      (sv_pc s \<noteq> Draining \<longrightarrow> served (sv_producer s)) \<and>
      (chain_full s \<or>
         node_ready lib (sv_backend s) \<and> (\<forall>e. block_mining (sv_producer s) \<noteq> Some (Failed e))))"

lemma service_invD:
  assumes "service_inv origin lib s"
  shows "service_lib lib" "pool_inv (sv_pool s)" "pool_signed tx_fits origin (sv_pool s)"
    "producer_inv (sv_producer s)" "batch_fits (forced (sv_miner s))"
    "sv_pc s \<noteq> Draining \<Longrightarrow> served (sv_producer s)"
    "\<not> chain_full s \<Longrightarrow> node_ready lib (sv_backend s)"
    "\<not> chain_full s \<Longrightarrow> block_mining (sv_producer s) \<noteq> Some (Failed e)"
  using assms by (auto simp: service_inv_def)

lemma service_inv_pool:
  "service_inv origin lib s \<Longrightarrow> pool_inv pool \<Longrightarrow> pool_signed tx_fits origin pool \<Longrightarrow>
   service_inv origin lib (s\<lparr>sv_pool := pool\<rparr>)"
  by (simp add: service_inv_def chain_full_def)

lemma start_mining_inv:
  assumes "producer_inv p"
  shows "producer_inv (start_mining p)" "served (start_mining p)"
    "block_mining (start_mining p) = Some (Failed e) \<Longrightarrow> block_mining p = Some (Failed e)"
  using assms by (auto simp: producer_inv_def served_def start_mining_def split: list.splits option.splits)

lemma producer_poll_inv:
  assumes "producer_inv p" "producer_poll_next seen p = Ret (res, p')"
  shows "producer_inv p'" "res = PollPending \<Longrightarrow> served p'"
    "block_mining p' = Some (Failed e) \<Longrightarrow> block_mining p = Some (Failed e)"
proof -
  have "p' = start_mining p \<or>
      res \<noteq> PollPending \<and> p' = (start_mining p)\<lparr>idle_backend := Some (), block_mining := None\<rparr>"
    using assms(2) by (auto simp: producer_poll_next_def Let_def split: option.splits if_splits mining_task.splits)
  moreover have "producer_inv ((start_mining p)\<lparr>idle_backend := Some (), block_mining := None\<rparr>)"
    using start_mining_inv(1) [OF assms(1)] by (simp add: producer_inv_def)
  ultimately show "producer_inv p'" "res = PollPending \<Longrightarrow> served p'"
    "block_mining p' = Some (Failed e) \<Longrightarrow> block_mining p = Some (Failed e)"
    using start_mining_inv [OF assms(1)] by auto
qed

lemma producer_poll_returns:
  assumes "\<And>e. block_mining p \<noteq> Some (Failed e)"
  obtains res p' where "producer_poll_next seen p = Ret (res, p')"
proof -
  have "block_mining (start_mining p) \<noteq> Some (Failed e)" for e
    using assms by (auto simp: start_mining_def split: list.splits option.splits)
  then have "\<exists>res p'. producer_poll_next seen p = Ret (res, p')"
    by (auto simp: producer_poll_next_def Let_def split: option.splits mining_task.splits)
  with that show thesis by blast
qed

lemma miner_poll_fits:
  assumes "pool_signed tx_fits origin p" "batch_fits (forced m)" "miner_poll fuel tick p m = Some (res, m')"
  shows "batch_fits (forced m')" "res = PollReady txs \<Longrightarrow> batch_fits txs"
proof -
  show "batch_fits (forced m')"
    by (rule miner_poll_cases [OF assms(3)]) (use assms(2) in \<open>simp_all add: forced_def batch_fits_def\<close>)
  show "batch_fits txs" if "res = PollReady txs"
  proof (rule miner_poll_cases [OF assms(3)])
    fix new mode'
    assume "mode_poll fuel tick p (mode m) = Some (PollReady new, mode')" "res = PollReady (forced m @ new)"
    with mode_poll_from_pool [OF assms(1)] that assms(2) show ?thesis
      by (auto simp: batch_fits_def from_pool_def)
  qed (use that in simp)
qed

text \<open>Mining, by the task or on request.\<close>

lemma service_inv_mined:
  assumes "service_inv origin lib s" "do_mine_block lib now random txs (sv_backend s) = Some (Ret (outcome, b))"
  shows "service_inv origin lib (s\<lparr>sv_backend := b\<rparr>)"
proof (cases "chain_full s")
  case True
  with mined_saturated [OF assms(2)] assms(1) show ?thesis by (simp add: service_inv_def chain_full_def)
next
  case False
  then have "node_ready lib b"
    using mined_ready(1) [OF service_invD(7) [OF assms(1) False] _ _ assms(2)] service_invD(1) [OF assms(1)]
    by (simp add: chain_full_def service_lib_def)
  with assms(1) False show ?thesis by (simp add: service_inv_def chain_full_def)
qed

lemma task_not_failing:
  assumes "service_inv origin lib s" "\<not> chain_full s" "block_mining (sv_producer s) = Some (Running txs)"
  obtains outcome b where "do_mine_block lib now random txs (sv_backend s) = Some (Ret (outcome, b))"
proof (rule mining_returns_ready [OF service_invD(7) [OF assms(1,2)]])
  show "best_number (bk_storage (sv_backend s)) \<noteq> - 1" using assms(2) by (simp add: chain_full_def)
  show "\<forall>tx \<in> set txs. tx_fits tx"
    using service_invD(4) [OF assms(1)] assms(3) by (simp add: producer_inv_def batch_fits_def)
  show "evm_no_other (nl_exec lib)" using service_invD(1) [OF assms(1)] by (simp add: service_lib_def)
qed (rule that)

lemma service_step_inv: "service_step origin lib s s' \<Longrightarrow> service_inv origin lib s \<Longrightarrow> service_inv origin lib s'"
proof (induction rule: service_step.induct)
  case (block_done s seen outcome producer it pruned pool)
  note D = service_invD [OF block_done(5)]
  note P = producer_poll_inv [OF D(4) block_done(2)]
  have "pool_inv pool" using pool_step_inv [OF pool_step.mined [OF block_done(3,4)] D(2)] .
  moreover have "pool_signed tx_fits origin pool" using on_mined_block_signed [OF block_done(3) D(3) block_done(4)] .
  ultimately show ?case using D P block_done(1) by (auto simp: service_inv_def chain_full_def)
next
  case (no_block s seen producer)
  note D = service_invD [OF no_block(3)]
  from producer_poll_inv [OF D(4) no_block(2)] D show ?case by (auto simp: service_inv_def chain_full_def)
next
  case (batch s fuel tick transactions miner)
  note D = service_invD [OF batch(3)]
  have "producer_inv ((sv_producer s)\<lparr>queued := queued (sv_producer s) @ [transactions]\<rparr>)"
    using D(4) miner_poll_fits(2) [OF D(3,5) batch(2) refl] by (simp add: producer_inv_def ball_Un)
  with miner_poll_fits(1) [OF D(3,5) batch(2)] D show ?case by (auto simp: service_inv_def chain_full_def)
next
  case (no_batch s fuel tick miner)
  note D = service_invD [OF no_batch(3)]
  from miner_poll_fits(1) [OF D(3,5) no_batch(2)] D no_batch(1) show ?case
    by (auto simp: service_inv_def chain_full_def)
next
  case (wake s)
  then show ?case by (simp add: service_inv_def chain_full_def)
next
  case (task_ends s transactions now random outcome b)
  from service_inv_mined [OF task_ends(3,2)] task_ends(1) show ?case
    by (auto simp: service_inv_def chain_full_def producer_inv_def served_def)
next
  case (task_fails s transactions now random e)
  have "chain_full s"
  proof (rule ccontr)
    assume "\<not> chain_full s"
    from task_not_failing [OF task_fails(3) this task_fails(1)] task_fails(2) show False
      by (metis option.inject rust.distinct(1))
  qed
  with task_fails(1,3) show ?case by (auto simp: service_inv_def chain_full_def producer_inv_def served_def)
next
  case (submitted it pt order k time s res pool delivered)
  note D = service_invD [OF submitted(6)]
  have "pool_inv pool" using pool_step_inv [OF pool_step.submit [OF submitted(1,4)] D(2)] .
  moreover have "api_shaped tx_fits origin (api_transaction order k pt)"
    by (rule api_shaped_api) (fact submitted(2,3))+
  then have "pool_signed tx_fits origin pool"
    by (rule inner_add_transaction_signed [OF submitted(1) D(3) _ submitted(4)])
  ultimately show ?case using submitted(6) by (simp add: service_inv_def chain_full_def forced_def)
next
  case (removed hs s txs pool)
  note D = service_invD [OF removed(2)]
  show ?case
    by (rule service_inv_pool [OF removed(2) pool_step_inv [OF pool_step.remove_invalid [OF removed(1)] D(2)]
          inner_remove_invalid_signed [OF removed(1) D(3)]])
next
  case (dropped h s found pool)
  note D = service_invD [OF dropped(2)]
  show ?case
    by (rule service_inv_pool [OF dropped(2) pool_step_inv [OF pool_step.dropped [OF dropped(1)] D(2)]
          drop_transaction_signed [OF dropped(1) D(3)]])
next
  case (removed_address fuel it sender s txs pool)
  note D = service_invD [OF removed_address(2)]
  show ?case
    by (rule service_inv_pool [OF removed_address(2)
          pool_step_inv [OF pool_step.remove_address [OF removed_address(1)] D(2)]
          remove_transactions_by_address_signed [OF removed_address(1) D(3)]])
next
  case (cleared s)
  then show ?case by (intro service_inv_pool pool_inv_clear pool_signed_clear)
next
  case (mined_on_request fuel s transactions now random outcome b)
  from service_inv_mined [OF mined_on_request(3,2)] show ?case .
next
  case (pruned_on_request it outcome s pruned pool)
  note D = service_invD [OF pruned_on_request(3)]
  show ?case
    by (rule service_inv_pool [OF pruned_on_request(3)
          pool_step_inv [OF pool_step.mined [OF pruned_on_request(1,2)] D(2)]
          on_mined_block_signed [OF pruned_on_request(1) D(3) pruned_on_request(2)]])
next
  case (mode_changed s m)
  then show ?case by (simp add: service_inv_def chain_full_def set_mining_mode_def forced_def)
qed

lemma service_init_inv: "service_init lib s \<Longrightarrow> service_inv origin lib s"
  by (simp add: service_init_def service_inv_def pool_inv_default pool_signed_default producer_inv_def
      BlockProducer_new_def)

interpretation service: invariant_system "service_init lib" "service_step origin lib" "service_inv origin lib"
  for origin :: "TxHash \<Rightarrow> address \<times> u64" and lib :: "('v, 'db, 'tr, 'st, 'n, 'd) node_lib"
  by unfold_locales (auto intro: service_init_inv service_step_inv)

subsection \<open>Mining on request returns\<close>

definition node_fit ::
    "(TxHash \<Rightarrow> address \<times> u64) \<Rightarrow> ('v, 'db, 'tr, 'st, 'n, 'd) node_lib \<Rightarrow> ('db, 'tr, 'st, 'd) node \<Rightarrow> bool" where
  "node_fit origin lib nd =
     (pool_inv (fst nd) \<and> pool_signed tx_fits origin (fst nd) \<and> node_ready lib (snd nd))"

abbreviation height :: "('db, 'tr, 'st, 'd) node \<Rightarrow> u64" where
  "height nd \<equiv> best_number (bk_storage (snd nd))"

abbreviation hash_at :: "('db, 'tr, 'st, 'd) node \<Rightarrow> u64 \<Rightarrow> B256 option" where
  "hash_at nd \<equiv> hm_get (hashes (bk_storage (snd nd)))"

lemma mine_one_returns:
  assumes "service_lib lib" "node_fit origin lib nd" "height nd \<noteq> - 1" "iteration_order it"
  obtains fuel nd' where "\<forall>fuel' \<ge> fuel. mine_one lib fuel' it env nd = Some (Ret nd')"
    "node_fit origin lib nd'" "height nd' = height nd + 1" "\<forall>n \<le> height nd. hash_at nd' n = hash_at nd n"
proof -
  have S: "pool_inv (fst nd)" "pool_signed tx_fits origin (fst nd)" "node_ready lib (snd nd)"
    using assms(2) by (simp_all add: node_fit_def)
  have L: "evm_no_other (nl_exec lib)" "hash_numbers lib" using assms(1) by (simp_all add: service_lib_def)
  obtain fuel txs where c: "iter_collect fuel (inner_ready_transactions (fst nd)) = Some txs" "\<forall>tx \<in> set txs. tx_fits tx"
    by (rule collect_returns [OF S(2)])
  obtain outcome b where m: "do_mine_block lib (fst env) (snd env) txs (snd nd) = Some (Ret (outcome, b))"
    by (rule mining_returns_ready [OF S(3) assms(3) c(2) L(1)])
  obtain pruned pool where o: "on_mined_block it outcome (fst nd) = Ret (pruned, pool)" "pool_inv pool"
    by (rule on_mined_block_spec [OF S(1) assms(4)])
  note M = mined_ready [OF S(3) assms(3) L(2) m]
  have ok: "backend_ok lib (snd nd)" using S(3) by (simp add: node_ready_def)
  have "hm_get (hashes (bk_storage b)) n = hash_at nd n" if "n \<le> height nd" for n
  proof -
    have "n \<noteq> height nd + 1" using word_plus_one_cases(2) [OF assms(3) that] by simp
    then show ?thesis by - (rule mine_storage [OF ok assms(3) m], simp)
  qed
  moreover have "mine_one lib fuel' it env nd = Some (Ret (pool, b))" if "fuel \<le> fuel'" for fuel'
    using iter_collect_more [OF c(1) that] m o(1) by (simp add: mine_one_def)
  moreover have "node_fit origin lib (pool, b)"
    using on_mined_block_signed [OF assms(4) S(2) o(1)] o(2) M(1) by (simp add: node_fit_def)
  ultimately show thesis using M(2) by (intro that [of fuel "(pool, b)"]) simp_all
qed

lemma mine_blocks_returns:
  assumes "service_lib lib" "iteration_order it"
  shows "node_fit origin lib nd \<Longrightarrow> unat (height nd) + n < 2 ^ 64 \<Longrightarrow>
    \<exists>fuel nd'. (\<forall>fuel' \<ge> fuel. mine_blocks lib fuel' it env interval n nd = Some (Ret nd')) \<and>
      node_fit origin lib nd' \<and> unat (height nd') = unat (height nd) + n \<and>
      (\<forall>m \<le> height nd. hash_at nd' m = hash_at nd m)"
proof (induction n arbitrary: nd)
  case 0
  then show ?case by (intro exI [of _ 0] exI [of _ nd]) simp
next
  case (Suc n)
  let ?nd = "(fst nd, case interval of
      Some i \<Rightarrow> (snd nd)\<lparr>bk_time := snd (increase_time i (bk_time (snd nd)))\<rparr> | None \<Rightarrow> snd nd)"
  have same: "height ?nd = height nd" "hash_at ?nd = hash_at nd" by (simp_all split: option.split)
  have fit: "node_fit origin lib ?nd"
    using Suc.prems(1) by (simp add: node_fit_def node_ready_def backend_ok_def is_state_history_supported_def
        split: option.split)
  have top: "height nd \<noteq> - 1"
  proof (rule notI)
    assume "height nd = - 1"
    with Suc.prems(2) show False by (simp add: unat_minus_one_word_max)
  qed
  obtain fuel1 nd1 where one: "\<forall>fuel' \<ge> fuel1. mine_one lib fuel' it (env n) ?nd = Some (Ret nd1)"
    "node_fit origin lib nd1" "height nd1 = height nd + 1" "\<forall>m \<le> height nd. hash_at nd1 m = hash_at nd m"
    by (rule mine_one_returns [OF assms(1) fit _ assms(2), of "env n", unfolded same, OF top])
  note h = word_plus_one_cases [OF top]
  have "unat (height nd1) + n < 2 ^ 64" using Suc.prems(2) h(1) one(3) by simp
  from Suc.IH [OF one(2) this] obtain fuel2 nd2 where
    rest: "\<And>fuel'. fuel2 \<le> fuel' \<Longrightarrow> mine_blocks lib fuel' it env interval n nd1 = Some (Ret nd2)"
      "node_fit origin lib nd2" "unat (height nd2) = unat (height nd1) + n"
      "\<forall>m \<le> height nd1. hash_at nd2 m = hash_at nd1 m"
    by blast
  have "mine_blocks lib fuel' it env interval (Suc n) nd = Some (Ret nd2)" if "max fuel1 fuel2 \<le> fuel'" for fuel'
    using one(1) [rule_format, of fuel'] rest(1) [of fuel'] that by (simp add: Let_def)
  moreover have "unat (height nd2) = unat (height nd) + Suc n" using rest(3) one(3) h(1) by simp
  moreover have "hash_at nd2 m = hash_at nd m" if "m \<le> height nd" for m
    using that one(3,4) rest(4) h(2) [OF that] by simp
  ultimately show ?case using rest(2) by blast
qed

subsection \<open>Properties\<close>

lemmas reachable_service = service.reachable_inv


text \<open>
  C13: Asking the miner for transactions returns in every mode and every state the running
  node can reach, also where it runs the iterator over the ready transactions to its end. A
  batch consists of the forced transactions, which are handed out once, followed by
  transactions that are ready in the pool; where there is none the forced ones are kept.
\<close>

theorem miner_offers_ready:
  assumes "service_init lib s0" "(service_step origin lib)\<^sup>*\<^sup>* s0 s"
  shows "\<exists>fuel res miner. miner_poll fuel tick (sv_pool s) (sv_miner s) = Some (res, miner) \<and>
    (case res of
       PollPending \<Rightarrow> force_transactions miner = force_transactions (sv_miner s)
     | PollReady txs \<Rightarrow> force_transactions miner = None \<and>
         (\<exists>new. txs = forced (sv_miner s) @ new \<and>
            (\<forall>tx \<in> set new. ready_contains (ready_transactions (sv_pool s)) (pool_tx_hash tx))))"
proof -
  note D = service_invD [OF reachable_service [OF assms]]
  obtain fuel r where "mode_poll fuel tick (sv_pool s) (mode (sv_miner s)) = Some r"
    by (rule mode_poll_returns [OF D(3)])
  then obtain res miner where m: "miner_poll fuel tick (sv_pool s) (sv_miner s) = Some (res, miner)"
    by (fastforce simp: miner_poll_def)
  have "case res of
       PollPending \<Rightarrow> force_transactions miner = force_transactions (sv_miner s)
     | PollReady txs \<Rightarrow> force_transactions miner = None \<and>
         (\<exists>new. txs = forced (sv_miner s) @ new \<and>
            (\<forall>tx \<in> set new. ready_contains (ready_transactions (sv_pool s)) (pool_tx_hash tx)))"
  proof (rule miner_poll_cases [OF m])
    fix new mode'
    assume "mode_poll fuel tick (sv_pool s) (mode (sv_miner s)) = Some (PollReady new, mode')"
    from mode_poll_from_pool [OF D(3) this]
    have "\<forall>tx \<in> set new. ready_contains (ready_transactions (sv_pool s)) (pool_tx_hash tx)"
      by (simp add: from_pool_def)
    moreover assume "res = PollReady (forced (sv_miner s) @ new)"
      "miner = (sv_miner s)\<lparr>mode := mode', force_transactions := None\<rparr>"
    ultimately show ?thesis by simp
  qed simp
  with m show ?thesis by blast
qed


text \<open>
  C39: While a block is being mined, a miner in automatic mode that found as many ready
  transactions as a block may hold hands out the same transactions again and again: the loop
  of the service does not stop, and each round queues another copy of the batch.
\<close>

theorem auto_miner_requeues:
  assumes "sv_pc s = Draining" "idle_backend (sv_producer s) = None"
    and "block_mining (sv_producer s) = Some (Running busy)"
    and "mode (sv_miner s) = Auto m" "force_transactions (sv_miner s) = None"
    and "rx m = []" "has_pending_txs m = Some True" "0 < max_transactions m"
    and "txs = iter_take (max_transactions m) (inner_ready_transactions (sv_pool s))"
    and "length txs = max_transactions m"
  shows "(service_step origin lib)\<^sup>*\<^sup>* s
    (s\<lparr>sv_producer := (sv_producer s)\<lparr>queued := queued (sv_producer s) @ replicate k txs\<rparr>\<rparr>)"
proof (induction k)
  case 0
  then show ?case by simp
next
  case (Suc k)
  let ?p = "\<lambda>k. (sv_producer s)\<lparr>queued := queued (sv_producer s) @ replicate k txs\<rparr>"
  let ?s = "s\<lparr>sv_producer := ?p k\<rparr>"
  have "start_mining (?p k) = ?p k"
    using assms(2) by (simp add: start_mining_def split: list.split)
  then have poll: "producer_poll_next False (sv_producer ?s) = Ret (PollPending, ?p k)"
    using assms(3) by (simp add: producer_poll_next_def Let_def)
  have "service_step origin lib ?s (?s\<lparr>sv_producer := ?p k, sv_pc := Selecting\<rparr>)"
    by (rule service_step.no_block [OF _ poll]) (simp add: assms(1))
  moreover have "ready_miner_poll (sv_pool s) m = (PollReady txs, m)"
    using assms(6-10) by (auto simp: ready_miner_poll_def Let_def)
  then have "miner_poll 0 False (sv_pool s) (sv_miner s) = Some (PollReady txs, sv_miner s)"
    using assms(4,5) by (simp add: miner_poll_def)
  then have "service_step origin lib (?s\<lparr>sv_producer := ?p k, sv_pc := Selecting\<rparr>)
      (?s\<lparr>sv_producer := ?p k, sv_pc := Selecting, sv_miner := sv_miner s,
         sv_producer := ?p (Suc k), sv_pc := Draining\<rparr>)"
    using service_step.batch [where s = "?s\<lparr>sv_producer := ?p k, sv_pc := Selecting\<rparr>" and fuel = 0 and tick = False
        and transactions = txs and miner = "sv_miner s" and origin = origin and lib = lib]
    by (simp add: replicate_append_same)
  moreover have "?s\<lparr>sv_producer := ?p k, sv_pc := Selecting, sv_miner := sv_miner s,
      sv_producer := ?p (Suc k), sv_pc := Draining\<rparr> = s\<lparr>sv_producer := ?p (Suc k)\<rparr>"
    using assms(1) by simp
  ultimately show ?case
    using Suc.IH by (metis (no_types, lifting) rtranclp.rtrancl_into_rtrancl)
qed

subsection \<open>A running node\<close>

text \<open>
  A node in automatic mode with one transaction per block, on which one transaction was
  submitted, selected and handed to the mining task.
\<close>

definition sample_service :: "(unit MemDb, unit, unit, unit) NodeService" where
  "sample_service =
     \<lparr>sv_pool = pool_default, sv_miner = Miner_new (mode_instant 1 []), sv_producer = BlockProducer_new,
      sv_backend = sample_backend, sv_pc = Draining\<rparr>"

definition sample_pool :: PoolInner where
  "sample_pool = after_submits [(0, 5, 10)]"

definition sample_batch :: "PoolTransaction list" where
  "sample_batch = iter_take 1 (inner_ready_transactions sample_pool)"

definition sample_running :: "service_pc \<Rightarrow> (unit MemDb, unit, unit, unit) NodeService" where
  "sample_running pc =
     \<lparr>sv_pool = sample_pool,
      sv_miner = Miner_new (Auto \<lparr>max_transactions = 1, has_pending_txs = Some True, rx = []\<rparr>),
      sv_producer = \<lparr>idle_backend = None, block_mining = Some (Running sample_batch), queued = []\<rparr>,
      sv_backend = sample_backend, sv_pc = pc\<rparr>"

lemma sample_batch_length: "length sample_batch = 1"
  unfolding sample_batch_def sample_pool_def by code_simp

lemma sample_lib_ok: "service_lib (with_memdb sample_node)"
proof -
  have "x = y" if "(ucast x :: u256) = ucast y" for x y :: u64
    using arg_cong [OF that, of unat] by (simp add: unat_ucast_up word_unat_eq_iff)
  with sample_evm show ?thesis by (auto simp: service_lib_def hash_numbers_def)
qed

lemma sample_service_init: "service_init (with_memdb sample_node) sample_service"
  using sample_lib_ok sample_ok states_init_inv [OF sample_states]
  by (simp add: service_init_def sample_service_def node_ready_def batch_fits_def forced_def Miner_new_def
      sample_block_env_def)

lemma sample_not_full: "\<not> chain_full sample_service" "\<not> chain_full (sample_running pc)"
  by (simp_all add: chain_full_def sample_service_def sample_running_def)

lemma sample_tx_fits: "tx_fits (sample_tx n g h)"
  by (simp add: tx_fits_def sample_tx_def sample_pending_def api_transaction_def pt_typed_def)

lemma sample_pending_simps:
  "pt_hash (sample_pending n g h) = h" "pt_sender (sample_pending n g h) = replicate 20 7"
  "pt_nonce (sample_pending n g h) = n"
  by (simp_all add: sample_pending_def pt_nonce_def pt_typed_def)

lemma sample_submit:
  obtains res where "inner_add_transaction id 0 (sample_tx 0 5 10) pool_default = Ret (res, sample_pool)"
proof -
  obtain res p where "inner_add_transaction id 0 (sample_tx 0 5 10) pool_default = Ret (res, p)"
    using inner_add_transaction_spec [OF pool_inv_default iteration_order_id(1) tx_ok_api]
    unfolding sample_tx_def by metis
  with that show thesis by (simp add: sample_pool_def after_submits_def)
qed

abbreviation sample_origin :: "TxHash \<Rightarrow> address \<times> u64" where
  "sample_origin \<equiv> \<lambda>_. (replicate 20 7, 0)"

lemma sample_running_reachable:
  "(service_step sample_origin (with_memdb sample_node))\<^sup>*\<^sup>* sample_service (sample_running Selecting)"
proof -
  let ?step = "service_step sample_origin (with_memdb sample_node)"
  let ?a = "sample_service\<lparr>sv_pool := sample_pool\<rparr>"
  let ?m = "Miner_new (Auto \<lparr>max_transactions = 1, has_pending_txs = Some True, rx = []\<rparr>)"
  let ?b = "?a\<lparr>sv_pc := Selecting\<rparr>"
  let ?c = "?a\<lparr>sv_miner := ?m, sv_producer := BlockProducer_new\<lparr>queued := [sample_batch]\<rparr>, sv_pc := Draining\<rparr>"
  obtain res where "inner_add_transaction id 0 (sample_tx 0 5 10) pool_default = Ret (res, sample_pool)"
    by (rule sample_submit)
  then have "?step sample_service ?a"
    using service_step.submitted [of id sample_origin "sample_pending 0 5 10" Fees 0 0 sample_service res sample_pool "[]"
        "with_memdb sample_node"] sample_tx_fits [of 0 5 10]
    by (simp add: sample_service_def sample_tx_def sample_pending_simps Miner_new_def mode_instant_def)
  moreover have "?step ?a ?b"
    using service_step.no_block [of ?a False BlockProducer_new]
    by (simp add: sample_service_def producer_poll_next_def start_mining_def BlockProducer_new_def)
  moreover have "sample_batch \<noteq> []" using sample_batch_length by auto
  then have "miner_poll 0 False sample_pool (Miner_new (mode_instant 1 [])) = Some (PollReady sample_batch, ?m)"
    using sample_batch_length
    by (simp add: miner_poll_def Miner_new_def mode_instant_def ready_miner_poll_def Let_def sample_batch_def)
  then have "?step ?b ?c"
    using service_step.batch [of ?b 0 False sample_batch ?m]
    by (simp add: sample_service_def BlockProducer_new_def)
  moreover have "?step ?c (sample_running Selecting)"
    using service_step.no_block [of ?c False "sv_producer (sample_running Selecting)"]
    by (simp add: sample_service_def sample_running_def producer_poll_next_def start_mining_def BlockProducer_new_def Let_def)
  ultimately show ?thesis by (meson converse_rtranclp_into_rtranclp rtranclp.rtrancl_refl)
qed


theorem miner_offers_ready_witness:
  "\<exists>fuel res miner. miner_poll fuel True sample_pool (sv_miner (sample_running Selecting)) = Some (res, miner) \<and>
     force_transactions miner = None"
proof -
  let ?s = "sample_running Selecting"
  obtain fuel res miner where m: "miner_poll fuel True (sv_pool ?s) (sv_miner ?s) = Some (res, miner)"
    and c: "case res of
        PollPending \<Rightarrow> force_transactions miner = force_transactions (sv_miner ?s)
      | PollReady txs \<Rightarrow> force_transactions miner = None \<and>
         (\<exists>new. txs = forced (sv_miner ?s) @ new \<and>
            (\<forall>tx \<in> set new. ready_contains (ready_transactions (sv_pool ?s)) (pool_tx_hash tx)))"
    using miner_offers_ready [OF sample_service_init sample_running_reachable, of True] by blast
  from c have "force_transactions miner = None"
    by (cases res) (simp_all add: sample_running_def Miner_new_def)
  moreover have "sv_pool ?s = sample_pool" by (simp add: sample_running_def)
  ultimately show ?thesis using m by metis
qed


theorem auto_miner_requeues_witness:
  "(service_step sample_origin (with_memdb sample_node))\<^sup>*\<^sup>* (sample_running Draining)
     ((sample_running Draining)\<lparr>sv_producer :=
        (sv_producer (sample_running Draining))\<lparr>queued := [sample_batch, sample_batch]\<rparr>\<rparr>)"
  using auto_miner_requeues [of "sample_running Draining" sample_batch
      "\<lparr>max_transactions = 1, has_pending_txs = Some True, rx = []\<rparr>" sample_batch sample_origin "with_memdb sample_node" 2]
    sample_batch_length
  by (simp add: sample_running_def Miner_new_def sample_batch_def numeral_2_eq_2)

end
