(* ===== verification/Ic_Map.thy ===== *)
theory Ic_Map
  imports Rust_Prelude
begin

text \<open>
  The maps between program counters and instruction counters of a bytecode and the decoding
  of a bytecode into instructions (\<^verbatim>\<open>evm/core/src/ic.rs\<close>).

  The loops over the code are functions with a measure. The two maps are compared with a
  definition that reads the code byte by byte and lists where instructions start; they are
  shown to be inverse to each other. The table of opcodes and of the sizes of their immediate
  data belongs to the interpreter library and is a parameter of the decoder.
\<close>

subsection \<open>The maps\<close>

abbreviation PUSH0 :: u8 where "PUSH0 \<equiv> 0x5F"
abbreviation PUSH1 :: u8 where "PUSH1 \<equiv> 0x60"
abbreviation PUSH32 :: u8 where "PUSH32 \<equiv> 0x7F"

definition push_size :: "u8 \<Rightarrow> nat" where
  "push_size op = (if PUSH1 \<le> op \<and> op \<le> PUSH32 then unat (op - PUSH0) else 0)"

function make_map_loop :: "bool \<Rightarrow> u8 list \<Rightarrow> nat \<Rightarrow> nat \<Rightarrow> (u32, u32) hmap \<Rightarrow> (u32, u32) hmap" where
  "make_map_loop pc_first code pc cumulative_push_size m =
     (if pc < length code then
        let ic = pc - cumulative_push_size;
            m' = (if pc_first then hm_insert (of_nat pc) (of_nat ic) m else hm_insert (of_nat ic) (of_nat pc) m);
            size = push_size (code ! pc)
        in make_map_loop pc_first code (pc + size + 1) (cumulative_push_size + size) m'
      else m)"
  by auto
termination
  by (relation "measure (\<lambda>(pc_first, code, pc, c, m). length code - pc)") auto

declare make_map_loop.simps [simp del]

definition make_map :: "bool \<Rightarrow> u8 list \<Rightarrow> (u32, u32) hmap rust" where
  "make_map pc_first code =
     rassert (length code \<le> 2 ^ 32 - 1) ''bytecode is too big'' (Ret (make_map_loop pc_first code 0 0 []))"

definition PcIcMap_new :: "u8 list \<Rightarrow> (u32, u32) hmap rust" where
  "PcIcMap_new code = make_map True code"

definition IcPcMap_new :: "u8 list \<Rightarrow> (u32, u32) hmap rust" where
  "IcPcMap_new code = make_map False code"

definition pc_ic_get :: "(u32, u32) hmap \<Rightarrow> u32 \<Rightarrow> u32 option" where
  "pc_ic_get m pc = hm_get m pc"

definition ic_pc_get :: "(u32, u32) hmap \<Rightarrow> u32 \<Rightarrow> u32 option" where
  "ic_pc_get m ic = hm_get m ic"

subsection \<open>The start positions of instructions\<close>

text \<open>
  Reading the code byte by byte: \<open>skip\<close> is the number of immediate bytes still to come,
  \<open>pos\<close> the position of the next byte.
\<close>

fun starts_from :: "nat \<Rightarrow> nat \<Rightarrow> u8 list \<Rightarrow> nat list" where
  "starts_from skip pos [] = []"
| "starts_from (Suc skip) pos (b # bs) = starts_from skip (Suc pos) bs"
| "starts_from 0 pos (b # bs) = pos # starts_from (push_size b) (Suc pos) bs"

definition instruction_starts :: "u8 list \<Rightarrow> nat list" where
  "instruction_starts code = starts_from 0 0 code"

lemma starts_from_skip: "starts_from k pos bs = starts_from 0 (pos + k) (drop k bs)"
proof (induction k pos bs rule: starts_from.induct)
  case (2 skip pos b bs)
  then show ?case by simp
qed simp_all

lemma starts_from_at:
  "pc < length code \<Longrightarrow>
   starts_from 0 pc (drop pc code) =
     pc # starts_from 0 (pc + push_size (code ! pc) + 1) (drop (pc + push_size (code ! pc) + 1) code)"
  by (simp add: Cons_nth_drop_Suc [symmetric] starts_from_skip [of "push_size (code ! pc)"] add.commute add.left_commute)

lemma starts_from_end: "length code \<le> pc \<Longrightarrow> starts_from 0 pc (drop pc code) = []"
  by simp

lemma starts_from_range: "x \<in> set (starts_from k pos bs) \<Longrightarrow> pos \<le> x \<and> x < pos + length bs"
  by (induction k pos bs rule: starts_from.induct) (simp, fastforce, force)

lemma sorted_starts_from: "sorted_wrt (<) (starts_from k pos bs)"
  by (induction k pos bs rule: starts_from.induct) (auto dest: starts_from_range)

lemma length_starts_from: "length (starts_from k pos bs) \<le> length bs"
  by (induction k pos bs rule: starts_from.induct) auto

text \<open>The loop adds the pairs of start position and index from where it stands.\<close>

definition pairs :: "bool \<Rightarrow> nat \<Rightarrow> nat list \<Rightarrow> (u32 \<times> u32) list" where
  "pairs pc_first ic xs =
     map (\<lambda>(pc, ic). if pc_first then (of_nat pc, of_nat ic) else (of_nat ic, of_nat pc))
       (zip xs [ic..<ic + length xs])"

lemma pairs_Cons:
  "pairs pc_first ic (x # xs) =
   (if pc_first then (of_nat x, of_nat ic) else (of_nat ic, of_nat x)) # pairs pc_first (Suc ic) xs"
  by (simp add: pairs_def upt_conv_Cons del: upt_Suc)

lemma make_map_loop_pairs:
  assumes "c \<le> pc"
  shows "make_map_loop pc_first code pc c m =
    fold (\<lambda>(k, v). hm_insert k v) (pairs pc_first (pc - c) (starts_from 0 pc (drop pc code))) m"
  using assms
proof (induction pc_first code pc c m rule: make_map_loop.induct)
  case (1 pc_first code pc c m)
  show ?case
  proof (cases "pc < length code")
    case True
    have ic: "pc + push_size (code ! pc) + 1 - (c + push_size (code ! pc)) = Suc (pc - c)"
      using 1(2) by simp
    show ?thesis
      using 1(1) [OF True refl refl refl] 1(2) True
      by (subst make_map_loop.simps) (simp add: Let_def starts_from_at [OF True] pairs_Cons ic [simplified] Suc_diff_le)
  next
    case False
    then show ?thesis by (simp add: make_map_loop.simps pairs_def)
  qed
qed

lemma make_map_eq:
  "make_map pc_first code =
   (if length code < 2 ^ 32 then Ret (fold (\<lambda>(k, v). hm_insert k v) (pairs pc_first 0 (instruction_starts code)) [])
    else Panic ''bytecode is too big'')"
  by (auto simp: make_map_def rassert_def make_map_loop_pairs instruction_starts_def)

lemma fold_insert_get:
  "hm_get (fold (\<lambda>(k, v). hm_insert k v) ps m) = hm_get m ++ map_of (rev ps)"
proof (induction ps arbitrary: m)
  case (Cons p ps)
  then show ?case
    by (cases p) (simp add: hm_simps fun_eq_iff map_add_def split: option.splits)
qed simp

lemma of_nat_u32_eq: "x < 2 ^ 32 \<Longrightarrow> y < 2 ^ 32 \<Longrightarrow> (of_nat x :: u32) = of_nat y \<longleftrightarrow> x = y"
  by (simp add: word_unat_eq_iff unat_of_nat take_bit_nat_eq_self)

lemma starts_less: "length code < 2 ^ 32 \<Longrightarrow> i < length (instruction_starts code) \<Longrightarrow> instruction_starts code ! i < 2 ^ 32"
  using starts_from_range [of "instruction_starts code ! i" 0 0 code]
  by (auto simp: instruction_starts_def)

text \<open>Keys and values of the two maps are the same pairs, read from either side.\<close>

lemma pairs_get:
  assumes code: "length code < 2 ^ 32" and m: "make_map pc_first code = Ret m"
  shows "hm_get m a = Some b \<longleftrightarrow>
    (\<exists>i < length (instruction_starts code). (a, b) =
       (if pc_first then (of_nat (instruction_starts code ! i), of_nat i)
        else (of_nat i, of_nat (instruction_starts code ! i))))"
proof -
  let ?xs = "instruction_starts code" let ?ps = "pairs pc_first 0 ?xs"
  have len: "length ?xs \<le> length code" by (simp add: instruction_starts_def length_starts_from)
  have nth: "i < length ?xs \<Longrightarrow> ?ps ! i = (if pc_first then (of_nat (?xs ! i), of_nat i) else (of_nat i, of_nat (?xs ! i)))"
    for i by (simp add: pairs_def)
  have length_ps: "length ?ps = length ?xs" by (simp add: pairs_def)
  have inj: "i = j" if "i < length ?xs" "j < length ?xs" "?xs ! i = ?xs ! j" for i j
    using that strict_sorted_iff [of ?xs] sorted_starts_from [of 0 0 code]
    by (simp add: instruction_starts_def nth_eq_iff_index_eq)
  have "i = j" if "i < length ?xs" "j < length ?xs" "fst (?ps ! i) = fst (?ps ! j)" for i j
    using that len code inj [of i j] of_nat_u32_eq [OF starts_less [OF code that(1)] starts_less [OF code that(2)]]
    by (auto simp: nth of_nat_u32_eq split: if_splits)
  then have dist: "distinct (map fst ?ps)"
    by (auto simp: distinct_conv_nth length_ps)
  from m code have "m = fold (\<lambda>(k, v). hm_insert k v) ?ps []"
    by (simp add: make_map_eq)
  then have "hm_get m a = map_of (rev ?ps) a" by (simp add: fold_insert_get)
  with dist have "hm_get m a = Some b \<longleftrightarrow> (a, b) \<in> set ?ps"
    by (simp add: map_of_eq_Some_iff rev_map [symmetric])
  also have "\<dots> \<longleftrightarrow> (\<exists>i < length ?xs. (a, b) = ?ps ! i)" by (auto simp: in_set_conv_nth length_ps)
  finally show ?thesis by (simp only: nth cong: conj_cong)
qed

text \<open>
  C26: The two maps agree with reading the code byte by byte: they exist exactly for codes of
  less than \<open>2 ^ 32\<close> bytes, and then the map from program counters knows exactly the
  positions where instructions start, each with its index, and the other map is the
  list of these positions.
\<close>

theorem instruction_maps_reference:
  "(length code < 2 ^ 32 \<longleftrightarrow> is_ret (PcIcMap_new code)) \<and>
   (PcIcMap_new code = Ret pcs \<and> IcPcMap_new code = Ret ics \<longrightarrow>
     (\<forall>pc ic. pc_ic_get pcs pc = Some ic \<longleftrightarrow>
        (\<exists>i < length (instruction_starts code). pc = of_nat (instruction_starts code ! i) \<and> ic = of_nat i)) \<and>
     (\<forall>i < length (instruction_starts code). ic_pc_get ics (of_nat i) = Some (of_nat (instruction_starts code ! i))))"
proof (intro conjI impI)
  show "length code < 2 ^ 32 \<longleftrightarrow> is_ret (PcIcMap_new code)"
    by (simp add: PcIcMap_new_def make_map_eq)
next
  assume m: "PcIcMap_new code = Ret pcs \<and> IcPcMap_new code = Ret ics"
  then have len: "length code < 2 ^ 32" by (auto simp: PcIcMap_new_def make_map_eq split: if_splits)
  note m' = m [unfolded PcIcMap_new_def IcPcMap_new_def]
  show "\<forall>pc ic. pc_ic_get pcs pc = Some ic \<longleftrightarrow>
      (\<exists>i < length (instruction_starts code). pc = of_nat (instruction_starts code ! i) \<and> ic = of_nat i)"
    using pairs_get [OF len m' [THEN conjunct1]] by (simp add: pc_ic_get_def)
  show "\<forall>i < length (instruction_starts code). ic_pc_get ics (of_nat i) = Some (of_nat (instruction_starts code ! i))"
    using pairs_get [OF len m' [THEN conjunct2]] by (auto simp: ic_pc_get_def)
qed

text \<open>A push of two bytes, a pop, a push that ends early.\<close>

definition sample_code :: "u8 list" where
  "sample_code = [0x61, 0x01, 0x60, 0x50, 0x62, 0xFF]"

lemma sample_maps:
  obtains pcs ics where "PcIcMap_new sample_code = Ret pcs" "IcPcMap_new sample_code = Ret ics"
proof (rule that)
  have len: "length sample_code < 2 ^ 32" by (simp add: sample_code_def)
  show "PcIcMap_new sample_code = Ret (make_map_loop True sample_code 0 0 [])"
    "IcPcMap_new sample_code = Ret (make_map_loop False sample_code 0 0 [])"
    using len by (simp_all add: PcIcMap_new_def IcPcMap_new_def make_map_def rassert_def)
qed

theorem instruction_maps_reference_witness:
  "instruction_starts sample_code = [0, 3, 4] \<and>
   (\<exists>pcs ics. PcIcMap_new sample_code = Ret pcs \<and> IcPcMap_new sample_code = Ret ics \<and>
     pc_ic_get pcs 4 = Some 2 \<and> pc_ic_get pcs 2 = None \<and> ic_pc_get ics 1 = Some 3)"
proof (rule sample_maps)
  fix pcs ics
  assume m: "PcIcMap_new sample_code = Ret pcs" "IcPcMap_new sample_code = Ret ics"
  have starts: "instruction_starts sample_code = [0, 3, 4]" by code_simp
  have R: "pc_ic_get pcs pc = Some ic \<longleftrightarrow> (\<exists>i < 3. pc = of_nat ([0, 3, 4] ! i) \<and> ic = of_nat i)"
    "i < 3 \<Longrightarrow> ic_pc_get ics (of_nat i) = Some (of_nat ([0, 3, 4] ! i))" for pc ic i
    using instruction_maps_reference [of sample_code pcs ics] m unfolding starts by (simp_all add: numeral_3_eq_3)
  have "ic_pc_get ics 1 = Some 3" using R(2) [of 1] by simp
  moreover have "pc_ic_get pcs 4 = Some 2"
    unfolding R(1) by (rule exI [of _ 2]) simp
  moreover have "pc_ic_get pcs 2 = None"
  proof (rule ccontr)
    assume "pc_ic_get pcs 2 \<noteq> None"
    then obtain ic i :: nat where "i < 3" "(2 :: u32) = of_nat ([0, 3, 4] ! i)" using R(1) by blast
    moreover from this(1) have "i = 0 \<or> i = 1 \<or> i = 2" by linarith
    ultimately show False by auto
  qed
  ultimately show ?thesis using starts m by (intro conjI exI [of _ pcs] exI [of _ ics])
qed

text \<open>
  The two maps are inverse to each other: a program counter has an instruction counter
  if and only if that instruction counter has the program counter.
\<close>

theorem instruction_maps_inverse:
  assumes "PcIcMap_new code = Ret pcs" "IcPcMap_new code = Ret ics"
  shows "pc_ic_get pcs pc = Some ic \<longleftrightarrow> ic_pc_get ics ic = Some pc"
proof -
  note m = assms [unfolded PcIcMap_new_def IcPcMap_new_def]
  then have len: "length code < 2 ^ 32" by (auto simp: make_map_eq split: if_splits)
  show ?thesis
    unfolding pc_ic_get_def ic_pc_get_def pairs_get [OF len m(1)] pairs_get [OF len m(2)] by auto
qed

theorem instruction_maps_inverse_witness:
  "\<exists>pcs ics. PcIcMap_new sample_code = Ret pcs \<and> IcPcMap_new sample_code = Ret ics \<and>
     (pc_ic_get pcs 4 = Some 2 \<longleftrightarrow> ic_pc_get ics 2 = Some 4)"
proof (rule sample_maps)
  fix pcs ics
  assume m: "PcIcMap_new sample_code = Ret pcs" "IcPcMap_new sample_code = Ret ics"
  with instruction_maps_inverse [OF m] show ?thesis by (intro exI conjI)
qed

subsection \<open>Decoding instructions\<close>

record 'o Instruction =
  in_op :: "'o option"
  immediate :: "u8 list"
  in_pc :: u32

text \<open>
  \<open>opcode_new\<close> and \<open>immediate_size\<close> are the opcode table of the interpreter
  library; the latter may look at the bytes after the opcode.
\<close>

definition op_size :: "(u8 \<Rightarrow> 'o option) \<Rightarrow> ('o \<Rightarrow> u8 list \<Rightarrow> u8) \<Rightarrow> u8 list \<Rightarrow> nat \<Rightarrow> nat" where
  "op_size opcode_new immediate_size code pc =
     (case opcode_new (code ! pc) of
        Some op \<Rightarrow> unat (immediate_size op (drop (pc + 1) code))
      | None \<Rightarrow> 0)"

function decode_loop ::
    "(u8 \<Rightarrow> 'o option) \<Rightarrow> ('o \<Rightarrow> u8 list \<Rightarrow> u8) \<Rightarrow> u8 list \<Rightarrow> nat \<Rightarrow> 'o Instruction list \<Rightarrow>
     string + 'o Instruction list" where
  "decode_loop opcode_new immediate_size code pc steps =
     (if pc < length code then
        let pc1 = pc + 1; size = op_size opcode_new immediate_size code pc
        in if length code < pc1 + size then Inl ''incomplete sequence of bytecode''
           else decode_loop opcode_new immediate_size code (pc1 + size)
                  (steps @ [\<lparr>in_op = opcode_new (code ! pc), immediate = take size (drop pc1 code),
                             in_pc = of_nat pc1\<rparr>])
      else Inr steps)"
  by auto
termination
  by (relation "measure (\<lambda>(opcode_new, imm, code, pc, steps). length code - pc)") auto

declare decode_loop.simps [simp del]

definition decode_instructions ::
    "(u8 \<Rightarrow> 'o option) \<Rightarrow> ('o \<Rightarrow> u8 list \<Rightarrow> u8) \<Rightarrow> u8 list \<Rightarrow> (string + 'o Instruction list) rust" where
  "decode_instructions opcode_new immediate_size code =
     rassert (length code \<le> 2 ^ 32 - 1) ''bytecode is too big''
       (Ret (decode_loop opcode_new immediate_size code 0 []))"

text \<open>The bytes of a decoded instruction in the code. Its program counter is past its opcode.\<close>

definition instruction_bytes :: "u8 list \<Rightarrow> 'o Instruction \<Rightarrow> u8 list" where
  "instruction_bytes code s = code ! (unat (in_pc s) - 1) # immediate s"

definition opcode_at :: "(u8 \<Rightarrow> 'o option) \<Rightarrow> u8 list \<Rightarrow> 'o Instruction \<Rightarrow> bool" where
  "opcode_at opcode_new code s =
     (0 < unat (in_pc s) \<and> unat (in_pc s) \<le> length code \<and> in_op s = opcode_new (code ! (unat (in_pc s) - 1)))"

lemma decode_loop_tiles:
  assumes "decode_loop opcode_new imm code pc steps = Inr res" "pc \<le> length code" "length code < 2 ^ 32"
  shows "\<exists>new. res = steps @ new \<and> concat (map (instruction_bytes code) new) = drop pc code \<and>
    list_all (opcode_at opcode_new code) new \<and>
    ((\<forall>pc < length code. op_size opcode_new imm code pc = push_size (code ! pc)) \<longrightarrow>
       map (\<lambda>s. unat (in_pc s) - 1) new = starts_from 0 pc (drop pc code))"
  using assms
proof (induction opcode_new imm code pc steps rule: decode_loop.induct)
  case (1 opcode_new imm code pc steps)
  show ?case
  proof (cases "pc < length code")
    case True
    let ?size = "op_size opcode_new imm code pc"
    let ?s = "\<lparr>in_op = opcode_new (code ! pc), immediate = take ?size (drop (pc + 1) code), in_pc = of_nat (pc + 1)\<rparr>"
    from 1(2) True have le: "\<not> length code < pc + 1 + ?size"
      and rest: "decode_loop opcode_new imm code (pc + 1 + ?size) (steps @ [?s]) = Inr res"
      by (auto simp: decode_loop.simps [of opcode_new imm code pc steps] Let_def split: if_splits)
    from 1(1) [OF True refl refl le rest] le 1(4) obtain new where
      new: "res = (steps @ [?s]) @ new" "concat (map (instruction_bytes code) new) = drop (pc + 1 + ?size) code"
        "list_all (opcode_at opcode_new code) new"
        "(\<forall>pc < length code. op_size opcode_new imm code pc = push_size (code ! pc)) \<longrightarrow>
           map (\<lambda>s. unat (in_pc s) - 1) new = starts_from 0 (pc + 1 + ?size) (drop (pc + 1 + ?size) code)"
      by auto
    have "pc + 1 < 2 ^ LENGTH(32)" using True 1(4) by simp
    then have pc: "unat (in_pc ?s) = pc + 1" by (simp only: Instruction.simps unat_of_nat mod_less)
    have "instruction_bytes code ?s @ drop (pc + 1 + ?size) code = drop pc code"
      unfolding instruction_bytes_def pc using True append_take_drop_id [of ?size "drop (Suc pc) code"]
      by (simp add: Cons_nth_drop_Suc [symmetric] add.commute)
    moreover have "opcode_at opcode_new code ?s" unfolding opcode_at_def pc using True by simp
    ultimately show ?thesis
      using new pc True by (intro exI [of _ "?s # new"]) (auto simp: starts_from_at ac_simps)
  next
    case False
    with 1(2,3) show ?thesis by (auto simp: decode_loop.simps)
  qed
qed

text \<open>
  Decoding loses nothing: when it succeeds, the opcodes and immediate data of the
  instructions, one after the other, are the code again, and every instruction is decoded
  from the opcode before its program counter. If the sizes in the opcode table are those of
  the pushes, the opcodes are at the positions where instructions start.
\<close>

theorem decode_tiles_code:
  assumes "decode_instructions opcode_new imm code = Ret (Inr steps)"
  shows "concat (map (instruction_bytes code) steps) = code \<and>
    list_all (opcode_at opcode_new code) steps \<and>
    ((\<forall>pc < length code. op_size opcode_new imm code pc = push_size (code ! pc)) \<longrightarrow>
       map (\<lambda>s. unat (in_pc s) - 1) steps = instruction_starts code)"
  using decode_loop_tiles [of opcode_new imm code 0 "[]" steps] assms
  by (auto simp: decode_instructions_def rassert_def instruction_starts_def split: if_splits)

definition sample_instructions :: "u8 Instruction list" where
  "sample_instructions =
     [\<lparr>in_op = Some 0x61, immediate = [0x01, 0x60], in_pc = 1\<rparr>, \<lparr>in_op = Some 0x50, immediate = [], in_pc = 4\<rparr>]"

theorem decode_tiles_code_witness:
  "decode_instructions Some (\<lambda>op _. of_nat (push_size op)) (take 4 sample_code) = Ret (Inr sample_instructions) \<and>
   concat (map (instruction_bytes (take 4 sample_code)) sample_instructions) = take 4 sample_code \<and>
   map (\<lambda>s. unat (in_pc s) - 1) sample_instructions = instruction_starts (take 4 sample_code)"
proof -
  let ?imm = "\<lambda>op (_ :: u8 list). of_nat (push_size op) :: u8"
  have d: "decode_instructions Some ?imm (take 4 sample_code) = Ret (Inr sample_instructions)"
    by (simp add: decode_instructions_def rassert_def decode_loop.simps op_size_def push_size_def sample_code_def
        sample_instructions_def Let_def)
  have "op_size Some ?imm (take 4 sample_code) pc = push_size (take 4 sample_code ! pc)" for pc
    by (simp add: op_size_def push_size_def)
  with decode_tiles_code [OF d] d show ?thesis by simp
qed

end
