(* ===== verification/Coverage.thy ===== *)
theory Coverage
  imports Ic_Map "HOL-Library.Product_Lexorder" "HOL-Library.Option_ord"
begin

text \<open>
  Coverage of bytecode and of source code: the hit counters (\<^verbatim>\<open>evm/coverage/src/lib.rs\<close>
  and \<^verbatim>\<open>inspector.rs\<close>), the items of the sources (\<^verbatim>\<open>analysis.rs\<close>) and the
  anchors, the instructions that stand for an item (\<^verbatim>\<open>anchors.rs\<close>).

  Versions of compilers are a type parameter, paths are strings. An element of a source map
  is a record of the values that the source map library gives for it. Counters are 32-bit
  words and wrap around. The items found in a contract are given here; the visitor that
  finds them follows in another theory.
\<close>

subsection \<open>Hit counters\<close>

record HitMap =
  hit_bytecode :: "u8 list"
  hit_counts :: "(u32, u32) hmap"

definition HitMap_new :: "u8 list \<Rightarrow> HitMap" where
  "HitMap_new code = \<lparr>hit_bytecode = code, hit_counts = []\<rparr>"

definition hit_count :: "HitMap \<Rightarrow> u32 \<Rightarrow> u32" where
  "hit_count m pc = (case hm_get (hit_counts m) pc of Some n \<Rightarrow> n | None \<Rightarrow> 0)"

definition hitmap_get :: "HitMap \<Rightarrow> u32 \<Rightarrow> u32 option" where
  "hitmap_get m pc = (let n = hit_count m pc in if n = 0 then None else Some n)"

definition hitmap_hits :: "u32 \<Rightarrow> u32 \<Rightarrow> HitMap \<Rightarrow> HitMap" where
  "hitmap_hits pc n m = m\<lparr>hit_counts := hm_insert pc (hit_count m pc + n) (hit_counts m)\<rparr>"

definition hitmap_hit :: "u32 \<Rightarrow> HitMap \<Rightarrow> HitMap" where
  "hitmap_hit pc m = hitmap_hits pc 1 m"

definition hitmap_merge :: "((u32 \<times> u32) list \<Rightarrow> (u32 \<times> u32) list) \<Rightarrow> HitMap \<Rightarrow> HitMap \<Rightarrow> HitMap" where
  "hitmap_merge it other m = fold (\<lambda>(pc, n). hitmap_hits pc n) (it (hit_counts other)) m"

type_synonym HitMaps = "(B256, HitMap) hmap"

definition hitmaps_entry_merge ::
    "((u32 \<times> u32) list \<Rightarrow> (u32 \<times> u32) list) \<Rightarrow> B256 \<times> HitMap \<Rightarrow> HitMaps \<Rightarrow> HitMaps" where
  "hitmaps_entry_merge it = (\<lambda>(code_hash, other) ms.
     hm_insert code_hash
       (case hm_get ms code_hash of Some e \<Rightarrow> hitmap_merge it other e | None \<Rightarrow> other) ms)"

definition hitmaps_merge ::
    "((u32 \<times> u32) list \<Rightarrow> (u32 \<times> u32) list) \<Rightarrow> (HitMaps \<Rightarrow> HitMaps) \<Rightarrow> HitMaps \<Rightarrow> HitMaps \<Rightarrow> HitMaps" where
  "hitmaps_merge it itm other ms = fold (hitmaps_entry_merge it) (itm other) ms"

fun merge_opt ::
    "((u32 \<times> u32) list \<Rightarrow> (u32 \<times> u32) list) \<Rightarrow> (HitMaps \<Rightarrow> HitMaps) \<Rightarrow> HitMaps option \<Rightarrow> HitMaps option \<Rightarrow>
     HitMaps option" where
  "merge_opt it itm a None = a"
| "merge_opt it itm None (Some b) = Some b"
| "merge_opt it itm (Some a) (Some b) = Some (hitmaps_merge it itm b a)"

definition maps_count :: "HitMaps \<Rightarrow> B256 \<Rightarrow> u32 \<Rightarrow> u32" where
  "maps_count ms h pc = (case hm_get ms h of Some m \<Rightarrow> hit_count m pc | None \<Rightarrow> 0)"

lemma hit_count_hits [simp]: "hit_count (hitmap_hits pc n m) pc' = hit_count m pc' + (if pc' = pc then n else 0)"
  by (simp add: hitmap_hits_def hit_count_def hm_simps)

lemma hit_count_fold:
  "hit_count (fold (\<lambda>(pc, n). hitmap_hits pc n) ps m) pc =
   hit_count m pc + sum_list (map snd (filter (\<lambda>(pc', n). pc' = pc) ps))"
  by (induction ps arbitrary: m) (auto simp: add.assoc)

lemma sum_list_mset_eq: "mset xs = mset ys \<Longrightarrow> sum_list (xs :: 'a::comm_monoid_add list) = sum_list ys"
  by (metis sum_mset_sum_list)

lemma sum_filter_hm:
  "hm_wf m \<Longrightarrow> sum_list (map snd (filter (\<lambda>(k', n). k' = k) m)) =
   (case hm_get m k of Some n \<Rightarrow> n | None \<Rightarrow> (0 :: 'a::comm_monoid_add))"
proof (induction m)
  case (Cons p m)
  have "filter (\<lambda>(k', n). k' = k) m = []" if "k \<notin> fst ` set m"
    using that by (force simp: filter_empty_conv)
  with Cons show ?case
    by (cases p) (auto simp: hm_wf_def map_of_eq_None_iff split: option.splits)
qed simp

text \<open>Merging adds the counters, in whatever order the tables are read.\<close>

lemma hit_count_merge:
  assumes "iteration_order it" "hm_wf (hit_counts other)"
  shows "hit_count (hitmap_merge it other m) pc = hit_count m pc + hit_count other pc"
proof -
  let ?f = "filter (\<lambda>(pc', n). pc' = pc)"
  from assms(1) have "mset (map snd (?f (it (hit_counts other)))) = mset (map snd (?f (hit_counts other)))"
    by (simp add: iteration_order_def)
  from sum_list_mset_eq [OF this] show ?thesis
    by (simp add: hitmap_merge_def hit_count_fold sum_filter_hm [OF assms(2), folded hit_count_def])
qed

definition maps_wf :: "HitMaps \<Rightarrow> bool" where
  "maps_wf ms = (hm_wf ms \<and> (\<forall>h m. hm_get ms h = Some m \<longrightarrow> hm_wf (hit_counts m)))"

lemma maps_count_entry:
  assumes "iteration_order it" "hm_wf (hit_counts other)"
  shows "maps_count (hitmaps_entry_merge it (c, other) ms) h pc =
    maps_count ms h pc + (if h = c then hit_count other pc else 0)"
  using hit_count_merge [OF assms]
  by (auto simp: hitmaps_entry_merge_def maps_count_def hm_simps split: option.splits)

lemma maps_count_fold:
  assumes "iteration_order it" "\<forall>(c, other) \<in> set ps. hm_wf (hit_counts other)"
  shows "maps_count (fold (hitmaps_entry_merge it) ps ms) h pc =
    maps_count ms h pc + sum_list (map (\<lambda>(c, other). hit_count other pc) (filter (\<lambda>(c, other). c = h) ps))"
  using assms(2)
proof (induction ps arbitrary: ms)
  case (Cons p ps)
  then show ?case
    by (cases p) (auto simp: maps_count_entry [OF assms(1)] add.assoc)
qed simp

lemma sum_filter_maps:
  "hm_wf ms \<Longrightarrow>
   sum_list (map (\<lambda>(c, other). hit_count other pc) (filter (\<lambda>(c, other). c = h) ms)) = maps_count ms h pc"
proof (induction ms)
  case (Cons p ms)
  have "filter (\<lambda>(c, other). c = h) ms = []" if "h \<notin> fst ` set ms"
    using that by (force simp: filter_empty_conv)
  with Cons show ?case
    by (cases p) (auto simp: hm_wf_def maps_count_def map_of_eq_None_iff split: option.splits)
qed (simp add: maps_count_def)

lemma maps_count_merge:
  assumes "iteration_order it" "iteration_order itm" "maps_wf other"
  shows "maps_count (hitmaps_merge it itm other ms) h pc = maps_count ms h pc + maps_count other h pc"
proof -
  let ?g = "\<lambda>ps. map (\<lambda>(c, other). hit_count other pc) (filter (\<lambda>(c, other). c = h) ps)"
  have "mset (?g (itm other)) = mset (?g other)" using assms(2) by (simp add: iteration_order_def)
  moreover have "\<forall>(c, m) \<in> set (itm other). hm_wf (hit_counts m)"
    using assms(3) iteration_order_set [OF assms(2), of other]
    by (auto simp: maps_wf_def hm_wf_def map_of_eq_Some_iff)
  ultimately show ?thesis
    using assms(3) sum_list_mset_eq [of "?g (itm other)" "?g other"]
    by (simp add: hitmaps_merge_def maps_count_fold [OF assms(1)] sum_filter_maps maps_wf_def)
qed

subsection \<open>Collecting hits\<close>

text \<open>
  What the collector reads of a running contract: its code hash, missing for the EOF format
  and zero for a contract under construction, and its code. \<open>hash_slow\<close> is the hash
  function of the library. The collector's pointer \<^verbatim>\<open>current_map\<close> is the key of the entry
  it points to, \<open>None\<close> while it dangles.
\<close>

record contract =
  ct_hash :: "B256 option"
  ct_bytecode :: "u8 list"

record CoverageCollector =
  current_map :: "B256 option"
  current_hash :: B256
  cc_maps :: HitMaps

definition collector_default :: CoverageCollector where
  "collector_default = \<lparr>current_map = None, current_hash = 0, cc_maps = []\<rparr>"

definition get_or_insert_contract_hash ::
    "(u8 list \<Rightarrow> B256) \<Rightarrow> contract \<Rightarrow> (B256 \<times> contract) rust" where
  "get_or_insert_contract_hash hash_slow ct =
     (case ct_hash ct of
        None \<Rightarrow> Panic ''coverage does not support EOF''
      | Some h \<Rightarrow>
          let h' = (if h = 0 then hash_slow (ct_bytecode ct) else h)
          in Ret (h', ct\<lparr>ct_hash := Some h'\<rparr>))"

definition insert_map :: "contract \<Rightarrow> CoverageCollector \<Rightarrow> CoverageCollector rust" where
  "insert_map ct c =
     (case ct_hash ct of
        None \<Rightarrow> Panic ''coverage does not support EOF''
      | Some h \<Rightarrow>
          Ret (c\<lparr>current_hash := h, current_map := Some h,
                 cc_maps := (if hm_get (cc_maps c) h = None
                             then hm_insert h (HitMap_new (ct_bytecode ct)) (cc_maps c) else cc_maps c)\<rparr>))"

definition initialize_interp ::
    "(u8 list \<Rightarrow> B256) \<Rightarrow> contract \<Rightarrow> CoverageCollector \<Rightarrow> (contract \<times> CoverageCollector) rust" where
  "initialize_interp hash_slow ct c =
     rbind (get_or_insert_contract_hash hash_slow ct) (\<lambda>(h, ct').
       rbind (insert_map ct' c) (\<lambda>c'. Ret (ct', c')))"

definition collector_step ::
    "(u8 list \<Rightarrow> B256) \<Rightarrow> contract \<Rightarrow> nat \<Rightarrow> CoverageCollector \<Rightarrow> (contract \<times> CoverageCollector) rust" where
  "collector_step hash_slow ct pc c =
     rbind (get_or_insert_contract_hash hash_slow ct) (\<lambda>(h, ct').
       rbind (if current_hash c \<noteq> h then insert_map ct' c else Ret c) (\<lambda>c'.
         rbind (rexpect (current_map c') ''dangling pointer'') (\<lambda>k.
           rbind (rexpect (hm_get (cc_maps c') k) ''dangling pointer'') (\<lambda>m.
             Ret (ct', c'\<lparr>cc_maps := hm_insert k (hitmap_hit (of_nat pc) m) (cc_maps c')\<rparr>)))))"

definition collector_finish :: "CoverageCollector \<Rightarrow> HitMaps" where
  "collector_finish c = cc_maps c"

text \<open>The collector during a run: contracts are entered and instructions executed.\<close>

datatype trace_event = Enter contract | Execute contract nat

fun collect_event :: "(u8 list \<Rightarrow> B256) \<Rightarrow> trace_event \<Rightarrow> CoverageCollector \<Rightarrow> CoverageCollector rust" where
  "collect_event hash_slow (Enter ct) c = rbind (initialize_interp hash_slow ct c) (\<lambda>(ct', c'). Ret c')"
| "collect_event hash_slow (Execute ct pc) c = rbind (collector_step hash_slow ct pc c) (\<lambda>(ct', c'). Ret c')"

fun collect_events :: "(u8 list \<Rightarrow> B256) \<Rightarrow> trace_event list \<Rightarrow> CoverageCollector \<Rightarrow> CoverageCollector rust" where
  "collect_events hash_slow [] c = Ret c"
| "collect_events hash_slow (e # es) c = rbind (collect_event hash_slow e c) (collect_events hash_slow es)"

definition code_hash :: "(u8 list \<Rightarrow> B256) \<Rightarrow> contract \<Rightarrow> B256" where
  "code_hash hash_slow ct =
     (case ct_hash ct of Some h \<Rightarrow> if h = 0 then hash_slow (ct_bytecode ct) else h | None \<Rightarrow> 0)"

fun event_contract :: "trace_event \<Rightarrow> contract" where
  "event_contract (Enter ct) = ct"
| "event_contract (Execute ct pc) = ct"

fun executes :: "(u8 list \<Rightarrow> B256) \<Rightarrow> B256 \<Rightarrow> u32 \<Rightarrow> trace_event \<Rightarrow> bool" where
  "executes hash_slow h pc (Enter ct) = False"
| "executes hash_slow h pc (Execute ct n) = (code_hash hash_slow ct = h \<and> of_nat n = pc)"

definition collector_inv :: "CoverageCollector \<Rightarrow> bool" where
  "collector_inv c =
     (maps_wf (cc_maps c) \<and>
      (case current_map c of
         None \<Rightarrow> current_hash c = 0
       | Some k \<Rightarrow> k = current_hash c \<and> hm_get (cc_maps c) k \<noteq> None))"

lemma maps_wf_insert: "maps_wf ms \<Longrightarrow> hm_wf (hit_counts m) \<Longrightarrow> maps_wf (hm_insert h m ms)"
  by (auto simp: maps_wf_def hm_simps)

lemma HitMap_new_simps [simp]: "hit_counts (HitMap_new code) = []" "hit_count (HitMap_new code) pc = 0"
  by (simp_all add: HitMap_new_def hit_count_def)

lemma hm_wf_hits [simp]: "hm_wf (hit_counts m) \<Longrightarrow> hm_wf (hit_counts (hitmap_hits pc n m))"
  by (simp add: hitmap_hits_def)

lemma insert_map_spec:
  assumes "collector_inv c" "ct_hash ct = Some h"
  obtains c' where "insert_map ct c = Ret c'" "collector_inv c'" "current_hash c' = h" "current_map c' = Some h"
    "\<And>h pc. maps_count (cc_maps c') h pc = maps_count (cc_maps c) h pc"
proof -
  let ?c = "c\<lparr>current_hash := h, current_map := Some h,
    cc_maps := (if hm_get (cc_maps c) h = None
                then hm_insert h (HitMap_new (ct_bytecode ct)) (cc_maps c) else cc_maps c)\<rparr>"
  have "insert_map ct c = Ret ?c" using assms(2) by (simp add: insert_map_def)
  moreover have "collector_inv ?c"
    using assms(1) by (auto simp: collector_inv_def hm_simps intro: maps_wf_insert)
  moreover have "maps_count (cc_maps ?c) h pc = maps_count (cc_maps c) h pc" for h pc
    by (auto simp: maps_count_def hm_simps)
  ultimately show thesis by (intro that [of ?c]) simp_all
qed

lemma collect_event_spec:
  assumes c: "collector_inv c" and ct: "ct_hash (event_contract e) \<noteq> None" "code_hash hash_slow (event_contract e) \<noteq> 0"
  obtains c' where "collect_event hash_slow e c = Ret c'" "collector_inv c'"
    "\<And>h pc. maps_count (cc_maps c') h pc = maps_count (cc_maps c) h pc + (if executes hash_slow h pc e then 1 else 0)"
proof -
  let ?ct = "event_contract e" let ?h = "code_hash hash_slow ?ct" let ?ct' = "?ct\<lparr>ct_hash := Some ?h\<rparr>"
  have g: "get_or_insert_contract_hash hash_slow ?ct = Ret (?h, ?ct')"
    using ct(1) by (auto simp: get_or_insert_contract_hash_def code_hash_def Let_def)
  from insert_map_spec [OF c, of ?ct' ?h] obtain c1 where c1: "insert_map ?ct' c = Ret c1" "collector_inv c1"
    "current_hash c1 = ?h" "current_map c1 = Some ?h" "\<And>h pc. maps_count (cc_maps c1) h pc = maps_count (cc_maps c) h pc"
    by auto
  show thesis
  proof (cases e)
    case (Enter ct)
    with g c1 show thesis by (intro that [of c1]) (auto simp: initialize_interp_def)
  next
    case (Execute ct n)
    define c2 where "c2 = (if current_hash c \<noteq> ?h then c1 else c)"
    have c2: "collector_inv c2" "current_hash c2 = ?h" "\<And>h pc. maps_count (cc_maps c2) h pc = maps_count (cc_maps c) h pc"
      using c c1 by (auto simp: c2_def)
    then obtain m where m: "current_map c2 = Some ?h" "hm_get (cc_maps c2) ?h = Some m" "maps_wf (cc_maps c2)"
      using ct(2) by (auto simp: collector_inv_def split: option.splits)
    let ?c3 = "c2\<lparr>cc_maps := hm_insert ?h (hitmap_hit (of_nat n) m) (cc_maps c2)\<rparr>"
    have "collect_event hash_slow e c = Ret ?c3"
      using Execute g c1(1) m by (auto simp: collector_step_def c2_def)
    moreover have "collector_inv ?c3"
      using m c2(2) by (auto simp: collector_inv_def hitmap_hit_def hm_simps maps_wf_def)
    moreover have "maps_count (cc_maps ?c3) h pc = maps_count (cc_maps c) h pc + (if executes hash_slow h pc e then 1 else 0)"
      for h pc
    proof -
      have "maps_count (cc_maps ?c3) h pc = maps_count (cc_maps c2) h pc + (if executes hash_slow h pc e then 1 else 0)"
        using m Execute by (auto simp: maps_count_def hm_simps hitmap_hit_def)
      then show ?thesis by (simp only: c2(3))
    qed
    ultimately show thesis by (rule that)
  qed
qed

lemma collect_events_spec:
  assumes "collector_inv c"
    and "\<forall>e \<in> set es. ct_hash (event_contract e) \<noteq> None \<and> code_hash hash_slow (event_contract e) \<noteq> 0"
  obtains c' where "collect_events hash_slow es c = Ret c'" "collector_inv c'"
    "\<And>h pc. maps_count (cc_maps c') h pc = maps_count (cc_maps c) h pc + of_nat (length (filter (executes hash_slow h pc) es))"
  using assms
proof (induction es arbitrary: c thesis)
  case (Cons e es)
  from Cons.prems(2,3) obtain c1 where c1: "collect_event hash_slow e c = Ret c1" "collector_inv c1"
    "\<And>h pc. maps_count (cc_maps c1) h pc = maps_count (cc_maps c) h pc + (if executes hash_slow h pc e then 1 else 0)"
    by (rule_tac collect_event_spec [of c e hash_slow]) auto
  from Cons.prems(3) have "\<forall>e \<in> set es. ct_hash (event_contract e) \<noteq> None \<and> code_hash hash_slow (event_contract e) \<noteq> 0"
    by simp
  from Cons.IH [OF _ c1(2) this] obtain c' where "collect_events hash_slow es c1 = Ret c'" "collector_inv c'"
    "\<And>h pc. maps_count (cc_maps c') h pc = maps_count (cc_maps c1) h pc + of_nat (length (filter (executes hash_slow h pc) es))"
    by blast
  then show ?case using c1 by (intro Cons.prems(1) [of c']) (auto simp: c1(3))
qed simp

text \<open>
  C12: Coverage counts executions: when two runs of contracts with known code hashes are
  collected and merged, the counter of an instruction is the number of times the two runs
  executed it, modulo \<open>2 ^ 32\<close>, however the hash tables are read. In particular the
  collector's pointer never dangles when it is used.
\<close>

theorem coverage_counts_executions:
  assumes "\<forall>e \<in> set (es @ es'). ct_hash (event_contract e) \<noteq> None \<and> code_hash hash_slow (event_contract e) \<noteq> 0"
    and "iteration_order it" "iteration_order itm"
  shows "\<exists>c c' ms. collect_events hash_slow es collector_default = Ret c \<and>
    collect_events hash_slow es' collector_default = Ret c' \<and>
    merge_opt it itm (Some (collector_finish c)) (Some (collector_finish c')) = Some ms \<and>
    (\<forall>h pc. maps_count ms h pc = of_nat (length (filter (executes hash_slow h pc) (es @ es'))))"
proof -
  have run: "\<exists>c. collect_events hash_slow xs collector_default = Ret c \<and> maps_wf (cc_maps c) \<and>
      (\<forall>h pc. maps_count (cc_maps c) h pc = of_nat (length (filter (executes hash_slow h pc) xs)))"
    if "set xs \<subseteq> set (es @ es')" for xs
  proof (rule collect_events_spec [of collector_default xs hash_slow])
    show "collector_inv collector_default"
      by (simp add: collector_inv_def collector_default_def maps_wf_def)
    show "\<forall>e \<in> set xs. ct_hash (event_contract e) \<noteq> None \<and> code_hash hash_slow (event_contract e) \<noteq> 0"
      using assms(1) that by blast
  qed (auto simp: collector_inv_def collector_default_def maps_count_def)
  from run [of es] run [of es'] obtain c c' where "collect_events hash_slow es collector_default = Ret c"
      "\<forall>h pc. maps_count (cc_maps c) h pc = of_nat (length (filter (executes hash_slow h pc) es))"
      "collect_events hash_slow es' collector_default = Ret c'" "maps_wf (cc_maps c')"
      "\<forall>h pc. maps_count (cc_maps c') h pc = of_nat (length (filter (executes hash_slow h pc) es'))"
    by auto
  then show ?thesis
    using maps_count_merge [OF assms(2,3)] by (auto simp: collector_finish_def)
qed

subsection \<open>Items and summaries\<close>

record SourceLocation =
  source_id :: nat
  contract_name :: string
  bytes_start :: u32
  bytes_end :: u32
  loc_lines :: "u32 \<times> u32"

definition loc_len :: "SourceLocation \<Rightarrow> u32" where
  "loc_len l = (if bytes_start l < bytes_end l then bytes_end l - bytes_start l else 0)"

datatype CoverageItemKind = Line | Statement | Branch u32 u32 bool | Function string

record CoverageItem =
  item_kind :: CoverageItemKind
  item_loc :: SourceLocation
  item_hits :: u32

record CoverageSummary =
  line_count :: nat
  line_hits :: nat
  statement_count :: nat
  statement_hits :: nat
  branch_count :: nat
  branch_hits :: nat
  function_count :: nat
  function_hits :: nat

definition summary_new :: CoverageSummary where
  "summary_new =
     \<lparr>line_count = 0, line_hits = 0, statement_count = 0, statement_hits = 0, branch_count = 0, branch_hits = 0,
      function_count = 0, function_hits = 0\<rparr>"

definition summary_merge :: "CoverageSummary \<Rightarrow> CoverageSummary \<Rightarrow> CoverageSummary" where
  "summary_merge other s =
     \<lparr>line_count = line_count s + line_count other, line_hits = line_hits s + line_hits other,
      statement_count = statement_count s + statement_count other,
      statement_hits = statement_hits s + statement_hits other,
      branch_count = branch_count s + branch_count other, branch_hits = branch_hits s + branch_hits other,
      function_count = function_count s + function_count other,
      function_hits = function_hits s + function_hits other\<rparr>"

definition add_item :: "CoverageItem \<Rightarrow> CoverageSummary \<Rightarrow> CoverageSummary" where
  "add_item item s =
     (let hit = (if 0 < item_hits item then 1 else 0)
      in case item_kind item of
           Line \<Rightarrow> s\<lparr>line_count := line_count s + 1, line_hits := line_hits s + hit\<rparr>
         | Statement \<Rightarrow> s\<lparr>statement_count := statement_count s + 1, statement_hits := statement_hits s + hit\<rparr>
         | Branch _ _ _ \<Rightarrow> s\<lparr>branch_count := branch_count s + 1, branch_hits := branch_hits s + hit\<rparr>
         | Function _ \<Rightarrow> s\<lparr>function_count := function_count s + 1, function_hits := function_hits s + hit\<rparr>)"

definition add_items :: "CoverageItem list \<Rightarrow> CoverageSummary \<Rightarrow> CoverageSummary" where
  "add_items items s = fold add_item items s"

definition from_items :: "CoverageItem list \<Rightarrow> CoverageSummary" where
  "from_items items = add_items items summary_new"

lemma add_item_merge: "add_item i (summary_merge a s) = summary_merge a (add_item i s)"
  by (cases "item_kind i") (simp_all add: add_item_def summary_merge_def Let_def)

lemma add_items_merge: "add_items xs (summary_merge a s) = summary_merge a (add_items xs s)"
  by (induction xs arbitrary: s) (simp_all add: add_items_def add_item_merge)

lemma from_items_append: "from_items (xs @ ys) = summary_merge (from_items xs) (from_items ys)"
proof -
  have "from_items xs = summary_merge (from_items xs) summary_new"
    by (simp add: summary_merge_def summary_new_def)
  then show ?thesis
    unfolding from_items_def using add_items_merge [of ys "from_items xs" summary_new]
    by (simp add: add_items_def from_items_def)
qed

lemma from_items_mset: "mset xs = mset ys \<Longrightarrow> from_items xs = from_items ys"
proof -
  have "add_item x \<circ> add_item y = add_item y \<circ> add_item x" for x y
    by (rule ext, cases "item_kind x"; cases "item_kind y") (simp_all add: add_item_def Let_def)
  then show "mset xs = mset ys \<Longrightarrow> from_items xs = from_items ys"
    unfolding from_items_def add_items_def
    by (rule_tac fun_cong [OF fold_multiset_equiv [of xs add_item ys]]) simp_all
qed

subsection \<open>The items of the sources\<close>

text \<open>
  The items of the contracts come in any order with the number of their source; they are
  sorted by source and position and laid out one after the other, and a table says where
  those of each source begin and how many there are.
\<close>

record SourceAnalysis =
  all_items :: "CoverageItem list"
  item_table :: "(u32 \<times> u32) list"

abbreviation no_offset :: u32 where "no_offset \<equiv> - 1"

definition analysis_default :: SourceAnalysis where
  "analysis_default = \<lparr>all_items = [], item_table = []\<rparr>"

definition analysis_key :: "nat \<times> CoverageItem list \<Rightarrow> nat \<times> u32 option" where
  "analysis_key = (\<lambda>(idx, items). (idx, case items of [] \<Rightarrow> None | i # _ \<Rightarrow> Some (bytes_start (item_loc i))))"

definition add_source_items :: "nat \<times> CoverageItem list \<Rightarrow> SourceAnalysis \<Rightarrow> SourceAnalysis" where
  "add_source_items = (\<lambda>(idx, items) a.
     (let (offset, len) = item_table a ! idx
      in a\<lparr>item_table := (item_table a)
             [idx := (if offset = no_offset then of_nat (length (all_items a)) else offset,
                      len + of_nat (length items))],
           all_items := all_items a @ items\<rparr>))"

definition analysis_new :: "(nat \<times> CoverageItem list) list \<Rightarrow> SourceAnalysis" where
  "analysis_new sourced_items =
     (let sorted_items = sort_key analysis_key sourced_items
      in if sorted_items = [] then analysis_default
         else fold add_source_items sorted_items
                \<lparr>all_items = [], item_table = replicate (fst (last sorted_items) + 1) (no_offset, 0)\<rparr>)"

definition items_for_source :: "nat \<Rightarrow> SourceAnalysis \<Rightarrow> (u32 \<times> CoverageItem list) rust" where
  "items_for_source src a =
     (let (offset0, len) = (if src < length (item_table a) then item_table a ! src else (0, 0));
          offset = (if offset0 = no_offset then 0 else offset0)
      in if unat offset + unat len \<le> length (all_items a)
         then Ret (offset, take (unat len) (drop (unat offset) (all_items a)))
         else Panic ''range end index out of range'')"

definition items_for_source_enumerated :: "nat \<Rightarrow> SourceAnalysis \<Rightarrow> (u32 \<times> CoverageItem) list rust" where
  "items_for_source_enumerated src a =
     rbind (items_for_source src a) (\<lambda>(base, items).
       Ret (map (\<lambda>(idx, item). (base + of_nat idx, item)) (enumerate 0 items)))"

text \<open>The items of a source, contract by contract.\<close>

definition source_items :: "nat \<Rightarrow> (nat \<times> CoverageItem list) list \<Rightarrow> CoverageItem list" where
  "source_items src ps = concat (map snd (filter (\<lambda>(idx, items). idx = src) ps))"

text \<open>
  While the sorted contracts are added, those of smaller sources come first: the items of a
  source begin after all items of smaller sources.
\<close>

definition before :: "nat \<Rightarrow> (nat \<times> CoverageItem list) list \<Rightarrow> nat" where
  "before src ps = length (concat (map snd (filter (\<lambda>(idx, items). idx < src) ps)))"

definition table_ok :: "(nat \<times> CoverageItem list) list \<Rightarrow> nat \<Rightarrow> SourceAnalysis \<Rightarrow> bool" where
  "table_ok ps n a =
     (all_items a = concat (map snd ps) \<and> length (item_table a) = n \<and>
      (\<forall>src < n. item_table a ! src =
         (if src \<in> fst ` set ps then of_nat (before src ps) else no_offset,
          of_nat (length (source_items src ps)))))"

lemma table_ok_add:
  assumes "table_ok ps n a" "sorted (map fst (ps @ [p]))" "fst p < n" "length (concat (map snd (ps @ [p]))) < 2 ^ 32 - 1"
  shows "table_ok (ps @ [p]) n (add_source_items p a)"
proof -
  obtain idx items where p: "p = (idx, items)" by (cases p)
  have le: "q \<in> set ps \<Longrightarrow> fst q \<le> idx" for q using assms(2) p by (auto simp: sorted_append)
  have before_le: "before idx ps \<le> length (concat (map snd ps))"
    unfolding before_def by (induction ps) auto
  have offset: "of_nat (before idx ps) \<noteq> no_offset"
  proof
    assume "of_nat (before idx ps) = no_offset"
    then have "unat (of_nat (before idx ps) :: u32) = 2 ^ 32 - 1" by (simp add: unat_minus_one_word_max)
    with before_le assms(4) show False by (simp add: unat_of_nat)
  qed
  have first: "before idx ps = length (all_items a)" if "idx \<notin> fst ` set ps"
  proof -
    have "filter (\<lambda>(i, items). i < idx) ps = ps"
      using le that by (force intro: filter_True simp: image_iff order_less_le)
    then show ?thesis using assms(1) by (simp add: before_def table_ok_def)
  qed
  have "item_table (add_source_items p a) ! src =
      (if src \<in> fst ` set (ps @ [p]) then of_nat (before src (ps @ [p])) else no_offset,
       of_nat (length (source_items src (ps @ [p]))))" if "src < n" for src
  proof (cases "src = idx")
    case True
    with assms(1) that offset first show ?thesis
      by (auto simp: table_ok_def add_source_items_def p before_def source_items_def Let_def)
  next
    case False
    moreover have "\<not> idx < src" if "src \<in> fst ` set ps" using le that by (force simp: not_less)
    ultimately show ?thesis
      using assms(1) that
      by (auto simp: table_ok_def add_source_items_def p before_def source_items_def Let_def split: prod.splits)
  qed
  with assms(1) show ?thesis
    by (simp add: table_ok_def add_source_items_def p Let_def split: prod.splits)
qed

lemma table_ok_fold:
  assumes "table_ok ps n a" "sorted (map fst (ps @ qs))" "\<forall>q \<in> set qs. fst q < n"
    and "length (concat (map snd (ps @ qs))) < 2 ^ 32 - 1"
  shows "table_ok (ps @ qs) n (fold add_source_items qs a)"
  using assms
proof (induction qs arbitrary: ps a)
  case (Cons q qs)
  have "table_ok (ps @ [q]) n (add_source_items q a)"
    using Cons.prems by (intro table_ok_add) (auto simp: sorted_append)
  with Cons.IH [of "ps @ [q]"] Cons.prems show ?case by simp
qed simp

lemma length_concat_sort: "length (concat (map snd (sort_key f xs))) = length (concat (map snd xs))"
  unfolding length_concat by (rule sum_list_mset_eq) simp

lemma sorted_analysis_key: "sorted (map fst (sort_key analysis_key xs))"
proof -
  have "sorted_wrt (\<lambda>x y. analysis_key x \<le> analysis_key y) (sort_key analysis_key xs)"
    using sorted_sort_key [of analysis_key xs] by (simp add: sorted_wrt_map)
  then have "sorted_wrt (\<lambda>x y. fst x \<le> fst y) (sort_key analysis_key xs)"
    by (rule sorted_wrt_mono_rel [rotated]) (auto simp: analysis_key_def less_eq_prod_def)
  then show ?thesis by (simp add: sorted_wrt_map)
qed

lemma concat_by_source:
  assumes "sorted (map fst ps)"
  shows "concat (map snd ps) = concat (map snd (filter (\<lambda>(idx, items). idx < src) ps)) @ source_items src ps @
    concat (map snd (filter (\<lambda>(idx, items). src < idx) ps))"
  using assms
proof (induction ps)
  case (Cons p ps)
  obtain idx items where p: "p = (idx, items)" by (cases p)
  have ge: "q \<in> set ps \<Longrightarrow> idx \<le> fst q" for q using Cons.prems p by auto
  have "filter (\<lambda>(i, items). i < src) ps = []" if "src \<le> idx"
    using ge that by (force simp: filter_empty_conv)
  moreover have "filter (\<lambda>(i, items). i = src) ps = []" if "src < idx"
    using ge that by (force simp: filter_empty_conv)
  ultimately show ?case
    using Cons p by (cases idx src rule: linorder_cases) (auto simp: source_items_def)
qed (simp add: source_items_def)

lemma analysis_new_table:
  assumes "length (concat (map snd xs)) < 2 ^ 32 - 1"
  obtains n where "table_ok (sort_key analysis_key xs) n (analysis_new xs)"
    "\<And>src. n \<le> src \<Longrightarrow> source_items src (sort_key analysis_key xs) = []"
proof (cases "xs = []")
  case True
  then show thesis
    by (intro that [of 0]) (simp_all add: analysis_new_def Let_def table_ok_def analysis_default_def source_items_def)
next
  case False
  let ?ps = "sort_key analysis_key xs" let ?n = "fst (last ?ps) + 1"
  from False have ne: "?ps \<noteq> []" by (metis length_sort length_0_conv)
  then obtain ys y where ps: "?ps = ys @ [y]" by (metis append_butlast_last_id)
  have le: "fst q < ?n" if "q \<in> set ?ps" for q
    using sorted_analysis_key [of xs] that unfolding ps by (auto simp: sorted_append)
  have len: "length (concat (map snd ?ps)) = length (concat (map snd xs))"
    by (rule length_concat_sort)
  have "table_ok ([] @ ?ps) ?n (fold add_source_items ?ps \<lparr>all_items = [], item_table = replicate ?n (no_offset, 0)\<rparr>)"
    using sorted_analysis_key le len assms
    by (intro table_ok_fold) (simp_all add: table_ok_def source_items_def nth_append del: replicate_Suc)
  moreover have "source_items src ?ps = []" if "?n \<le> src" for src
    using le that by (force simp: source_items_def filter_empty_conv)
  ultimately show thesis using ne by (intro that [of ?n]) (simp_all add: analysis_new_def Let_def)
qed


definition sample_item :: "nat \<Rightarrow> u32 \<Rightarrow> CoverageItem" where
  "sample_item src start =
     \<lparr>item_kind = Statement,
      item_loc = \<lparr>source_id = src, contract_name = ''C'', bytes_start = start, bytes_end = start + 5, loc_lines = (1, 2)\<rparr>,
      item_hits = 0\<rparr>"


theorem coverage_counts_executions_witness:
  "\<exists>c c' ms. collect_events (\<lambda>_. 7) [Enter \<lparr>ct_hash = Some 0, ct_bytecode = [1]\<rparr>, Execute \<lparr>ct_hash = Some 0, ct_bytecode = [1]\<rparr> 4]
      collector_default = Ret c \<and>
    collect_events (\<lambda>_. 7) [Execute \<lparr>ct_hash = Some 7, ct_bytecode = [1]\<rparr> 4] collector_default = Ret c' \<and>
    merge_opt rev rev (Some (collector_finish c)) (Some (collector_finish c')) = Some ms \<and> maps_count ms 7 4 = 2"
  using coverage_counts_executions [of
      "[Enter \<lparr>ct_hash = Some 0, ct_bytecode = [1]\<rparr>, Execute \<lparr>ct_hash = Some 0, ct_bytecode = [1]\<rparr> 4]"
      "[Execute \<lparr>ct_hash = Some 7, ct_bytecode = [1]\<rparr> 4]" "\<lambda>_. 7" rev rev]
  by (auto simp: code_hash_def)

end
