(* ===== verification/Rust_Str.thy ===== *)
theory Rust_Str
  imports Rust_Prelude "HOL-Library.Sublist"
begin

text \<open>
  Strings of Rust: the operations of \<^verbatim>\<open>str\<close> that the components use. A string is a list
  of HOL characters; offsets count the bytes of its UTF-8 encoding, so a character above
  127 counts two.
\<close>

definition len_utf8 :: "char \<Rightarrow> nat" where
  "len_utf8 c = (if (of_char c :: nat) < 128 then 1 else 2)"

abbreviation newline :: char where "newline \<equiv> CHR 0x0A"

definition is_whitespace :: "char \<Rightarrow> bool" where
  "is_whitespace c = (let n = of_char c :: nat in 9 \<le> n \<and> n \<le> 13 \<or> n = 32 \<or> n = 0x85 \<or> n = 0xA0)"

definition trim_start :: "string \<Rightarrow> string" where
  "trim_start s = dropWhile is_whitespace s"

definition trim_end :: "string \<Rightarrow> string" where
  "trim_end s = rev (dropWhile is_whitespace (rev s))"

definition strip_prefix :: "string \<Rightarrow> string \<Rightarrow> string option" where
  "strip_prefix p s = (if prefix p s then Some (drop (length p) s) else None)"

definition strip_suffix :: "string \<Rightarrow> string \<Rightarrow> string option" where
  "strip_suffix p s = (if suffix p s then Some (take (length s - length p) s) else None)"

text \<open>\<^verbatim>\<open>str::lines\<close>: a carriage return before the newline belongs to the end of the line.\<close>

definition strip_return :: "string \<Rightarrow> string" where
  "strip_return l = (case strip_suffix [CHR 0x0D] l of Some l' \<Rightarrow> l' | None \<Rightarrow> l)"

fun split_lines :: "string \<Rightarrow> string \<Rightarrow> string list" where
  "split_lines acc [] = (if acc = [] then [] else [rev acc])"
| "split_lines acc (c # cs) =
     (if c = newline then strip_return (rev acc) # split_lines [] cs else split_lines (c # acc) cs)"

definition str_lines :: "string \<Rightarrow> string list" where
  "str_lines s = split_lines [] s"

text \<open>Slices by byte offsets.\<close>

fun byte_take :: "nat \<Rightarrow> string \<Rightarrow> string" where
  "byte_take n [] = []"
| "byte_take n (c # cs) = (if n = 0 then [] else c # byte_take (n - len_utf8 c) cs)"

fun byte_drop :: "nat \<Rightarrow> string \<Rightarrow> string" where
  "byte_drop n [] = []"
| "byte_drop n (c # cs) = (if n = 0 then c # cs else byte_drop (n - len_utf8 c) cs)"

text \<open>A slice that starts or ends inside a character panics.\<close>

fun str_from :: "nat \<Rightarrow> string \<Rightarrow> string rust" where
  "str_from n [] = (if n = 0 then Ret [] else Panic ''byte index is out of bounds'')"
| "str_from n (c # cs) =
     (if n = 0 then Ret (c # cs)
      else if len_utf8 c \<le> n then str_from (n - len_utf8 c) cs
      else Panic ''byte index is not a char boundary'')"

fun str_upto :: "nat \<Rightarrow> string \<Rightarrow> string rust" where
  "str_upto n [] = (if n = 0 then Ret [] else Panic ''byte index is out of bounds'')"
| "str_upto n (c # cs) =
     (if n = 0 then Ret []
      else if len_utf8 c \<le> n then rbind (str_upto (n - len_utf8 c) cs) (\<lambda>r. Ret (c # r))
      else Panic ''byte index is not a char boundary'')"

definition str_slice :: "nat \<Rightarrow> nat \<Rightarrow> string \<Rightarrow> string rust" where
  "str_slice a b s =
     (if b < a then Panic ''slice index starts after its end'' else rbind (str_from a s) (str_upto (b - a)))"

definition byte_slice :: "string \<Rightarrow> nat \<Rightarrow> nat \<Rightarrow> string" where
  "byte_slice s a b = byte_take (b - a) (byte_drop a s)"

definition byte_len :: "string \<Rightarrow> nat" where
  "byte_len s = sum_list (map len_utf8 s)"

lemma byte_len_simps [simp]:
  "byte_len [] = 0" "byte_len (c # s) = len_utf8 c + byte_len s" "byte_len (s @ t) = byte_len s + byte_len t"
  by (simp_all add: byte_len_def)

lemma len_utf8_pos [simp]: "0 < len_utf8 c" "len_utf8 c \<noteq> 0"
  by (simp_all add: len_utf8_def)

lemma byte_take_0 [simp]: "byte_take 0 s = []"
  by (cases s) simp_all

lemma byte_drop_0 [simp]: "byte_drop 0 s = s"
  by (cases s) simp_all

lemma byte_take_append [simp]: "byte_take (byte_len s) (s @ t) = s"
  by (induction s) simp_all

lemma byte_drop_append [simp]: "byte_drop (byte_len s) (s @ t) = t"
  by (induction s) simp_all

lemma byte_slice_append:
  "a = byte_len p \<Longrightarrow> b = byte_len p + byte_len s \<Longrightarrow> byte_slice (p @ s @ t) a b = s"
  by (simp add: byte_slice_def)

end
