(* ===== verification/Coverage_Visitor.thy ===== *)
theory Coverage_Visitor
  imports Coverage Rust_Str
begin

text \<open>
  The visitor that finds the coverage items of a contract
  (\<^verbatim>\<open>evm/coverage/src/analysis.rs\<close>, \<^verbatim>\<open>ContractVisitor\<close>), the classification of test functions
  (\<^verbatim>\<open>common/src/traits.rs\<close>) and the analysis of a set of source files.

  A node of the syntax tree is what the compiler library gives for it: its type, its place in
  the source, its children, its body and its further attributes by name, each of them a
  node, a list of nodes or a string. Reading an attribute at another type gives nothing.
  Offsets are 64-bit words. The counter of branches is unbounded, and the items hold its low
  32 bits, which are the value of the wrapping counter of the code. A visit that fails gives
  no items, so the state of the visitor is part of the success value only.
\<close>

subsection \<open>The syntax tree\<close>

datatype NodeType =
  Block | UncheckedBlock | YulBlock | InlineAssembly | Break | Continue | EmitStatement | RevertStatement |
  YulAssignment | YulBreak | YulContinue | YulLeave | YulVariableDeclaration | PlaceholderStatement | Return |
  VariableDeclarationStatement | DoWhileStatement | WhileStatement | ForStatement | ExpressionStatement |
  YulExpressionStatement | IfStatement | YulIf | TryStatement | YulSwitch | YulForLoop | YulFunctionDefinition |
  Assignment | UnaryOperation | Conditional | YulFunctionCall | FunctionCall | BinaryOperation | FunctionCallOptions |
  Identifier | IndexAccess | IndexRangeAccess | Literal | YulLiteralValue | YulIdentifier | FunctionDefinition |
  ModifierDefinition | ContractDefinition | OtherNode

record src_location =
  sl_start :: u64
  sl_length :: "u64 option"

datatype Node = Node (node_type: NodeType) (node_src: src_location) (nodes: "Node list") (node_body: "Node option")
    (attributes: "(string \<times> attribute) list")
  and attribute = ANode Node | ANodes "Node list" | AString string

definition attr_node :: "string \<Rightarrow> Node \<Rightarrow> Node option" where
  "attr_node key n = (case map_of (attributes n) key of Some (ANode m) \<Rightarrow> Some m | _ \<Rightarrow> None)"

definition attr_nodes :: "string \<Rightarrow> Node \<Rightarrow> Node list option" where
  "attr_nodes key n = (case map_of (attributes n) key of Some (ANodes ms) \<Rightarrow> Some ms | _ \<Rightarrow> None)"

definition attr_string :: "string \<Rightarrow> Node \<Rightarrow> string option" where
  "attr_string key n = (case map_of (attributes n) key of Some (AString s) \<Rightarrow> Some s | _ \<Rightarrow> None)"

lemma size_map_of:
  "map_of ys k = Some a \<Longrightarrow> size a < Suc (size_list (size_prod (\<lambda>x. 0) size) ys)"
  by (induction ys) (auto split: if_splits)

lemma size_attr_node: "attr_node key n = Some m \<Longrightarrow> size m < size n"
  using size_map_of [of "attributes n" key "ANode m"]
  by (cases n) (auto simp: attr_node_def split: option.splits attribute.splits)

lemma size_attr_nodes: "attr_nodes key n = Some ms \<Longrightarrow> m \<in> set ms \<Longrightarrow> size m < size n"
  using size_map_of [of "attributes n" key "ANodes ms"] size_list_estimation' [of m ms "size m" size]
  by (cases n) (auto simp: attr_nodes_def split: option.splits attribute.splits)

lemma size_node_body: "node_body n = Some m \<Longrightarrow> size m < size n"
  by (cases n) auto

subsection \<open>The visitor\<close>

record ContractVisitor =
  cv_source_id :: u32
  cv_source :: string
  cv_contract_name :: string
  branch_id :: nat
  last_line :: u32
  cv_items :: "CoverageItem list"

type_synonym 's visit = "(string + 's) rust"

definition ContractVisitor_new :: "nat \<Rightarrow> string \<Rightarrow> string \<Rightarrow> ContractVisitor rust" where
  "ContractVisitor_new src source name =
     (if src < 2 ^ 32
      then Ret \<lparr>cv_source_id = of_nat src, cv_source = source, cv_contract_name = name, branch_id = 0, last_line = 0, cv_items = []\<rparr>
      else Panic ''too many sources'')"

definition source_location_for :: "src_location \<Rightarrow> ContractVisitor \<Rightarrow> SourceLocation rust" where
  "source_location_for loc v =
     (let start = (ucast (sl_start loc) :: u32);
          end' = (ucast (sl_start loc + (case sl_length loc of Some n \<Rightarrow> n | None \<Rightarrow> 0)) :: u32)
      in rbind (str_upto (unat start) (cv_source v)) (\<lambda>before.
           rbind (str_slice (unat start) (unat end') (cv_source v)) (\<lambda>inside.
             let start_line = (of_nat (length (str_lines before)) :: u32); n_lines = (of_nat (length (str_lines inside)) :: u32)
             in Ret \<lparr>source_id = unat (cv_source_id v), contract_name = cv_contract_name v, bytes_start = start,
                     bytes_end = end', loc_lines = (start_line, start_line + n_lines)\<rparr>)))"

definition push_item :: "CoverageItem \<Rightarrow> ContractVisitor \<Rightarrow> ContractVisitor" where
  "push_item item v =
     (let start = fst (loc_lines (item_loc item));
          v1 = (if last_line v < start
                then v\<lparr>cv_items := cv_items v @ [\<lparr>item_kind = Line, item_loc = item_loc item, item_hits = 0\<rparr>], last_line := start\<rparr>
                else v)
      in v1\<lparr>cv_items := cv_items v1 @ [item]\<rparr>)"

definition push_item_kind :: "CoverageItemKind \<Rightarrow> src_location \<Rightarrow> ContractVisitor \<Rightarrow> ContractVisitor visit" where
  "push_item_kind kind src v =
     rbind (source_location_for src v) (\<lambda>loc.
       Ret (Inr (push_item \<lparr>item_kind = kind, item_loc = loc, item_hits = 0\<rparr> v)))"

definition branch :: "nat \<Rightarrow> nat \<Rightarrow> bool \<Rightarrow> CoverageItemKind" where
  "branch b path first = Branch (of_nat b) (of_nat path) first"

definition has_statements :: "Node \<Rightarrow> bool" where
  "has_statements n =
     (if node_type n \<in> {DoWhileStatement, EmitStatement, ExpressionStatement, ForStatement, IfStatement, RevertStatement,
           TryStatement, VariableDeclarationStatement, WhileStatement}
      then True
      else case attr_nodes ''statements'' n of Some ss \<Rightarrow> ss \<noteq> [] | None \<Rightarrow> False)"

definition block_statements :: "Node \<Rightarrow> Node list" where
  "block_statements n = (case attr_nodes ''statements'' n of Some ss \<Rightarrow> ss | None \<Rightarrow> [])"

lemma size_block_statements: "m \<in> set (block_statements n) \<Longrightarrow> size m < size n"
  by (cases "attr_nodes ''statements'' n") (auto simp: block_statements_def size_attr_nodes)

text \<open>Loops over nodes and optional nodes that stop at the first error.\<close>

fun visit_all :: "('n \<Rightarrow> 's \<Rightarrow> 's visit) \<Rightarrow> 'n list \<Rightarrow> 's \<Rightarrow> 's visit" where
  "visit_all f [] v = Ret (Inr v)"
| "visit_all f (n # ns) v = rtry (f n v) (visit_all f ns)"

definition visit_opt :: "('n \<Rightarrow> 's \<Rightarrow> 's visit) \<Rightarrow> 'n option \<Rightarrow> 's \<Rightarrow> 's visit" where
  "visit_opt f m v = (case m of Some n \<Rightarrow> f n v | None \<Rightarrow> Ret (Inr v))"

definition visit_req :: "string \<Rightarrow> ('n \<Rightarrow> 's \<Rightarrow> 's visit) \<Rightarrow> 'n option \<Rightarrow> 's \<Rightarrow> 's visit" where
  "visit_req msg f m v = (case m of Some n \<Rightarrow> f n v | None \<Rightarrow> Ret (Inl msg))"

lemma visit_all_cong [fundef_cong]:
  "xs = ys \<Longrightarrow> v = w \<Longrightarrow> (\<And>x u. x \<in> set ys \<Longrightarrow> f x u = g x u) \<Longrightarrow> visit_all f xs v = visit_all g ys w"
proof (induction xs arbitrary: ys v w)
  case (Cons x xs)
  then show ?case by (auto intro!: arg_cong2 [where f = rtry] ext)
qed auto

lemma visit_opt_cong [fundef_cong]:
  "m = m' \<Longrightarrow> v = w \<Longrightarrow> (\<And>x. m' = Some x \<Longrightarrow> f x w = g x w) \<Longrightarrow> visit_opt f m v = visit_opt g m' w"
  by (auto simp: visit_opt_def split: option.split)

lemma visit_req_cong [fundef_cong]:
  "m = m' \<Longrightarrow> v = w \<Longrightarrow> (\<And>x. m' = Some x \<Longrightarrow> f x w = g x w) \<Longrightarrow> visit_req msg f m v = visit_req msg g m' w"
  by (auto simp: visit_req_def split: option.split)

lemma rtry_cong [fundef_cong]:
  "m = m' \<Longrightarrow> (\<And>x. m' = Ret (Inr x) \<Longrightarrow> f x = g x) \<Longrightarrow> rtry m f = rtry m' g"
  by (cases m') (auto simp: rtry_def split: sum.split)

function visit_expression :: "Node \<Rightarrow> ContractVisitor \<Rightarrow> ContractVisitor visit" where
  "visit_expression n v =
     (if node_type n \<in> {Assignment, UnaryOperation, Conditional, YulFunctionCall} then push_item_kind Statement (node_src n) v
      else if node_type n = FunctionCall then
        (if attr_string ''kind'' n = Some ''functionCall'' then
           rtry (push_item_kind Statement (node_src n) v) (\<lambda>v1.
             (case attr_node ''expression'' n of
                Some expr \<Rightarrow>
                  if node_type expr = Identifier \<and> attr_string ''name'' expr = Some ''require'' then
                    (let b = branch_id v1
                     in rtry (push_item_kind (branch b 0 False) (node_src n) (v1\<lparr>branch_id := b + 1\<rparr>))
                          (push_item_kind (branch b 1 False) (node_src n)))
                  else Ret (Inr v1)
              | None \<Rightarrow> Ret (Inr v1)))
         else Ret (Inr v))
      else if node_type n = BinaryOperation then
        rtry (push_item_kind Statement (node_src n) v) (\<lambda>v1.
          rtry (visit_opt visit_expression (attr_node ''leftExpression'' n) v1)
            (visit_opt visit_expression (attr_node ''rightExpression'' n)))
      else Ret (Inr v))"
  by pat_completeness auto
termination
  by (relation "measure (size \<circ> fst)") (auto dest: size_attr_node)

declare visit_expression.simps [simp del]

text \<open>
  The longer cases of a statement, with the visits of the smaller nodes as arguments.
\<close>

type_synonym visitor = "Node \<Rightarrow> ContractVisitor \<Rightarrow> ContractVisitor visit"

definition visit_if :: "visitor \<Rightarrow> visitor" where
  "visit_if visit_body n v =
     rtry (visit_req ''if statement had no condition'' visit_expression (attr_node ''condition'' n) v)
       (visit_req ''if statement had no true body'' (\<lambda>true_body v1.
          let b = branch_id v1; v2 = v1\<lparr>branch_id := b + 1\<rparr>
          in case attr_node ''falseBody'' n of
               Some false_body \<Rightarrow>
                 if has_statements true_body \<or> has_statements false_body then
                   rtry (push_item_kind (branch b 0 True) (node_src true_body) v2) (\<lambda>v3.
                     rtry (push_item_kind (branch b 1 False)
                             \<lparr>sl_start = sl_start (node_src n),
                              sl_length = map_option (\<lambda>len. sl_start (node_src false_body) - sl_start (node_src true_body) + len)
                                (sl_length (node_src false_body))\<rparr> v3) (\<lambda>v4.
                       rtry (visit_body true_body v4) (visit_body false_body)))
                 else Ret (Inr v2)
             | None \<Rightarrow>
                 if has_statements true_body then
                   rtry (push_item_kind (branch b 0 True) (node_src true_body) v2) (visit_body true_body)
                 else Ret (Inr v2))
          (attr_node ''trueBody'' n))"

definition catch_clause :: "visitor \<Rightarrow> visitor \<Rightarrow> nat \<Rightarrow> Node \<Rightarrow> nat \<times> ContractVisitor \<Rightarrow> (nat \<times> ContractVisitor) visit" where
  "catch_clause visit_body visit_stmt b clause = (\<lambda>(path, v).
     case attr_node ''block'' clause of
       None \<Rightarrow> Ret (Inr (path, v))
     | Some catch_block \<Rightarrow>
         if has_statements catch_block then
           rtry (push_item_kind (branch b path True) (node_src catch_block) v) (\<lambda>v1.
             rtry (visit_body catch_block v1) (\<lambda>v2. Ret (Inr (path + 1, v2))))
         else if attr_node ''parameters'' clause \<noteq> None then
           rtry (push_item_kind Statement (node_src clause) v) (\<lambda>v1.
             rtry (visit_stmt clause v1) (\<lambda>v2. Ret (Inr (path, v2))))
         else Ret (Inr (path, v)))"

definition visit_try :: "visitor \<Rightarrow> visitor \<Rightarrow> visitor" where
  "visit_try visit_body visit_stmt n v =
     rtry (visit_req ''try statement had no call'' visit_expression (attr_node ''externalCall'' n) v) (\<lambda>v1.
       let b = branch_id v1; v2 = v1\<lparr>branch_id := b + 1\<rparr>
       in case attr_nodes ''clauses'' n of
            None \<Rightarrow> Ret (Inl ''try statement had no clauses'')
          | Some [] \<Rightarrow> Panic ''removal index (is 0) should be < len (is 0)''
          | Some (clause0 # clauses) \<Rightarrow>
              visit_req ''try statement had no block'' (\<lambda>try_block v3.
                rtry (push_item_kind (branch b 0 True)
                        \<lparr>sl_start = sl_start (node_src n),
                         sl_length = map_option (\<lambda>len. sl_start (node_src try_block) + len - sl_start (node_src n))
                           (sl_length (node_src try_block))\<rparr> v3) (\<lambda>v4.
                  rtry (visit_body try_block v4) (\<lambda>v5.
                    rtry (visit_all (catch_clause visit_body visit_stmt b) clauses (1, v5)) (\<lambda>(path, v6). Ret (Inr v6)))))
                (attr_node ''block'' clause0) v2)"

lemma visit_if_cong [fundef_cong]:
  assumes "n = n'" "v = v'" "\<And>m u. size m < size n' \<Longrightarrow> f m u = g m u"
  shows "visit_if f n v = visit_if g n' v'"
  unfolding visit_if_def assms(1,2)
  by (intro rtry_cong visit_req_cong refl)
     (auto simp: Let_def assms(3) size_attr_node split: option.split intro!: rtry_cong)

lemma catch_clause_cong:
  assumes "size c < size n" "\<And>m u. size m < size n \<Longrightarrow> f m u = f' m u" "\<And>m u. size m < size n \<Longrightarrow> g m u = g' m u"
  shows "catch_clause f g b c pv = catch_clause f' g' b c pv"
proof (cases "attr_node ''block'' c")
  case (Some m)
  then have "size m < size n" using assms(1) size_attr_node by fastforce
  with Some assms show ?thesis by (cases pv) (simp add: catch_clause_def)
qed (cases pv, simp add: catch_clause_def)

lemma visit_try_cong [fundef_cong]:
  assumes "n = n'" "v = v'" "\<And>m u. size m < size n' \<Longrightarrow> f m u = f' m u" "\<And>m u. size m < size n' \<Longrightarrow> g m u = g' m u"
  shows "visit_try f g n v = visit_try f' g' n' v'"
proof -
  have "visit_all (catch_clause f g b) cs pv = visit_all (catch_clause f' g' b) cs pv"
    if "\<forall>c \<in> set cs. size c < size n'" for b cs pv
    using that catch_clause_cong [of _ n' f f' g g'] assms(3,4) by (intro visit_all_cong refl) blast
  moreover have "size c < size n'" if "attr_nodes ''clauses'' n' = Some cs" "c \<in> set cs" for cs c
    using that by (rule size_attr_nodes)
  moreover have "size m < size n'" if "attr_nodes ''clauses'' n' = Some (c # cs)" "attr_node ''block'' c = Some m" for c cs m
    using size_attr_nodes [OF that(1), of c] size_attr_node [OF that(2)] by simp
  ultimately show ?thesis
    unfolding visit_try_def assms(1,2)
    by (intro rtry_cong refl)
       (auto simp: Let_def assms(3) visit_req_def split: option.split list.split intro!: rtry_cong)
qed

function visit_block :: "Node \<Rightarrow> ContractVisitor \<Rightarrow> ContractVisitor visit"
  and visit_statement :: "Node \<Rightarrow> ContractVisitor \<Rightarrow> ContractVisitor visit"
  and visit_block_or_statement :: "Node \<Rightarrow> ContractVisitor \<Rightarrow> ContractVisitor visit"
  and visit_modifier_or_yul_fn_definition :: "Node \<Rightarrow> ContractVisitor \<Rightarrow> ContractVisitor visit"
where
  "visit_block n v = visit_all visit_statement (block_statements n) v"
| "visit_statement n v =
     (if node_type n \<in> {Block, UncheckedBlock, YulBlock} then visit_block n v
      else if node_type n = InlineAssembly then
        visit_req ''inline assembly block with no AST attribute'' visit_block (attr_node ''AST'' n) v
      else if node_type n \<in> {Break, Continue, EmitStatement, RevertStatement, YulAssignment, YulBreak, YulContinue,
          YulLeave, YulVariableDeclaration} then push_item_kind Statement (node_src n) v
      else if node_type n = PlaceholderStatement then Ret (Inr v)
      else if node_type n = Return then
        rtry (push_item_kind Statement (node_src n) v) (visit_opt visit_expression (attr_node ''expression'' n))
      else if node_type n = VariableDeclarationStatement then
        rtry (push_item_kind Statement (node_src n) v) (visit_opt visit_expression (attr_node ''initialValue'' n))
      else if node_type n \<in> {DoWhileStatement, WhileStatement} then
        rtry (visit_req ''while statement had no condition'' visit_expression (attr_node ''condition'' n) v)
          (visit_req ''while statement had no body node'' visit_block_or_statement (node_body n))
      else if node_type n = ForStatement then
        rtry (visit_opt visit_statement (attr_node ''initializationExpression'' n) v) (\<lambda>v1.
          rtry (visit_opt visit_expression (attr_node ''condition'' n) v1) (\<lambda>v2.
            rtry (visit_opt visit_statement (attr_node ''loopExpression'' n) v2)
              (visit_req ''for statement had no body node'' visit_block_or_statement (node_body n))))
      else if node_type n \<in> {ExpressionStatement, YulExpressionStatement} then
        visit_req ''expression statement had no expression'' visit_expression (attr_node ''expression'' n) v
      else if node_type n = IfStatement then visit_if visit_block_or_statement n v
      else if node_type n = YulIf then
        rtry (visit_req ''yul if statement had no condition'' visit_expression (attr_node ''condition'' n) v)
          (visit_req ''yul if statement had no body'' (\<lambda>body v1.
             let b = branch_id v1
             in rtry (push_item_kind (branch b 0 False) (node_src n) (v1\<lparr>branch_id := b + 1\<rparr>)) (visit_block body))
             (node_body n))
      else if node_type n = TryStatement then visit_try visit_block visit_statement n v
      else if node_type n = YulSwitch then
        (case attr_nodes ''cases'' n of
           None \<Rightarrow> Ret (Inl ''yul switch had no case'')
         | Some cases \<Rightarrow>
             visit_all (\<lambda>yul_case v1.
               rtry (push_item_kind Statement (node_src yul_case) v1) (\<lambda>v2.
                 rtry (visit_statement yul_case v2)
                   (visit_opt (\<lambda>body v3. rtry (push_item_kind Statement (node_src body) v3) (visit_block body))
                      (node_body yul_case)))) cases v)
      else if node_type n = YulForLoop then
        rtry (visit_opt visit_expression (attr_node ''condition'' n) v) (\<lambda>v1.
          rtry (visit_opt visit_block (attr_node ''pre'' n) v1) (\<lambda>v2.
            rtry (visit_opt visit_block (attr_node ''post'' n) v2)
              (visit_opt (\<lambda>body v3. rtry (push_item_kind Statement (node_src body) v3) (visit_block body)) (node_body n))))
      else if node_type n = YulFunctionDefinition then visit_modifier_or_yul_fn_definition n v
      else Ret (Inr v))"
| "visit_block_or_statement n v =
     (if node_type n = Block then visit_block n v
      else if node_type n \<in> {Break, Continue, DoWhileStatement, EmitStatement, ExpressionStatement, ForStatement,
          IfStatement, InlineAssembly, Return, RevertStatement, TryStatement, VariableDeclarationStatement,
          YulVariableDeclaration, WhileStatement} then visit_statement n v
      else Ret (Inr v))"
| "visit_modifier_or_yul_fn_definition n v =
     (case attr_string ''name'' n of
        None \<Rightarrow> Ret (Inl ''Modifier has no name'')
      | Some name \<Rightarrow>
          visit_opt (\<lambda>body v1. rtry (push_item_kind (Function name) (node_src n) v1) (visit_block body)) (node_body n) v)"
  by pat_completeness auto
termination
  by (relation "measure (\<lambda>x. case x of
      Inl (Inl (n, _)) \<Rightarrow> 3 * size n | Inl (Inr (n, _)) \<Rightarrow> 3 * size n + 1
    | Inr (Inl (n, _)) \<Rightarrow> 3 * size n + 2 | Inr (Inr (n, _)) \<Rightarrow> 3 * size n)")
     (auto dest!: size_attr_node size_node_body size_attr_nodes size_block_statements)

declare visit_block.simps [simp del] visit_statement.simps [simp del] visit_block_or_statement.simps [simp del]
  visit_modifier_or_yul_fn_definition.simps [simp del]

definition visit_function_definition :: "Node \<Rightarrow> ContractVisitor \<Rightarrow> ContractVisitor visit" where
  "visit_function_definition n v =
     visit_opt (\<lambda>body v1.
       case (attr_string ''name'' n, attr_string ''kind'' n) of
         (None, _) \<Rightarrow> Ret (Inl ''Function has no name'')
       | (_, None) \<Rightarrow> Ret (Inl ''Function has no kind'')
       | (Some name, Some kind) \<Rightarrow>
           if kind \<noteq> ''function'' \<and> \<not> has_statements body then Ret (Inr v1)
           else rtry (push_item_kind (Function (if name = [] then kind else name)) (node_src n) v1) (visit_block body))
       (node_body n) v"

definition visit_contract :: "Node \<Rightarrow> ContractVisitor \<Rightarrow> ContractVisitor visit" where
  "visit_contract n v =
     visit_all (\<lambda>m v1.
       if node_type m = FunctionDefinition then visit_function_definition m v1
       else if node_type m = ModifierDefinition then visit_modifier_or_yul_fn_definition m v1
       else Ret (Inr v1)) (nodes n) v"

subsection \<open>The analysis of the sources\<close>

datatype TestFunctionKind =
  Setup | UnitTest bool | FuzzTest bool | InvariantTest | AfterInvariant | Fixture | UnknownKind

definition to_ascii_lowercase :: "char \<Rightarrow> char" where
  "to_ascii_lowercase c = (let n = of_char c :: nat in if 65 \<le> n \<and> n \<le> 90 then char_of (n + 32) else c)"

definition eq_ignore_ascii_case :: "string \<Rightarrow> string \<Rightarrow> bool" where
  "eq_ignore_ascii_case a b = (map to_ascii_lowercase a = map to_ascii_lowercase b)"

definition classify :: "string \<Rightarrow> bool \<Rightarrow> TestFunctionKind" where
  "classify name has_inputs =
     (if prefix ''test'' name then
        let should_fail = prefix ''testFail'' name
        in if has_inputs then FuzzTest should_fail else UnitTest should_fail
      else if prefix ''invariant'' name \<or> prefix ''statefulFuzz'' name then InvariantTest
      else if eq_ignore_ascii_case name ''setup'' then Setup
      else if eq_ignore_ascii_case name ''afterinvariant'' then AfterInvariant
      else if prefix ''fixture'' name then Fixture
      else UnknownKind)"

fun kind_is_any_test :: "TestFunctionKind \<Rightarrow> bool" where
  "kind_is_any_test (UnitTest _) = True"
| "kind_is_any_test (FuzzTest _) = True"
| "kind_is_any_test InvariantTest = True"
| "kind_is_any_test _ = False"

definition is_any_test :: "string \<Rightarrow> bool" where
  "is_any_test name = kind_is_any_test (classify name False)"

definition test_item :: "CoverageItem \<Rightarrow> bool" where
  "test_item i = (case item_kind i of Function name \<Rightarrow> is_any_test name | _ \<Rightarrow> False)"

record SourceFile =
  sf_content :: string
  sf_nodes :: "Node list"

definition contract_items :: "nat \<Rightarrow> string \<Rightarrow> Node \<Rightarrow> CoverageItem list visit" where
  "contract_items src content n =
     (if node_type n \<noteq> ContractDefinition then Ret (Inr [])
      else case attr_string ''contractKind'' n of
        None \<Rightarrow> Ret (Inl ''Contract has no kind'')
      | Some kind \<Rightarrow>
          if kind = ''interface'' then Ret (Inr [])
          else case attr_string ''name'' n of
            None \<Rightarrow> Ret (Inl ''Contract has no name'')
          | Some name \<Rightarrow>
              rbind (ContractVisitor_new src content name) (\<lambda>v0.
                rtry (visit_contract n v0) (\<lambda>v.
                  Ret (Inr (if list_ex test_item (cv_items v) then [] else cv_items v)))))"

definition sourced_items ::
    "(nat \<times> SourceFile) list \<Rightarrow> (nat \<times> CoverageItem list) list visit" where
  "sourced_items sources =
     visit_all (\<lambda>(src, content, n) acc. rtry (contract_items src content n) (\<lambda>items. Ret (Inr (acc @ [(src, items)]))))
       (concat (map (\<lambda>(src, f). map (\<lambda>n. (src, sf_content f, n)) (sf_nodes f)) sources)) []"

definition SourceAnalysis_new ::
    "((nat \<times> SourceFile) list \<Rightarrow> (nat \<times> SourceFile) list) \<Rightarrow> (nat, SourceFile) hmap \<Rightarrow> SourceAnalysis visit" where
  "SourceAnalysis_new it sources = rtry (sourced_items (it sources)) (\<lambda>items. Ret (Inr (analysis_new items)))"

end
