(* ===== verification/Coverage_Report.thy ===== *)
theory Coverage_Report
  imports Coverage
begin

text \<open>
  The anchors of the items of a source in a bytecode (\<^verbatim>\<open>evm/coverage/src/anchors.rs\<close>)
  and the report that adds the hits of bytecodes to the items
  (\<^verbatim>\<open>evm/coverage/src/lib.rs\<close>, \<^verbatim>\<open>CoverageReport\<close>).

  The search for a branch is a function with a measure that panics where the code indexes
  past the end; it is compared with filtering the list of instructions.
\<close>

subsection \<open>Anchors\<close>

record SourceElement =
  se_offset :: u32
  se_length :: u32
  se_index :: u32

definition element_index :: "SourceElement \<Rightarrow> u32 option" where
  "element_index e = (if se_index e = - 1 then None else Some (se_index e))"

record ItemAnchor =
  ia_instruction :: u32
  ia_item_id :: u32

datatype AnchorError = NoInstructionInRange | NoProgramCounter | JumpDestinationOverflow | NoBranches

definition is_in_source_range :: "SourceElement \<Rightarrow> SourceLocation \<Rightarrow> bool" where
  "is_in_source_range element location =
     (if se_index element \<noteq> of_nat (source_id location) then False
      else if se_offset element < bytes_start location then False
      else max (bytes_start location) (se_offset element)
           \<le> min (bytes_start location + loc_len location) (se_offset element + se_length element))"

definition find_anchor_simple ::
    "SourceElement list \<Rightarrow> (u32, u32) hmap \<Rightarrow> u32 \<Rightarrow> SourceLocation \<Rightarrow> AnchorError + ItemAnchor" where
  "find_anchor_simple source_map ic_pc_map item_id loc =
     (case position (\<lambda>e. is_in_source_range e loc) source_map of
        None \<Rightarrow> Inl NoInstructionInRange
      | Some instruction \<Rightarrow>
          (case ic_pc_get ic_pc_map (of_nat instruction) of
             None \<Rightarrow> Inl NoProgramCounter
           | Some pc \<Rightarrow> Inr \<lparr>ia_instruction = pc, ia_item_id = item_id\<rparr>))"

abbreviation JUMPI :: u8 where "JUMPI \<equiv> 0x57"

definition from_be_bytes :: "u8 list \<Rightarrow> nat" where
  "from_be_bytes bs = fold (\<lambda>b acc. acc * 256 + unat b) bs 0"

function branch_loop ::
    "u8 list \<Rightarrow> SourceElement list \<Rightarrow> u32 \<Rightarrow> SourceLocation \<Rightarrow> nat \<Rightarrow> nat \<Rightarrow> (ItemAnchor \<times> ItemAnchor) option \<Rightarrow>
     (AnchorError + (ItemAnchor \<times> ItemAnchor) option) rust" where
  "branch_loop bytecode source_map item_id loc pc cumulative_push_size anchors =
     (if pc < length bytecode then
        if PUSH1 \<le> bytecode ! pc \<and> bytecode ! pc \<le> PUSH32 then
          if pc - cumulative_push_size < length source_map then
            let element = source_map ! (pc - cumulative_push_size);
                size = unat (bytecode ! pc - PUSH1 + 1); pc' = pc + size
            in if is_in_source_range element loc then
                 if length bytecode \<le> pc' + 1 then Panic ''index out of bounds''
                 else if bytecode ! (pc' + 1) = JUMPI then
                   if \<not> size \<le> 8 then Ret (Inl JumpDestinationOverflow)
                   else
                     let pc_jump = from_be_bytes (take size (drop (pc' - size + 1) bytecode))
                     in if pc_jump < 2 ^ 32
                        then branch_loop bytecode source_map item_id loc (pc' + 1) (cumulative_push_size + size)
                               (Some (\<lparr>ia_instruction = of_nat (pc' + 2), ia_item_id = item_id\<rparr>,
                                      \<lparr>ia_instruction = of_nat pc_jump, ia_item_id = item_id\<rparr>))
                        else Panic ''PC is too big''
                 else branch_loop bytecode source_map item_id loc (pc' + 1) (cumulative_push_size + size) anchors
               else branch_loop bytecode source_map item_id loc (pc' + 1) (cumulative_push_size + size) anchors
          else Ret (Inr anchors)
        else branch_loop bytecode source_map item_id loc (pc + 1) cumulative_push_size anchors
      else Ret (Inr anchors))"
  by auto
termination
  by (relation "measure (\<lambda>(code, sm, item, loc, pc, c, a). length code - pc)") auto

declare branch_loop.simps [simp del]

definition find_anchor_branch ::
    "u8 list \<Rightarrow> SourceElement list \<Rightarrow> u32 \<Rightarrow> SourceLocation \<Rightarrow> (AnchorError + ItemAnchor \<times> ItemAnchor) rust" where
  "find_anchor_branch bytecode source_map item_id loc =
     rbind (branch_loop bytecode source_map item_id loc 0 0 None)
       (\<lambda>r. case r of
              Inl e \<Rightarrow> Ret (Inl e)
            | Inr None \<Rightarrow> Ret (Inl NoBranches)
            | Inr (Some anchors) \<Rightarrow> Ret (Inr anchors))"

definition item_anchor ::
    "u8 list \<Rightarrow> SourceElement list \<Rightarrow> (u32, u32) hmap \<Rightarrow> u32 \<times> CoverageItem \<Rightarrow> (AnchorError + ItemAnchor) rust" where
  "item_anchor bytecode source_map ic_pc_map = (\<lambda>(item_id, item).
     (case item_kind item of
        Branch _ path_id False \<Rightarrow>
          rtry (find_anchor_branch bytecode source_map item_id (item_loc item))
            (\<lambda>(first, second).
               if path_id = 0 then Ret (Inr first)
               else if path_id = 1 then Ret (Inr second)
               else Panic ''too many path IDs for branch'')
      | _ \<Rightarrow> Ret (find_anchor_simple source_map ic_pc_map item_id (item_loc item))))"

fun item_anchors ::
    "u8 list \<Rightarrow> SourceElement list \<Rightarrow> (u32, u32) hmap \<Rightarrow> (u32 \<times> CoverageItem) list \<Rightarrow> ItemAnchor list rust" where
  "item_anchors bytecode source_map ic_pc_map [] = Ret []"
| "item_anchors bytecode source_map ic_pc_map (i # is) =
     rbind (item_anchor bytecode source_map ic_pc_map i) (\<lambda>r.
       rbind (item_anchors bytecode source_map ic_pc_map is) (\<lambda>as.
         Ret (case r of Inl e \<Rightarrow> as | Inr a \<Rightarrow> a # as)))"

fun first_occurrences :: "'a list \<Rightarrow> 'a list \<Rightarrow> 'a list" where
  "first_occurrences seen [] = []"
| "first_occurrences seen (x # xs) =
     (if x \<in> set seen then first_occurrences seen xs else x # first_occurrences (x # seen) xs)"

fun source_anchors ::
    "u8 list \<Rightarrow> SourceElement list \<Rightarrow> (u32, u32) hmap \<Rightarrow> SourceAnalysis \<Rightarrow> u32 list \<Rightarrow> ItemAnchor list rust" where
  "source_anchors bytecode source_map ic_pc_map analysis [] = Ret []"
| "source_anchors bytecode source_map ic_pc_map analysis (s # ss) =
     rbind (items_for_source_enumerated (unat s) analysis) (\<lambda>items.
       rbind (item_anchors bytecode source_map ic_pc_map items) (\<lambda>as.
         rbind (source_anchors bytecode source_map ic_pc_map analysis ss) (\<lambda>rest. Ret (as @ rest))))"

definition find_anchors ::
    "u8 list \<Rightarrow> SourceElement list \<Rightarrow> (u32, u32) hmap \<Rightarrow> SourceAnalysis \<Rightarrow> ItemAnchor list rust" where
  "find_anchors bytecode source_map ic_pc_map analysis =
     source_anchors bytecode source_map ic_pc_map analysis
       (first_occurrences [] (List.map_filter element_index source_map))"

subsection \<open>What the anchors are\<close>

text \<open>
  An instruction stands for a branch if it is a push in the range of the branch, followed by
  a conditional jump. Its anchors are the instruction after the jump and the pushed target.
\<close>

definition branch_at :: "u8 list \<Rightarrow> SourceElement list \<Rightarrow> SourceLocation \<Rightarrow> nat \<times> nat \<Rightarrow> bool" where
  "branch_at code source_map loc = (\<lambda>(pc, ic).
     0 < push_size (code ! pc) \<and> ic < length source_map \<and> is_in_source_range (source_map ! ic) loc \<and>
     pc + push_size (code ! pc) + 1 < length code \<and> code ! (pc + push_size (code ! pc) + 1) = JUMPI)"

definition branch_anchors :: "u8 list \<Rightarrow> u32 \<Rightarrow> nat \<Rightarrow> ItemAnchor \<times> ItemAnchor" where
  "branch_anchors code item_id pc =
     (\<lparr>ia_instruction = of_nat (pc + push_size (code ! pc) + 2), ia_item_id = item_id\<rparr>,
      \<lparr>ia_instruction = of_nat (from_be_bytes (take (push_size (code ! pc)) (drop (pc + 1) code))),
       ia_item_id = item_id\<rparr>)"

definition branches ::
    "u8 list \<Rightarrow> SourceElement list \<Rightarrow> SourceLocation \<Rightarrow> nat list \<Rightarrow> nat \<Rightarrow> (nat \<times> nat) list" where
  "branches code source_map loc starts ic = filter (branch_at code source_map loc) (zip starts [ic..<ic + length starts])"

lemma push_size_eq: "PUSH1 \<le> op \<Longrightarrow> op \<le> PUSH32 \<Longrightarrow> unat (op - PUSH0) = push_size op"
  by (simp add: push_size_def)

lemma push_size_pos: "0 < push_size op \<longleftrightarrow> PUSH1 \<le> op \<and> op \<le> PUSH32"
proof -
  have "op - PUSH0 \<noteq> 0" if "PUSH1 \<le> op" using that by (auto simp: word_le_nat_alt)
  then show ?thesis by (auto simp: push_size_def unat_gt_0)
qed

lemma branches_Cons:
  "branches code sm loc (pc # starts) ic =
   (if branch_at code sm loc (pc, ic) then [(pc, ic)] else []) @ branches code sm loc starts (Suc ic)"
  by (simp add: branches_def upt_conv_Cons del: upt_Suc)

lemma branches_late: "length sm \<le> ic \<Longrightarrow> branches code sm loc starts ic = []"
  by (auto simp: branches_def filter_empty_conv branch_at_def dest!: set_zip_rightD)

text \<open>The loop keeps the anchors of the last branch it has seen.\<close>

lemma branch_loop_reference:
  assumes "branch_loop code sm item loc pc c acc = Ret r" "c \<le> pc"
  shows "let bs = branches code sm loc (starts_from 0 pc (drop pc code)) (pc - c)
    in (r = Inr (if bs = [] then acc else Some (branch_anchors code item (fst (last bs))))) \<or>
       (r = Inl JumpDestinationOverflow \<and> (\<exists>(p, i) \<in> set bs. 8 < push_size (code ! p)))"
  using assms
proof (induction "length code - pc" arbitrary: pc c acc rule: less_induct)
  case less
  let ?k = "push_size (code ! pc)" and ?ic = "pc - c"
  let ?rest = "branches code sm loc (starts_from 0 (pc + ?k + 1) (drop (pc + ?k + 1) code)) (Suc ?ic)"
  show ?case
  proof (cases "pc < length code")
    case True
    let ?cand = "branch_at code sm loc (pc, ?ic)"
    have bs: "branches code sm loc (starts_from 0 pc (drop pc code)) ?ic = (if ?cand then [(pc, ?ic)] else []) @ ?rest"
      by (simp only: starts_from_at [OF True] branches_Cons)
    have next_pc: "length code - (pc + ?k + 1) < length code - pc" "c + ?k \<le> pc + ?k + 1"
      "pc + ?k + 1 - (c + ?k) = Suc ?ic"
      using True less.prems(2) by simp_all
    note IH = less.hyps [OF next_pc(1) _ next_pc(2), unfolded next_pc(3) Let_def]
    let ?acc = "if ?cand then Some (branch_anchors code item pc) else acc"
    have "branch_loop code sm item loc (pc + ?k + 1) (c + ?k) ?acc = Ret r \<or>
        (r = Inl JumpDestinationOverflow \<and> ?cand \<and> 8 < ?k) \<or> (length sm \<le> ?ic \<and> r = Inr acc)"
    proof (cases "0 < ?k")
      case False
      then have k: "?k = 0" "\<not> (PUSH1 \<le> code ! pc \<and> code ! pc \<le> PUSH32)" by (simp_all add: push_size_pos [symmetric])
      with less.prems(1) True show ?thesis
        by (subst (asm) branch_loop.simps) (simp only: k if_True if_False, simp add: branch_at_def k(1))
    next
      case push: True
      then have p: "PUSH1 \<le> code ! pc" "code ! pc \<le> PUSH32" by (simp_all add: push_size_pos)
      note size = push_size_eq [OF p]
      show ?thesis
      proof (cases "?ic < length sm \<and> is_in_source_range (sm ! ?ic) loc")
        case in_range: True
        have "pc + ?k - ?k + 1 = pc + 1" by simp
        with less.prems(1) True p in_range push show ?thesis
          by (subst (asm) branch_loop.simps)
             (auto simp: size Let_def branch_at_def branch_anchors_def split: if_splits)
      next
        case False
        with less.prems(1) True p push show ?thesis
          by (subst (asm) branch_loop.simps) (auto simp: size Let_def branch_at_def split: if_splits)
      qed
    qed
    then show ?thesis
    proof (elim disjE)
      assume "branch_loop code sm item loc (pc + ?k + 1) (c + ?k) ?acc = Ret r"
      from IH [OF this] show ?thesis by (auto simp: bs Let_def)
    next
      assume "r = Inl JumpDestinationOverflow \<and> ?cand \<and> 8 < ?k"
      then show ?thesis by (auto simp: bs Let_def)
    next
      assume "length sm \<le> ?ic \<and> r = Inr acc"
      then show ?thesis by (simp add: branches_late Let_def)
    qed
  next
    case False
    with less.prems(1) show ?thesis by (simp add: branch_loop.simps branches_def)
  qed
qed

text \<open>
  C27: The anchors of a branch are those of the last push in the range of the branch that is
  followed by a conditional jump, among the instructions of the bytecode: the instruction
  after the jump and the pushed target. There are none exactly when there is no such push,
  unless one of these pushes is longer than eight bytes.
\<close>

theorem branch_anchors_reference:
  assumes "find_anchor_branch code source_map item_id loc = Ret r"
  shows "let bs = branches code source_map loc (instruction_starts code) 0
    in r = (if bs = [] then Inl NoBranches else Inr (branch_anchors code item_id (fst (last bs)))) \<or>
       (r = Inl JumpDestinationOverflow \<and> (\<exists>(p, i) \<in> set bs. 8 < push_size (code ! p)))"
proof -
  from assms obtain r' where r': "branch_loop code source_map item_id loc 0 0 None = Ret r'"
    "(case r' of Inl e \<Rightarrow> Ret (Inl e) | Inr None \<Rightarrow> Ret (Inl NoBranches) | Inr (Some as) \<Rightarrow> Ret (Inr as)) = Ret r"
    unfolding find_anchor_branch_def by (elim rbind_RetE)
  from branch_loop_reference [OF r'(1)] r'(2) show ?thesis
    by (auto simp: Let_def instruction_starts_def split: if_splits)
qed

text \<open>A push of one byte and a jump in the range of the branch.\<close>

definition branch_code :: "u8 list" where
  "branch_code = [0x50, 0x60, 0x09, 0x57, 0x50]"

definition branch_map :: "SourceElement list" where
  "branch_map = replicate 4 \<lparr>se_offset = 10, se_length = 2, se_index = 0\<rparr>"

definition branch_loc :: SourceLocation where
  "branch_loc = \<lparr>source_id = 0, contract_name = ''C'', bytes_start = 8, bytes_end = 20, loc_lines = (1, 2)\<rparr>"

lemma branch_sample_range: "is_in_source_range \<lparr>se_offset = 10, se_length = 2, se_index = 0\<rparr> branch_loc"
  by (simp add: is_in_source_range_def branch_loc_def loc_len_def)

theorem branch_anchors_reference_witness:
  "find_anchor_branch branch_code branch_map 3 branch_loc =
     Ret (Inr (\<lparr>ia_instruction = 4, ia_item_id = 3\<rparr>, \<lparr>ia_instruction = 9, ia_item_id = 3\<rparr>)) \<and>
   branches branch_code branch_map branch_loc (instruction_starts branch_code) 0 \<noteq> []"
proof -
  have f: "find_anchor_branch branch_code branch_map 3 branch_loc =
      Ret (Inr (\<lparr>ia_instruction = 4, ia_item_id = 3\<rparr>, \<lparr>ia_instruction = 9, ia_item_id = 3\<rparr>))"
    by (simp add: find_anchor_branch_def branch_loop.simps branch_code_def branch_map_def branch_sample_range
        from_be_bytes_def Let_def)
  from branch_anchors_reference [OF f] f show ?thesis by (auto simp: Let_def)
qed

lemma in_range_iff:
  assumes "bytes_start l \<le> bytes_end l" "unat (se_offset e) + unat (se_length e) < 2 ^ 32"
  shows "is_in_source_range e l \<longleftrightarrow>
    se_index e = of_nat (source_id l) \<and> bytes_start l \<le> se_offset e \<and> se_offset e \<le> bytes_end l"
proof -
  have "bytes_start l + loc_len l = bytes_end l" using assms(1) by (auto simp: loc_len_def)
  moreover have "se_offset e \<le> se_offset e + se_length e"
    using assms(2) by (simp add: word_le_nat_alt unat_word_ariths)
  ultimately show ?thesis by (auto simp: is_in_source_range_def max_def)
qed

subsection \<open>The report\<close>

record 'v ContractId =
  ci_version :: 'v
  ci_source_id :: nat
  ci_contract_name :: string

record ('v, 'm) CoverageReport =
  source_paths :: "('v \<times> nat, string) hmap"
  source_paths_to_ids :: "('v \<times> string, nat) hmap"
  analyses :: "('v, SourceAnalysis) hmap"
  rep_anchors :: "('v ContractId, ItemAnchor list \<times> ItemAnchor list) hmap"
  bytecode_hits :: "('v ContractId, HitMap) hmap"
  source_maps :: "('v ContractId, 'm \<times> 'm) hmap"

definition add_source :: "'v \<Rightarrow> nat \<Rightarrow> string \<Rightarrow> ('v, 'm) CoverageReport \<Rightarrow> ('v, 'm) CoverageReport" where
  "add_source version src path r =
     r\<lparr>source_paths := hm_insert (version, src) path (source_paths r),
       source_paths_to_ids := hm_insert (version, path) src (source_paths_to_ids r)\<rparr>"

definition get_source_id :: "'v \<Rightarrow> string \<Rightarrow> ('v, 'm) CoverageReport \<Rightarrow> nat option" where
  "get_source_id version path r = hm_get (source_paths_to_ids r) (version, path)"

definition hm_extend :: "('k \<times> 'x) list \<Rightarrow> ('k, 'x) hmap \<Rightarrow> ('k, 'x) hmap" where
  "hm_extend kvs m = fold (\<lambda>(k, v). hm_insert k v) kvs m"

definition add_source_maps ::
    "('v ContractId \<times> 'm \<times> 'm) list \<Rightarrow> ('v, 'm) CoverageReport \<Rightarrow> ('v, 'm) CoverageReport" where
  "add_source_maps maps r = r\<lparr>source_maps := hm_extend maps (source_maps r)\<rparr>"

definition add_analysis :: "'v \<Rightarrow> SourceAnalysis \<Rightarrow> ('v, 'm) CoverageReport \<Rightarrow> ('v, 'm) CoverageReport" where
  "add_analysis version analysis r = r\<lparr>analyses := hm_insert version analysis (analyses r)\<rparr>"

definition add_anchors ::
    "('v ContractId \<times> ItemAnchor list \<times> ItemAnchor list) list \<Rightarrow> ('v, 'm) CoverageReport \<Rightarrow>
     ('v, 'm) CoverageReport" where
  "add_anchors as r = r\<lparr>rep_anchors := hm_extend as (rep_anchors r)\<rparr>"

definition hit_item :: "u32 \<Rightarrow> CoverageItem \<Rightarrow> CoverageItem" where
  "hit_item n item = item\<lparr>item_hits := item_hits item + n\<rparr>"

fun hit_anchors ::
    "HitMap \<Rightarrow> 'v \<Rightarrow> ItemAnchor list \<Rightarrow> ('v, SourceAnalysis) hmap \<Rightarrow> ('v, SourceAnalysis) hmap rust" where
  "hit_anchors hit_map version [] ans = Ret ans"
| "hit_anchors hit_map version (a # as) ans =
     (case hitmap_get hit_map (ia_instruction a) of
        None \<Rightarrow> hit_anchors hit_map version as ans
      | Some hits \<Rightarrow>
          (case hm_get ans version of
             None \<Rightarrow> Panic ''Anchor refers to non-existent coverage item''
           | Some an \<Rightarrow>
               let i = unat (ia_item_id a)
               in if i < length (all_items an)
                  then hit_anchors hit_map version as
                         (hm_insert version (an\<lparr>all_items := (all_items an)[i := hit_item hits (all_items an ! i)]\<rparr>) ans)
                  else Panic ''Anchor refers to non-existent coverage item''))"

definition add_hit_map ::
    "((u32 \<times> u32) list \<Rightarrow> (u32 \<times> u32) list) \<Rightarrow> 'v ContractId \<Rightarrow> HitMap \<Rightarrow> bool \<Rightarrow> ('v, 'm) CoverageReport \<Rightarrow>
     ('v, 'm) CoverageReport rust" where
  "add_hit_map it contract_id hit_map is_deployed_code r =
     (let r1 = r\<lparr>bytecode_hits :=
                   hm_insert contract_id
                     (case hm_get (bytecode_hits r) contract_id of
                        Some m \<Rightarrow> hitmap_merge it hit_map m | None \<Rightarrow> hit_map) (bytecode_hits r)\<rparr>
      in case hm_get (rep_anchors r1) contract_id of
           None \<Rightarrow> Ret r1
         | Some as \<Rightarrow>
             rbind (hit_anchors hit_map (ci_version contract_id) (if is_deployed_code then snd as else fst as) (analyses r1))
               (\<lambda>ans. Ret (r1\<lparr>analyses := ans\<rparr>)))"

text \<open>
  Keeping only the items of some sources. The source of every remaining item is known and
  wanted, and versions without items are dropped; the positions of the items change.
\<close>

definition retained :: "(string \<Rightarrow> bool) \<Rightarrow> ('v \<times> nat, string) hmap \<Rightarrow> 'v \<Rightarrow> CoverageItem \<Rightarrow> bool" where
  "retained predicate paths version item =
     (case hm_get paths (version, source_id (item_loc item)) of Some path \<Rightarrow> predicate path | None \<Rightarrow> False)"

definition retain_sources :: "(string \<Rightarrow> bool) \<Rightarrow> ('v, 'm) CoverageReport \<Rightarrow> ('v, 'm) CoverageReport" where
  "retain_sources predicate r =
     r\<lparr>analyses :=
         filter (\<lambda>(version, an). all_items an \<noteq> [])
           (map (\<lambda>(version, an).
              (version, an\<lparr>all_items := filter (retained predicate (source_paths r) version) (all_items an)\<rparr>)) (analyses r))\<rparr>"

definition by_file ::
    "(('v \<times> SourceAnalysis) list \<Rightarrow> ('v \<times> SourceAnalysis) list) \<Rightarrow> 'a \<Rightarrow> (CoverageItem \<Rightarrow> 'a \<Rightarrow> 'a) \<Rightarrow>
     ('v, 'm) CoverageReport \<Rightarrow> (string, 'a) hmap" where
  "by_file it dflt f r =
     fold (\<lambda>(version, an).
        fold (\<lambda>item m.
          case hm_get (source_paths r) (version, source_id (item_loc item)) of
            None \<Rightarrow> m
          | Some path \<Rightarrow> hm_insert path (f item (case hm_get m path of Some x \<Rightarrow> x | None \<Rightarrow> dflt)) m)
          (all_items an)) (it (analyses r)) []"

definition summary_by_file ::
    "(('v \<times> SourceAnalysis) list \<Rightarrow> ('v \<times> SourceAnalysis) list) \<Rightarrow> ('v, 'm) CoverageReport \<Rightarrow>
     (string, CoverageSummary) hmap" where
  "summary_by_file it r = by_file it summary_new add_item r"

definition items_by_file ::
    "(('v \<times> SourceAnalysis) list \<Rightarrow> ('v \<times> SourceAnalysis) list) \<Rightarrow> ('v, 'm) CoverageReport \<Rightarrow>
     (string, CoverageItem list) hmap" where
  "items_by_file it r = by_file it [] (\<lambda>item list. list @ [item]) r"

subsection \<open>The hits of items\<close>

definition anchor_hits :: "HitMap \<Rightarrow> ItemAnchor list \<Rightarrow> nat \<Rightarrow> u32" where
  "anchor_hits hit_map as i =
     sum_list (map (\<lambda>a. hit_count hit_map (ia_instruction a)) (filter (\<lambda>a. unat (ia_item_id a) = i) as))"

lemma hit_anchors_exact:
  assumes "hm_get ans version = Some an" "\<forall>a \<in> set as. unat (ia_item_id a) < length (all_items an)"
  shows "\<exists>ans'. hit_anchors hit_map version as ans = Ret ans' \<and>
    hm_get ans' = (hm_get ans)(version \<mapsto> an\<lparr>all_items :=
      map (\<lambda>i. hit_item (anchor_hits hit_map as i) (all_items an ! i)) [0..<length (all_items an)]\<rparr>)"
  using assms
proof (induction as arbitrary: ans an)
  case Nil
  have "map (\<lambda>i. hit_item 0 (all_items an ! i)) [0..<length (all_items an)] = all_items an"
    by (rule nth_equalityI) (simp_all add: hit_item_def)
  with Nil show ?case by (auto simp: anchor_hits_def)
next
  case (Cons a as)
  let ?i = "unat (ia_item_id a)" let ?n = "hit_count hit_map (ia_instruction a)"
  let ?an = "an\<lparr>all_items := (all_items an)[?i := hit_item ?n (all_items an ! ?i)]\<rparr>"
  have hits: "map (\<lambda>i. hit_item (anchor_hits hit_map (a # as) i) (all_items an ! i)) [0..<length (all_items an)] =
      map (\<lambda>i. hit_item (anchor_hits hit_map as i) (all_items ?an ! i)) [0..<length (all_items ?an)]"
    using Cons.prems(2)
    by (intro nth_equalityI) (auto simp: anchor_hits_def nth_list_update hit_item_def algebra_simps)
  show ?case
  proof (cases "?n = 0")
    case True
    then have "hit_anchors hit_map version (a # as) ans = hit_anchors hit_map version as ans"
      and "anchor_hits hit_map (a # as) = anchor_hits hit_map as"
      by (auto simp: hitmap_get_def Let_def anchor_hits_def fun_eq_iff)
    with Cons.IH [OF Cons.prems(1)] Cons.prems(2) show ?thesis by simp
  next
    case False
    then have "hit_anchors hit_map version (a # as) ans = hit_anchors hit_map version as (hm_insert version ?an ans)"
      using Cons.prems by (simp add: hitmap_get_def Let_def)
    moreover have p: "hm_get (hm_insert version ?an ans) version = Some ?an"
      "\<forall>a \<in> set as. unat (ia_item_id a) < length (all_items ?an)"
      using Cons.prems(2) by (simp_all add: hm_simps)
    moreover from Cons.IH [OF p] obtain ans' where ans': "hit_anchors hit_map version as (hm_insert version ?an ans) = Ret ans'"
      "hm_get ans' = (hm_get (hm_insert version ?an ans))(version \<mapsto> ?an\<lparr>all_items :=
        map (\<lambda>i. hit_item (anchor_hits hit_map as i) (all_items ?an ! i)) [0..<length (all_items ?an)]\<rparr>)"
      by blast
    moreover have "hm_get ans' = (hm_get ans)(version \<mapsto> an\<lparr>all_items :=
        map (\<lambda>i. hit_item (anchor_hits hit_map (a # as) i) (all_items an ! i)) [0..<length (all_items an)]\<rparr>)"
      unfolding ans'(2) hits hm_get_insert fun_upd_upd by simp
    ultimately show ?thesis by metis
  qed
qed

text \<open>
  C21: Adding the hits of a bytecode to a report returns when the anchors refer to items, and
  is exact: every item gains the hits of the instructions that are its anchors, all else of
  the items is unchanged, and the counters of the bytecode are added up.
\<close>

theorem add_hit_map_exact:
  assumes "hm_get (rep_anchors r) c = Some (creation, deployed)" "hm_get (analyses r) (ci_version c) = Some an"
    and "\<forall>a \<in> set (if d then deployed else creation). unat (ia_item_id a) < length (all_items an)"
    and "iteration_order it" "hm_wf (hit_counts hit_map)"
  shows "\<exists>r' m. add_hit_map it c hit_map d r = Ret r' \<and>
    hm_get (analyses r') = (hm_get (analyses r))(ci_version c \<mapsto> an\<lparr>all_items :=
      map (\<lambda>i. hit_item (anchor_hits hit_map (if d then deployed else creation) i) (all_items an ! i))
        [0..<length (all_items an)]\<rparr>) \<and>
    hm_get (bytecode_hits r') c = Some m \<and>
    (\<forall>pc. hit_count m pc = hit_count hit_map pc +
       (case hm_get (bytecode_hits r) c of Some old \<Rightarrow> hit_count old pc | None \<Rightarrow> 0))"
proof -
  from hit_anchors_exact [OF assms(2,3), of hit_map] obtain ans' where
    ans': "hit_anchors hit_map (ci_version c) (if d then deployed else creation) (analyses r) = Ret ans'"
    "hm_get ans' = (hm_get (analyses r))(ci_version c \<mapsto> an\<lparr>all_items :=
      map (\<lambda>i. hit_item (anchor_hits hit_map (if d then deployed else creation) i) (all_items an ! i))
        [0..<length (all_items an)]\<rparr>)" by blast
  let ?m = "case hm_get (bytecode_hits r) c of Some m \<Rightarrow> hitmap_merge it hit_map m | None \<Rightarrow> hit_map"
  have "hit_count ?m pc = hit_count hit_map pc +
      (case hm_get (bytecode_hits r) c of Some old \<Rightarrow> hit_count old pc | None \<Rightarrow> 0)" for pc
    by (simp add: hit_count_merge [OF assms(4,5)] split: option.split)
  then show ?thesis
    using assms(1) ans' by (cases d) (simp_all add: add_hit_map_def Let_def hm_simps)
qed

definition sample_report :: "(nat, unit) CoverageReport" where
  "sample_report =
     \<lparr>source_paths = [], source_paths_to_ids = [],
      analyses = [(8, analysis_default\<lparr>all_items := [sample_item 0 1, sample_item 0 7]\<rparr>)],
      rep_anchors = [(\<lparr>ci_version = 8, ci_source_id = 0, ci_contract_name = ''C''\<rparr>,
                      ([], [\<lparr>ia_instruction = 4, ia_item_id = 1\<rparr>, \<lparr>ia_instruction = 9, ia_item_id = 1\<rparr>]))],
      bytecode_hits = [], source_maps = []\<rparr>"

theorem add_hit_map_exact_witness:
  "\<exists>r' an. add_hit_map rev \<lparr>ci_version = 8, ci_source_id = 0, ci_contract_name = ''C''\<rparr>
      \<lparr>hit_bytecode = [], hit_counts = [(4, 2), (9, 3)]\<rparr> True sample_report = Ret r' \<and>
    hm_get (analyses r') 8 = Some an \<and> map item_hits (all_items an) = [0, 5]"
proof -
  let ?an = "analysis_default\<lparr>all_items := [sample_item 0 1, sample_item 0 7]\<rparr>"
  let ?as = "[\<lparr>ia_instruction = 4, ia_item_id = 1\<rparr>, \<lparr>ia_instruction = 9, ia_item_id = 1\<rparr>]"
  from add_hit_map_exact [of sample_report "\<lparr>ci_version = 8, ci_source_id = 0, ci_contract_name = ''C''\<rparr>" "[]" ?as ?an
      True rev "\<lparr>hit_bytecode = [], hit_counts = [(4, 2), (9, 3)]\<rparr>"]
  show ?thesis
    by (auto simp: sample_report_def hm_wf_def anchor_hits_def hit_item_def hit_count_def sample_item_def)
qed

end
