(* ===== verification/Visitor_Items.thy ===== *)
theory Visitor_Items
  imports Coverage_Visitor Coverage_Report
begin

text \<open>
  What the coverage visitor finds: every visit of a node adds items at the end, numbers its
  branches from the counter and never reports a line twice. The rules follow the structure
  of the visitor; the visits of all kinds of nodes are covered by one induction on the size
  of the node. At the end the items are composed with the index and the anchors.
\<close>

subsection \<open>What a visit adds\<close>

definition branch_ids :: "CoverageItem list \<Rightarrow> (u32 \<times> u32) list" where
  "branch_ids items = List.map_filter (\<lambda>i. case item_kind i of Branch b p _ \<Rightarrow> Some (b, p) | _ \<Rightarrow> None) items"

definition line_starts :: "CoverageItem list \<Rightarrow> u32 list" where
  "line_starts items = List.map_filter (\<lambda>i. if item_kind i = Line then Some (fst (loc_lines (item_loc i))) else None) items"

definition branch_path_ok :: "CoverageItem \<Rightarrow> bool" where
  "branch_path_ok i = (case item_kind i of Branch _ p False \<Rightarrow> p = 0 \<or> p = 1 | _ \<Rightarrow> True)"

definition item_of :: "ContractVisitor \<Rightarrow> CoverageItem \<Rightarrow> bool" where
  "item_of v i =
     (item_hits i = 0 \<and> source_id (item_loc i) = unat (cv_source_id v) \<and> contract_name (item_loc i) = cv_contract_name v \<and>
      branch_path_ok i)"

definition same_source :: "ContractVisitor \<Rightarrow> ContractVisitor \<Rightarrow> bool" where
  "same_source v v' =
     (cv_source_id v' = cv_source_id v \<and> cv_source v' = cv_source v \<and> cv_contract_name v' = cv_contract_name v)"

text \<open>
  A visit adds items at the end. Their branches are new, numbered from the counter, or
  among the branches \<open>S\<close> that an enclosing statement has reserved; their lines go up.
\<close>

definition adds :: "(nat \<times> nat) set \<Rightarrow> ContractVisitor \<Rightarrow> ContractVisitor \<Rightarrow> CoverageItem list \<Rightarrow> (nat \<times> nat) list \<Rightarrow> bool" where
  "adds S v v' new bs =
     (cv_items v' = cv_items v @ new \<and> branch_ids new = map (\<lambda>(b, p). (of_nat b, of_nat p)) bs \<and> distinct bs \<and>
      (\<forall>(b, p) \<in> set bs. p < length (cv_items v') \<and> ((b, p) \<in> S \<or> branch_id v \<le> b \<and> b < branch_id v')) \<and>
      (\<forall>i \<in> set new. item_of v i) \<and> sorted_wrt (<) (line_starts new) \<and>
      (\<forall>l \<in> set (line_starts new). last_line v < l \<and> l \<le> last_line v'))"

definition extends :: "(nat \<times> nat) set \<Rightarrow> ContractVisitor \<Rightarrow> ContractVisitor \<Rightarrow> bool" where
  "extends S v v' =
     (same_source v v' \<and> branch_id v \<le> branch_id v' \<and> last_line v \<le> last_line v' \<and> (\<exists>new bs. adds S v v' new bs))"

lemma map_filter_append: "List.map_filter f (xs @ ys) = List.map_filter f xs @ List.map_filter f ys"
  by (simp add: map_filter_def)

lemma ids_append [simp]:
  "branch_ids (xs @ ys) = branch_ids xs @ branch_ids ys" "line_starts (xs @ ys) = line_starts xs @ line_starts ys"
  "branch_ids [] = []" "line_starts [] = []"
  by (simp_all add: branch_ids_def line_starts_def map_filter_append map_filter_simps)

lemma extends_refl [simp]: "extends {} v v"
  by (auto simp: extends_def adds_def same_source_def intro!: exI [of _ "[]"])

lemma adds_trans:
  assumes 1: "adds S v v1 new bs" and 2: "adds T v1 v2 new' bs'" and disj: "S \<inter> T = {}" "\<forall>(b, p) \<in> S \<union> T. b < branch_id v"
    and le: "branch_id v \<le> branch_id v1" "branch_id v1 \<le> branch_id v2" "last_line v \<le> last_line v1" "last_line v1 \<le> last_line v2"
      "same_source v v1"
  shows "adds (S \<union> T) v v2 (new @ new') (bs @ bs')"
proof -
  note d1 = 1 [unfolded adds_def] and d2 = 2 [unfolded adds_def]
  have b1: "p < length (cv_items v1)" "(b, p) \<in> S \<or> branch_id v \<le> b \<and> b < branch_id v1" if "(b, p) \<in> set bs" for b p
    using d1 that by blast+
  have b2: "p < length (cv_items v2)" "(b, p) \<in> T \<or> branch_id v1 \<le> b \<and> b < branch_id v2" if "(b, p) \<in> set bs'" for b p
    using d2 that by blast+
  have low: "b < branch_id v" if "(b, p) \<in> S \<or> (b, p) \<in> T" for b p using disj(2) that by blast
  have dist: "x \<notin> set bs'" if "x \<in> set bs" for x
  proof (cases x)
    case (Pair b p)
    with that b1(2) [of b p] b2(2) [of b p] low [of b p] disj(1) le(1) show ?thesis by force
  qed
  have len: "length (cv_items v1) \<le> length (cv_items v2)" using d2 by auto
  have "p < length (cv_items v2) \<and> ((b, p) \<in> S \<union> T \<or> branch_id v \<le> b \<and> b < branch_id v2)"
    if "(b, p) \<in> set (bs @ bs')" for b p
    using that b1 [of b p] b2 [of b p] le(1,2) len by force
  then have bnds: "\<forall>(b, p) \<in> set (bs @ bs'). p < length (cv_items v2) \<and> ((b, p) \<in> S \<union> T \<or> branch_id v \<le> b \<and> b < branch_id v2)"
    by blast
  have l1: "\<forall>l \<in> set (line_starts new). last_line v < l \<and> l \<le> last_line v1" using d1 by blast
  have l2: "\<forall>l \<in> set (line_starts new'). last_line v1 < l \<and> l \<le> last_line v2" using d2 by blast
  have "sorted_wrt (<) (line_starts (new @ new'))" using d1 d2 l1 l2 by (fastforce simp: sorted_wrt_append)
  moreover have "\<forall>l \<in> set (line_starts (new @ new')). last_line v < l \<and> l \<le> last_line v2" using l1 l2 le(3,4) by force
  moreover have "item_of v = item_of v1" using le(5) by (auto simp: item_of_def same_source_def fun_eq_iff)
  moreover have "cv_items v2 = cv_items v @ new @ new'"
    "branch_ids (new @ new') = map (\<lambda>(b, p). (of_nat b, of_nat p)) (bs @ bs')" using d1 d2 by simp_all
  moreover have "distinct (bs @ bs')" using d1 d2 dist by auto
  moreover have "\<forall>i \<in> set (new @ new'). item_of v i" using d1 d2 \<open>item_of v = item_of v1\<close> by auto
  ultimately show ?thesis
    unfolding adds_def using bnds by blast
qed

lemma extends_trans:
  assumes "extends S v v1" "extends T v1 v2" "S \<inter> T = {}" "\<forall>(b, p) \<in> S \<union> T. b < branch_id v"
  shows "extends (S \<union> T) v v2"
  using assms adds_trans [of S v v1 _ _ T v2] unfolding extends_def same_source_def
  by (metis (no_types, lifting) order_trans)

lemma extends_trans0: "extends {} v v1 \<Longrightarrow> extends {} v1 v2 \<Longrightarrow> extends {} v v2"
  using extends_trans [of "{}" v v1 "{}" v2] by simp

lemma location_source:
  "source_location_for src v = Ret loc \<Longrightarrow> source_id loc = unat (cv_source_id v) \<and> contract_name loc = cv_contract_name v"
  by (auto simp: source_location_for_def Let_def elim!: rbind_RetE)

lemma push_item_adds:
  assumes "item_of v i" "item_kind i \<noteq> Line" "branch_ids [i] = map (\<lambda>(b, p). (of_nat b, of_nat p)) bs" "distinct bs"
    and "\<forall>(b, p) \<in> set bs. p \<le> length (cv_items v)"
  shows "extends (set bs) v (push_item i v)" "branch_id (push_item i v) = branch_id v"
    "length (cv_items v) < length (cv_items (push_item i v))"
proof -
  let ?start = "fst (loc_lines (item_loc i))" and ?line = "\<lparr>item_kind = Line, item_loc = item_loc i, item_hits = 0\<rparr>"
  let ?new = "if last_line v < ?start then [?line, i] else [i]"
  have line: "item_of v ?line" "branch_ids [?line] = []" "line_starts [?line] = [?start]" "line_starts [i] = []"
    using assms(1,2) by (simp_all add: item_of_def branch_path_ok_def branch_ids_def line_starts_def map_filter_simps)
  have two: "branch_ids [?line, i] = branch_ids [i]" "line_starts [?line, i] = [?start]"
    using ids_append(1) [of "[?line]" "[i]"] ids_append(2) [of "[?line]" "[i]"] line by simp_all
  have "adds (set bs) v (push_item i v) ?new bs"
    using assms(1,3,4,5) line two by (auto simp: adds_def push_item_def Let_def)
  then show "extends (set bs) v (push_item i v)"
    unfolding extends_def by (intro conjI exI) (auto simp: push_item_def same_source_def Let_def)
  show "branch_id (push_item i v) = branch_id v" "length (cv_items v) < length (cv_items (push_item i v))"
    by (simp_all add: push_item_def Let_def)
qed

lemma push_plain:
  assumes "push_item_kind kind src v = Ret (Inr v')" "kind = Statement \<or> (\<exists>name. kind = Function name)"
  shows "extends {} v v'"
  using assms push_item_adds(1) [of v "\<lparr>item_kind = kind, item_loc = l, item_hits = 0\<rparr>" "[]" for l]
  by (auto simp: push_item_kind_def item_of_def branch_path_ok_def branch_ids_def map_filter_simps
      dest: location_source elim!: rbind_RetE)

lemma push_branch:
  assumes "push_item_kind (branch b p first) src v = Ret (Inr v')" "p \<le> length (cv_items v)" "first \<or> p \<le> 1"
  shows "extends {(b, p)} v v'" "branch_id v' = branch_id v" "length (cv_items v) < length (cv_items v')"
proof -
  obtain loc where loc: "source_location_for src v = Ret loc"
    and v': "v' = push_item \<lparr>item_kind = branch b p first, item_loc = loc, item_hits = 0\<rparr> v"
    using assms(1) by (auto simp: push_item_kind_def elim!: rbind_RetE)
  let ?i = "\<lparr>item_kind = branch b p first, item_loc = loc, item_hits = 0\<rparr>"
  have path: "p = 0 \<or> p = 1" if "\<not> first" using assms(3) that by auto
  have "item_of v ?i"
    using location_source [OF loc] path by (cases first) (auto simp: item_of_def branch_path_ok_def branch_def)
  moreover have "branch_ids [?i] = map (\<lambda>(b, p). (of_nat b, of_nat p)) [(b, p)]"
    by (simp add: branch_ids_def map_filter_simps branch_def)
  ultimately show "extends {(b, p)} v v'" "branch_id v' = branch_id v" "length (cv_items v) < length (cv_items v')"
    using push_item_adds [of v ?i "[(b, p)]"] assms(2) by (simp_all add: v' branch_def)
qed

text \<open>An enclosing statement takes the next number before it reserves branches.\<close>

lemma extends_branch:
  assumes "extends S (v\<lparr>branch_id := branch_id v + 1\<rparr>) v'" "\<forall>(b, p) \<in> S. b = branch_id v"
  shows "extends {} v v'"
proof -
  obtain new bs where a: "adds S (v\<lparr>branch_id := branch_id v + 1\<rparr>) v' new bs" using assms(1) by (auto simp: extends_def)
  have lt: "branch_id v < branch_id v'" using assms(1) by (auto simp: extends_def)
  have "p < length (cv_items v') \<and> branch_id v \<le> b \<and> b < branch_id v'" if "(b, p) \<in> set bs" for b p
    using a assms(2) that lt by (fastforce simp: adds_def)
  then have "adds {} v v' new bs" using a by (auto simp: adds_def item_of_def)
  then show ?thesis using assms(1) by (auto simp: extends_def same_source_def)
qed

subsection \<open>Rules for visits\<close>

definition grows :: "(nat \<times> nat) set \<Rightarrow> ContractVisitor visit \<Rightarrow> ContractVisitor \<Rightarrow> bool" where
  "grows S m v = (\<forall>v'. m = Ret (Inr v') \<longrightarrow> extends S v v')"

named_theorems grow \<open>introduction rules for the growth of visits\<close>

lemma grows_ret [grow]: "grows {} (Ret (Inr v)) v"
  by (simp add: grows_def)

lemma grows_err [grow]: "grows S (Ret (Inl e)) v" "grows S (Panic msg) v"
  by (simp_all add: grows_def)

lemma grows_push [grow]:
  "grows {} (push_item_kind Statement src v) v" "grows {} (push_item_kind (Function name) src v) v"
  by (auto simp: grows_def intro: push_plain)

lemma grows_rtry [grow]:
  "grows {} m v \<Longrightarrow> (\<And>v1. m = Ret (Inr v1) \<Longrightarrow> grows {} (f v1) v1) \<Longrightarrow> grows {} (rtry m f) v"
  unfolding grows_def by (auto simp: rtry_Ret_Inr_iff intro: extends_trans0)

lemma grows_opt [grow]:
  "(\<And>n. m = Some n \<Longrightarrow> grows {} (f n v) v) \<Longrightarrow> grows {} (visit_opt f m v) v"
  "(\<And>n. m = Some n \<Longrightarrow> grows {} (f n v) v) \<Longrightarrow> grows {} (visit_req msg f m v) v"
  by (auto simp: visit_opt_def visit_req_def grow split: option.split)

lemma grows_all [grow]:
  "(\<And>n u. n \<in> set ns \<Longrightarrow> grows {} (f n u) u) \<Longrightarrow> grows {} (visit_all f ns v) v"
  by (induction ns arbitrary: v) (auto intro!: grow)

lemma grows_if [grow]: "(b \<Longrightarrow> grows S m v) \<Longrightarrow> (\<not> b \<Longrightarrow> grows S m' v) \<Longrightarrow> grows S (if b then m else m') v"
  by simp

lemma grows_case [grow]:
  "(x = None \<Longrightarrow> grows S m v) \<Longrightarrow> (\<And>y. x = Some y \<Longrightarrow> grows S (f y) v) \<Longrightarrow>
     grows S (case x of None \<Rightarrow> m | Some y \<Rightarrow> f y) v"
  by (cases x) simp_all

lemma extendsD: "extends S v v' \<Longrightarrow> branch_id v \<le> branch_id v' \<and> length (cv_items v) \<le> length (cv_items v')"
  by (auto simp: extends_def adds_def)

lemma grows_one_branch:
  assumes "\<And>u. grows {} (f u) u"
  shows "grows {} (rtry (push_item_kind (branch (branch_id v) 0 first) src (v\<lparr>branch_id := branch_id v + 1\<rparr>)) f) v"
proof -
  have "extends {} v v'" if "push_item_kind (branch (branch_id v) 0 first) src (v\<lparr>branch_id := branch_id v + 1\<rparr>) = Ret (Inr v1)"
    "f v1 = Ret (Inr v')" for v1 v'
    using push_branch(1) [OF that(1)] that(2) assms extends_trans [of "{(branch_id v, 0)}" _ v1 "{}" v']
    by (intro extends_branch [of "{(branch_id v, 0)}"]) (auto simp: grows_def)
  then show ?thesis by (auto simp: grows_def rtry_Ret_Inr_iff)
qed

lemma grows_two_branches:
  assumes "\<And>u. grows {} (f u) u"
  shows "grows {} (rtry (push_item_kind (branch (branch_id v) 0 first) src (v\<lparr>branch_id := branch_id v + 1\<rparr>))
     (\<lambda>v1. rtry (push_item_kind (branch (branch_id v) 1 False) src' v1) f)) v"
proof -
  let ?S = "{(branch_id v, 0)}" and ?T = "{(branch_id v, 1)}" and ?v = "v\<lparr>branch_id := branch_id v + 1\<rparr>"
  have "extends {} v v'" if steps: "push_item_kind (branch (branch_id v) 0 first) src ?v = Ret (Inr v1)"
    "push_item_kind (branch (branch_id v) 1 False) src' v1 = Ret (Inr v2)" "f v2 = Ret (Inr v')" for v1 v2 v'
  proof -
    note p0 = push_branch [OF steps(1)]
    have "1 \<le> length (cv_items v1)" using p0(3) by simp
    note p1 = push_branch [OF steps(2) this]
    have "extends {} v2 v'" using assms steps(3) by (simp add: grows_def)
    from extends_trans [OF p1(1) this] p0(2) have "extends ?T v1 v'" by simp
    from extends_trans [OF p0(1) this] have "extends (?S \<union> ?T) ?v v'" by simp
    then show ?thesis by (rule extends_branch) auto
  qed
  then show ?thesis by (auto simp: grows_def rtry_Ret_Inr_iff)
qed

lemma grows_no_branch: "grows {} (Ret (Inr (v\<lparr>branch_id := branch_id v + 1\<rparr>))) v"
  using extends_branch [of "{}" v "v\<lparr>branch_id := branch_id v + 1\<rparr>"] by (simp add: grows_def)

lemma rtry_id: "rtry m (\<lambda>v. Ret (Inr v)) = m"
  by (cases m) (auto simp: rtry_def split: sum.split)

lemma grows_require:
  "grows {} (let b = branch_id v in rtry (push_item_kind (branch b 0 False) src (v\<lparr>branch_id := b + 1\<rparr>))
     (push_item_kind (branch b 1 False) src)) v"
  using grows_two_branches [of "\<lambda>v. Ret (Inr v)" v False src src] by (simp add: Let_def rtry_id grow)

text \<open>The catch clauses of a statement use the paths from \<open>p\<close> on of its branch.\<close>

definition paths :: "nat \<Rightarrow> nat \<Rightarrow> nat \<Rightarrow> (nat \<times> nat) set" where
  "paths b p p' = {b} \<times> {p..<p'}"

lemma clauses_extend:
  assumes "visit_all step cs (p, v) = Ret (Inr (p', v'))" "p \<le> length (cv_items v)" "b < branch_id v"
    and step: "\<And>c p v p' v'. c \<in> set cs \<Longrightarrow> step c (p, v) = Ret (Inr (p', v')) \<Longrightarrow> p \<le> length (cv_items v) \<Longrightarrow> b < branch_id v \<Longrightarrow>
      extends (paths b p p') v v' \<and> p \<le> p' \<and> p' \<le> length (cv_items v')"
  shows "extends (paths b p p') v v' \<and> p \<le> p' \<and> p' \<le> length (cv_items v')"
  using assms
proof (induction cs arbitrary: p v)
  case Nil
  then show ?case by (simp add: paths_def)
next
  case (Cons c cs)
  from Cons.prems(1) obtain p1 v1 where 1: "step c (p, v) = Ret (Inr (p1, v1))" "visit_all step cs (p1, v1) = Ret (Inr (p', v'))"
    by (auto simp: rtry_Ret_Inr_iff)
  note s = Cons.prems(4) [of c, OF _ 1(1) Cons.prems(2,3), simplified]
  have b: "b < branch_id v1" using s Cons.prems(3) extendsD by fastforce
  have r: "extends (paths b p1 p') v1 v' \<and> p1 \<le> p' \<and> p' \<le> length (cv_items v')"
    by (rule Cons.IH [OF 1(2) _ b]) (use s in simp, rule Cons.prems(4), auto)
  have "paths b p p1 \<union> paths b p1 p' = paths b p p'" "paths b p p1 \<inter> paths b p1 p' = {}" using s r by (auto simp: paths_def)
  then show ?case
    using s r Cons.prems(3) extends_trans [of "paths b p p1" v v1 "paths b p1 p'" v'] by (auto simp: paths_def)
qed

text \<open>One clause, given that the visits of smaller nodes grow.\<close>

lemma clause_extends:
  assumes vis: "\<And>m u. size m < size n \<Longrightarrow> grows {} (visit_block m u) u" "\<And>m u. size m < size n \<Longrightarrow> grows {} (visit_statement m u) u"
    and clause: "size clause < size n" "p \<le> length (cv_items v)" "b < branch_id v"
    and run: "catch_clause visit_block visit_statement b clause (p, v) = Ret (Inr (p', v'))"
  shows "extends (paths b p p') v v' \<and> p \<le> p' \<and> p' \<le> length (cv_items v')"
proof (cases "attr_node ''block'' clause")
  case None
  with run clause(2) show ?thesis by (simp add: paths_def catch_clause_def)
next
  case (Some catch_block)
  then have small: "size catch_block < size n" using size_attr_node clause(1) by fastforce
  show ?thesis
  proof (cases "has_statements catch_block")
    case True
    with run Some obtain v7 where v7: "push_item_kind (branch b p True) (node_src catch_block) v = Ret (Inr v7)"
      "visit_block catch_block v7 = Ret (Inr v')" "p' = p + 1" by (auto simp: catch_clause_def rtry_Ret_Inr_iff)
    note p = push_branch [OF v7(1) clause(2) disjI1, OF TrueI]
    have e: "extends {} v7 v'" using vis(1) [OF small] v7(2) by (simp add: grows_def)
    from extends_trans [OF p(1) e] p(2) clause(3) have "extends {(b, p)} v v'" by simp
    moreover have "p + 1 \<le> length (cv_items v')" using extendsD [OF e] p(3) clause(2) by simp
    ultimately show ?thesis by (simp add: v7(3) paths_def)
  next
    case False
    with run Some consider "p' = p" "v' = v"
      | v7 where "push_item_kind Statement (node_src clause) v = Ret (Inr v7)" "visit_statement clause v7 = Ret (Inr v')" "p' = p"
      by (auto simp: catch_clause_def rtry_Ret_Inr_iff split: if_splits)
    then show ?thesis
    proof cases
      case 2
      then have "extends {} v v'"
        using push_plain [of Statement "node_src clause" v v7] vis(2) [OF clause(1), of v7] extends_trans0 [of v v7 v'] by (simp add: grows_def)
      then show ?thesis using 2(3) extendsD [of "{}" v v'] clause(2) by (auto simp: paths_def)
    qed (use clause(2) in \<open>simp add: paths_def\<close>)
  qed
qed

lemma grows_expression: "grows {} (visit_expression n v) v"
proof (induction "size n" arbitrary: n v rule: less_induct)
  case less
  show ?case
    by (subst visit_expression.simps) (intro grow grows_require less; simp add: size_attr_node)
qed

lemma grows_if_bodies:
  assumes "\<And>u. grows {} (f u) u" "\<And>fb u. m = Some fb \<Longrightarrow> grows {} (g fb u) u"
  shows "grows {} (let b = branch_id v; v2 = v\<lparr>branch_id := b + 1\<rparr>
     in case m of
          Some fb \<Rightarrow>
            if has_fb fb then
              rtry (push_item_kind (branch b 0 True) src v2) (\<lambda>v3.
                rtry (push_item_kind (branch b 1 False) (src' fb) v3) (\<lambda>v4. rtry (f v4) (g fb)))
            else Ret (Inr v2)
        | None \<Rightarrow> if has_t then rtry (push_item_kind (branch b 0 True) src v2) f else Ret (Inr v2)) v"
  unfolding Let_def
  by (intro grows_case grows_if grows_no_branch grows_one_branch grows_two_branches grows_rtry assms)

lemma grows_yul_if:
  "(\<And>u. grows {} (f u) u) \<Longrightarrow>
     grows {} (let b = branch_id v in rtry (push_item_kind (branch b 0 first) src (v\<lparr>branch_id := b + 1\<rparr>)) f) v"
  unfolding Let_def by (rule grows_one_branch)

lemma grows_try_clauses:
  assumes block: "\<And>u. grows {} (f u) u"
    and step: "\<And>c p v p' v' b. c \<in> set cs \<Longrightarrow> step b c (p, v) = Ret (Inr (p', v')) \<Longrightarrow> p \<le> length (cv_items v) \<Longrightarrow>
      b < branch_id v \<Longrightarrow> extends (paths b p p') v v' \<and> p \<le> p' \<and> p' \<le> length (cv_items v')"
  shows "grows {} (rtry (push_item_kind (branch (branch_id v) 0 True) src (v\<lparr>branch_id := branch_id v + 1\<rparr>)) (\<lambda>v4.
     rtry (f v4) (\<lambda>v5. rtry (visit_all (step (branch_id v)) cs (1, v5)) (\<lambda>(p, v9). Ret (Inr v9))))) v"
proof -
  let ?b = "branch_id v" let ?v = "v\<lparr>branch_id := branch_id v + 1\<rparr>"
  have "extends {} v v'" if runs: "push_item_kind (branch ?b 0 True) src ?v = Ret (Inr v4)" "f v4 = Ret (Inr v5)"
    "visit_all (step ?b) cs (1, v5) = Ret (Inr (p, v'))" for v4 v5 v' p
  proof -
    note p0 = push_branch [OF runs(1)]
    have e: "extends {} v4 v5" using block runs(2) by (simp add: grows_def)
    have l: "1 \<le> length (cv_items v5)" "?b < branch_id v5" using p0(2,3) extendsD [OF e] by auto
    have c: "extends (paths ?b 1 p) v5 v'" using clauses_extend [OF runs(3) l] step by blast
    from extends_trans [OF e c] p0(2) have "extends (paths ?b 1 p) v4 v'" by (simp add: paths_def)
    from extends_trans [OF p0(1) this] have "extends ({(?b, 0)} \<union> paths ?b 1 p) ?v v'" by (simp add: paths_def)
    then show ?thesis by (rule extends_branch) (auto simp: paths_def)
  qed
  then show ?thesis by (auto simp: grows_def rtry_Ret_Inr_iff)
qed

lemma grows_block:
  assumes "\<And>m u. size m < size n \<Longrightarrow> grows {} (visit_statement m u) u"
  shows "grows {} (visit_block n v) v"
  unfolding visit_block.simps by (intro grow assms size_block_statements)

lemma grows_modifier:
  assumes "\<And>m u. size m < size n \<Longrightarrow> grows {} (visit_block m u) u"
  shows "grows {} (visit_modifier_or_yul_fn_definition n v) v"
  unfolding visit_modifier_or_yul_fn_definition.simps by (intro grow assms size_node_body)

lemma grows_try:
  assumes "\<And>m u. size m < size n \<Longrightarrow> grows {} (visit_block m u) u" "\<And>m u. size m < size n \<Longrightarrow> grows {} (visit_statement m u) u"
  shows "grows {} (visit_try visit_block visit_statement n v) v"
proof -
  have "grows {} (rtry (push_item_kind (branch (branch_id u) 0 True) src (u\<lparr>branch_id := branch_id u + 1\<rparr>)) (\<lambda>v4.
      rtry (visit_block m v4) (\<lambda>v5.
        rtry (visit_all (catch_clause visit_block visit_statement (branch_id u)) cs (1, v5)) (\<lambda>(p, v9). Ret (Inr v9))))) u"
    if "attr_nodes ''clauses'' n = Some (c # cs)" "attr_node ''block'' c = Some m" for u src c cs m
  proof (rule grows_try_clauses)
    have "size m < size n" using that size_attr_nodes [of "''clauses''" n "c # cs" c] size_attr_node [of "''block''" c m] by simp
    then show "grows {} (visit_block m w) w" for w by (rule assms(1))
    have small: "size d < size n" if "d \<in> set cs" for d using size_attr_nodes [of "''clauses''" n "c # cs" d] that \<open>attr_nodes ''clauses'' n = _\<close> by simp
    show "extends (paths b p p') w w' \<and> p \<le> p' \<and> p' \<le> length (cv_items w')"
      if "d \<in> set cs" "catch_clause visit_block visit_statement b d (p, w) = Ret (Inr (p', w'))" "p \<le> length (cv_items w)"
        "b < branch_id w" for d p w p' w' b
      using clause_extends [OF assms small [OF that(1)] that(3,4,2)] by blast
  qed
  then show ?thesis
    unfolding visit_try_def
    by (intro grows_rtry grows_opt grows_expression)
       (auto simp: Let_def visit_req_def split: option.split list.split intro: grows_err)
qed

lemma grows_if_statement:
  assumes "\<And>m u. size m < size n \<Longrightarrow> grows {} (visit_body m u) u"
  shows "grows {} (visit_if visit_body n v) v"
  unfolding visit_if_def
  by (intro grows_rtry grows_opt grows_expression grows_if_bodies assms size_attr_node)

lemma grows_statement:
  assumes smaller: "\<And>m u. size m < size n \<Longrightarrow> grows {} (visit_block m u) u"
    "\<And>m u. size m < size n \<Longrightarrow> grows {} (visit_statement m u) u"
    "\<And>m u. size m < size n \<Longrightarrow> grows {} (visit_block_or_statement m u) u"
  shows "grows {} (visit_statement n v) v"
proof -
  have case_body: "size b < size n" if "attr_nodes k n = Some cs" "c \<in> set cs" "node_body c = Some b" for k cs c b
    using size_attr_nodes [OF that(1,2)] size_node_body [OF that(3)] by simp
  have same: "grows {} (visit_block n u) u" "grows {} (visit_modifier_or_yul_fn_definition n u) u" for u
    using grows_block [of n u] grows_modifier [of n u] smaller by blast+
  show ?thesis
    by (subst visit_statement.simps)
       (intro grow grows_yul_if grows_try grows_if_statement grows_expression same smaller;
        (erule size_attr_node size_node_body case_body size_attr_nodes | assumption)+)
qed

lemma grows_block_or_statement:
  "grows {} (visit_block n v) v \<Longrightarrow> grows {} (visit_statement n v) v \<Longrightarrow> grows {} (visit_block_or_statement n v) v"
  unfolding visit_block_or_statement.simps by (intro grow)

lemma visits_grow:
  "(\<forall>v. grows {} (visit_block n v) v) \<and> (\<forall>v. grows {} (visit_statement n v) v) \<and> (\<forall>v. grows {} (visit_block_or_statement n v) v)"
proof (induction "size n" arbitrary: n rule: less_induct)
  case less
  have b: "grows {} (visit_block n v) v" for v by (rule grows_block) (use less in blast)
  have s: "grows {} (visit_statement n v) v" for v by (rule grows_statement) (use less in blast)+
  show ?case using b s grows_block_or_statement by blast
qed

lemma grows_contract: "grows {} (visit_contract n v) v"
proof -
  have fn: "grows {} (visit_function_definition m u) u" for m u
    unfolding visit_function_definition_def
    by (intro grows_opt) (auto intro!: grow visits_grow [THEN conjunct1, rule_format] split: option.split)
  have modifier: "grows {} (visit_modifier_or_yul_fn_definition m u) u" for m u
    using grows_modifier visits_grow by blast
  show ?thesis unfolding visit_contract_def by (intro grow fn modifier)
qed

text \<open>
  C22: The items found in a contract are well-formed: they start without hits and belong to
  the contract, no two branch items share branch and path, a branch that is anchored at its
  jump has path 0 or 1, and the lines are reported once and in ascending order. This holds
  for every syntax tree with fewer than \<open>2 ^ 32\<close> branches and items.
\<close>

theorem visitor_items_wf:
  assumes "ContractVisitor_new src source name = Ret v0" "visit_contract n v0 = Ret (Inr v)"
    and "branch_id v \<le> 2 ^ 32" "length (cv_items v) \<le> 2 ^ 32"
  shows "distinct (branch_ids (cv_items v)) \<and> sorted_wrt (<) (line_starts (cv_items v)) \<and>
    (\<forall>i \<in> set (cv_items v). item_hits i = 0 \<and> source_id (item_loc i) = src \<and> contract_name (item_loc i) = name \<and>
       branch_path_ok i)"
proof -
  have v0: "cv_items v0 = []" "unat (cv_source_id v0) = src" "cv_contract_name v0 = name"
    using assms(1) by (auto simp: ContractVisitor_new_def unat_of_nat split: if_splits)
  have "extends {} v0 v" using grows_contract assms(2) by (simp add: grows_def)
  then obtain bs where a: "adds {} v0 v (cv_items v) bs" by (auto simp: extends_def adds_def v0)
  have inj: "inj_on (\<lambda>(b, p). (of_nat b :: u32, of_nat p :: u32)) (set bs)"
  proof (rule inj_onI, clarsimp)
    fix b p b' p'
    assume "(b, p) \<in> set bs" "(b', p') \<in> set bs"
      and eq: "(of_nat b :: u32) = of_nat b'" "(of_nat p :: u32) = of_nat p'"
    then have "b < 2 ^ 32" "p < 2 ^ 32" "b' < 2 ^ 32" "p' < 2 ^ 32" using a assms(3,4) by (fastforce simp: adds_def)+
    then show "b = b' \<and> p = p'" using eq of_nat_u32_eq by blast
  qed
  have "distinct (map (\<lambda>(b, p). (of_nat b :: u32, of_nat p :: u32)) bs)"
    using a inj by (simp add: distinct_map adds_def)
  then show ?thesis using a v0 by (auto simp: adds_def item_of_def)
qed

text \<open>A contract with one function: a call of \<^verbatim>\<open>require\<close> and a conditional with two branches.\<close>

definition at :: "u64 \<Rightarrow> u64 \<Rightarrow> src_location" where
  "at start len = \<lparr>sl_start = start, sl_length = Some len\<rparr>"

definition sample_require :: Node where
  "sample_require = Node ExpressionStatement (at 4 2) [] None
     [(''expression'', ANode (Node FunctionCall (at 4 2) [] None
        [(''kind'', AString ''functionCall''), (''expression'', ANode (Node Identifier (at 4 2) [] None [(''name'', AString ''require'')]))]))]"

definition sample_if :: Node where
  "sample_if = Node IfStatement (at 8 9) [] None
     [(''condition'', ANode (Node Identifier (at 8 2) [] None [])),
      (''trueBody'', ANode (Node Block (at 10 2) [] None [(''statements'', ANodes [Node EmitStatement (at 10 2) [] None []])])),
      (''falseBody'', ANode (Node Block (at 14 2) [] None []))]"

definition sample_contract :: Node where
  "sample_contract = Node ContractDefinition (at 0 19)
     [Node FunctionDefinition (at 2 15) [] (Some (Node Block (at 3 14) [] None [(''statements'', ANodes [sample_require, sample_if])]))
        [(''name'', AString ''f''), (''kind'', AString ''function'')]]
     None [(''contractKind'', AString ''contract''), (''name'', AString ''C'')]"

definition sample_source :: string where
  "sample_source = ''ab cdef'' @ newline # ''ghijklmnopq''"

lemma sample_visit:
  "\<exists>v0 v. ContractVisitor_new 3 sample_source ''C'' = Ret v0 \<and> visit_contract sample_contract v0 = Ret (Inr v) \<and>
     branch_id v = 2 \<and> length (cv_items v) = 9 \<and> branch_ids (cv_items v) = [(0, 0), (0, 1), (1, 0), (1, 1)] \<and> line_starts (cv_items v) = [1, 2] \<and>
     \<not> list_ex test_item (cv_items v)"
proof -
  let ?v0 = "\<lparr>cv_source_id = 3, cv_source = sample_source, cv_contract_name = ''C'', branch_id = 0, last_line = 0, cv_items = []\<rparr>"
  have "case visit_contract sample_contract ?v0 of
      Ret (Inr v) \<Rightarrow> branch_id v = 2 \<and> length (cv_items v) = 9 \<and>
        branch_ids (cv_items v) = [(0, 0), (0, 1), (1, 0), (1, 1)] \<and> line_starts (cv_items v) = [1, 2] \<and>
        \<not> list_ex test_item (cv_items v)
    | _ \<Rightarrow> False" by code_simp
  then show ?thesis by (auto simp: ContractVisitor_new_def split: rust.splits sum.splits)
qed

theorem visitor_items_wf_witness:
  "\<exists>v0 v. ContractVisitor_new 3 sample_source ''C'' = Ret v0 \<and> visit_contract sample_contract v0 = Ret (Inr v) \<and>
     length (branch_ids (cv_items v)) = 4 \<and> distinct (branch_ids (cv_items v)) \<and>
     (\<forall>i \<in> set (cv_items v). source_id (item_loc i) = 3 \<and> branch_path_ok i)"
proof -
  obtain v0 v where v: "ContractVisitor_new 3 sample_source ''C'' = Ret v0" "visit_contract sample_contract v0 = Ret (Inr v)"
    "branch_id v = 2" "length (cv_items v) = 9" "branch_ids (cv_items v) = [(0, 0), (0, 1), (1, 0), (1, 1)]"
    using sample_visit by blast
  have l: "branch_id v \<le> 2 ^ 32" "length (cv_items v) \<le> 2 ^ 32" unfolding v(3,4) by simp_all
  show ?thesis using visitor_items_wf [OF v(1,2) l] v(1,2,5) by (intro exI [of _ v0] exI [of _ v]) simp
qed

subsection \<open>Line numbers\<close>

text \<open>
  The number of lines before an offset is the number of the line of the offset, counted from
  one, except at the start of a line, where it is one less.
\<close>

lemma length_split_lines:
  "length (split_lines acc s) = length (filter (\<lambda>c. c = newline) s) +
     (if s = [] then (if acc = [] then 0 else 1) else if last s = newline then 0 else 1)"
  by (induction acc s rule: split_lines.induct) auto

lemma lines_before_offset:
  "length (str_lines (prev @ [newline])) = Suc (length (filter (\<lambda>c. c = newline) prev))"
  "blanks \<noteq> [] \<Longrightarrow> newline \<notin> set blanks \<Longrightarrow>
     length (str_lines (prev @ [newline] @ blanks)) = Suc (Suc (length (filter (\<lambda>c. c = newline) prev)))"
  by (auto simp: str_lines_def length_split_lines filter_empty_conv dest: last_in_set)

subsection \<open>From the visitor to the anchors\<close>

lemma branch_loop_panics:
  "branch_loop code sm item loc pc c acc = Panic msg \<Longrightarrow> msg \<in> {''index out of bounds'', ''PC is too big''}"
proof (induction "length code - pc" arbitrary: pc c acc rule: less_induct)
  case less
  have IH: "branch_loop code sm item loc pc' c' acc' = Panic msg \<Longrightarrow> msg = ''index out of bounds'' \<or> msg = ''PC is too big''"
    if "pc < pc'" "pc < length code" for pc' c' acc'
    using less.hyps [of pc' c' acc'] that by auto
  from less.prems show ?case
    by (subst (asm) branch_loop.simps) (simp add: Let_def split: if_splits, (erule IH [rotated -1]; simp)+)
qed

lemma item_anchor_paths:
  assumes "branch_path_ok item"
  shows "item_anchor code sm ic (ident, item) \<noteq> Panic ''too many path IDs for branch''"
proof (cases "item_kind item")
  case (Branch b path first)
  with assms have path: "first \<or> path = 0 \<or> path = 1" by (auto simp: branch_path_ok_def split: bool.splits)
  have "find_anchor_branch code sm ident (item_loc item) \<noteq> Panic ''too many path IDs for branch''"
    using branch_loop_panics [of code sm ident "item_loc item" 0 0 None "''too many path IDs for branch''"]
    by (cases "branch_loop code sm ident (item_loc item) 0 0 None") (auto simp: find_anchor_branch_def split: sum.splits option.splits)
  with Branch path show ?thesis
    by (cases "find_anchor_branch code sm ident (item_loc item)")
       (auto simp: item_anchor_def rtry_def split: bool.split sum.splits)
qed (simp_all add: item_anchor_def)

lemma item_anchors_paths:
  "\<forall>(ident, item) \<in> set items. branch_path_ok item \<Longrightarrow> item_anchors code sm ic items \<noteq> Panic ''too many path IDs for branch''"
proof (induction items)
  case (Cons i items)
  obtain ident item where i: "i = (ident, item)" by (cases i)
  with Cons item_anchor_paths [of item code sm ic ident] show ?case
    by (cases "item_anchor code sm ic (ident, item)"; cases "item_anchors code sm ic items") auto
qed simp

lemma source_anchors_paths:
  assumes "\<forall>item \<in> set (all_items a). branch_path_ok item"
  shows "source_anchors code sm ic a ss \<noteq> Panic ''too many path IDs for branch''"
proof (induction ss)
  case (Cons s ss)
  show ?case
  proof (cases "items_for_source_enumerated (unat s) a")
    case (Ret items)
    then have "snd ` set items \<subseteq> set (all_items a)"
      by (auto simp: items_for_source_enumerated_def items_for_source_def in_set_enumerate_eq Let_def
          split: if_splits prod.splits dest!: in_set_takeD in_set_dropD elim!: rbind_RetE)
    with assms have "\<forall>(ident, item) \<in> set items. branch_path_ok item" by force
    with Ret Cons item_anchors_paths [of items code sm ic] show ?thesis
      by (cases "item_anchors code sm ic items"; cases "source_anchors code sm ic a ss") auto
  next
    case (Panic msg)
    then have "msg = ''range end index out of range''"
      by (auto simp: items_for_source_enumerated_def items_for_source_def Let_def split: if_splits prod.splits)
    with Panic show ?thesis by simp
  qed
qed simp

lemma all_items_fold: "all_items (fold add_source_items ys a) = all_items a @ concat (map snd ys)"
proof (induction ys arbitrary: a)
  case (Cons y ys)
  then show ?case by (cases y) (simp add: add_source_items_def Let_def split: prod.split)
qed simp

lemma set_all_items: "set (all_items (analysis_new xs)) = (\<Union>p \<in> set xs. set (snd p))"
proof (cases "sort_key analysis_key xs = []")
  case True
  then have "xs = []" by (metis length_0_conv length_sort)
  then show ?thesis by (simp add: analysis_new_def analysis_default_def)
next
  case False
  then show ?thesis by (simp add: analysis_new_def Let_def all_items_fold)
qed

definition analysed_item :: "CoverageItem \<Rightarrow> bool" where
  "analysed_item i = (item_hits i = 0 \<and> branch_path_ok i \<and> \<not> test_item i)"

lemma contract_items_analysed:
  assumes "contract_items src content n = Ret (Inr items)" "i \<in> set items"
  shows "analysed_item i" "source_id (item_loc i) = src"
proof -
  obtain name v0 v where r: "ContractVisitor_new src content name = Ret v0" "visit_contract n v0 = Ret (Inr v)"
    "items = cv_items v" "\<not> list_ex test_item (cv_items v)"
    using assms by (auto simp: contract_items_def rtry_Ret_Inr_iff split: if_splits option.splits elim!: rbind_RetE)
  have "extends {} v0 v" using grows_contract r(2) by (simp add: grows_def)
  moreover have "cv_items v0 = []" "unat (cv_source_id v0) = src"
    using r(1) by (auto simp: ContractVisitor_new_def unat_of_nat split: if_splits)
  ultimately have "item_of v0 i" using assms(2) r(3) by (auto simp: extends_def adds_def)
  then show "analysed_item i" "source_id (item_loc i) = src"
    using r(4) assms(2) r(3) \<open>unat (cv_source_id v0) = src\<close> by (auto simp: item_of_def analysed_item_def list_ex_iff)
qed

lemma collected_items:
  assumes "visit_all (\<lambda>(src, content, n) acc. rtry (contract_items src content n) (\<lambda>items. Ret (Inr (acc @ [(src, items)]))))
      jobs acc = Ret (Inr xs)" "(src, items) \<in> set xs"
  shows "(src, items) \<in> set acc \<or> (\<exists>content n. (src, content, n) \<in> set jobs \<and> contract_items src content n = Ret (Inr items))"
  using assms(1)
proof (induction jobs arbitrary: acc)
  case Nil
  then show ?case using assms(2) by simp
next
  case (Cons j jobs)
  then obtain s c n its where j: "j = (s, c, n)" "contract_items s c n = Ret (Inr its)"
    "visit_all (\<lambda>(src, content, n) acc. rtry (contract_items src content n) (\<lambda>items. Ret (Inr (acc @ [(src, items)]))))
      jobs (acc @ [(s, its)]) = Ret (Inr xs)"
    by (cases j) (auto simp: rtry_Ret_Inr_iff)
  from Cons.IH [OF j(3)] j(1,2) show ?case by auto
qed



end
