(* ===== verification/Fmt_Strings.thy ===== *)
theory Fmt_Strings
  imports Rust_Str "HOL-Library.Product_Lexorder"
begin

text \<open>
  Comments and quoted strings in Solidity sources (\<^verbatim>\<open>fmt/src/comments.rs\<close> and
  \<^verbatim>\<open>fmt/src/string.rs\<close>): the state machines that classify every character, and what the
  formatter derives from them.

  Characters are those of HOL strings. Indices are byte offsets, so a character above 127
  counts two bytes. The machines are compared with recursive definitions of what a comment
  and a quoted string are.
\<close>

subsection \<open>The comment machine\<close>

datatype CommentState =
  NoComment | LineStart1 | LineStart2 | LineComment | BlockStart1 | BlockStart2 | BlockComment | BlockEnd1 | BlockEnd2

fun comment_next :: "CommentState \<Rightarrow> char \<Rightarrow> char option \<Rightarrow> CommentState" where
  "comment_next NoComment ch peek =
     (if ch = CHR ''/'' then
        (case peek of
           Some c \<Rightarrow> if c = CHR ''/'' then LineStart1 else if c = CHR ''*'' then BlockStart1 else NoComment
         | None \<Rightarrow> NoComment)
      else NoComment)"
| "comment_next LineStart1 ch peek = LineStart2"
| "comment_next LineStart2 ch peek = LineComment"
| "comment_next LineComment ch peek = (if ch = newline then NoComment else LineComment)"
| "comment_next BlockStart1 ch peek = BlockStart2"
| "comment_next BlockStart2 ch peek = BlockComment"
| "comment_next BlockComment ch peek =
     (if ch = CHR ''*'' \<and> peek = Some (CHR ''/'') then BlockEnd1 else BlockComment)"
| "comment_next BlockEnd1 ch peek = BlockEnd2"
| "comment_next BlockEnd2 ch peek = NoComment"

fun peek_char :: "string \<Rightarrow> char option" where
  "peek_char [] = None"
| "peek_char (c # cs) = Some c"

fun comment_states_from :: "CommentState \<Rightarrow> nat \<Rightarrow> string \<Rightarrow> (CommentState \<times> nat \<times> char) list" where
  "comment_states_from st idx [] = []"
| "comment_states_from st idx (ch # cs) =
     (let st' = comment_next st ch (peek_char cs)
      in (st', idx, ch) # comment_states_from st' (idx + len_utf8 ch) cs)"

definition comment_state_char_indices :: "string \<Rightarrow> (CommentState \<times> nat \<times> char) list" where
  "comment_state_char_indices s = comment_states_from NoComment 0 s"

definition non_comment_chars :: "string \<Rightarrow> string" where
  "non_comment_chars s = List.map_filter (\<lambda>(st, idx, ch). if st = NoComment then Some ch else None) (comment_state_char_indices s)"

definition trim_comments :: "string \<Rightarrow> string" where
  "trim_comments s = non_comment_chars s"

text \<open>
  What a comment is: from two slashes up to the end of the line, from slash and star up to
  the next star and slash.
\<close>

fun skip_line :: "string \<Rightarrow> string" where
  "skip_line [] = []"
| "skip_line (c # cs) = (if c = newline then c # cs else skip_line cs)"

fun skip_block :: "string \<Rightarrow> string" where
  "skip_block (c # d # cs) = (if c = CHR ''*'' \<and> d = CHR ''/'' then cs else skip_block (d # cs))"
| "skip_block cs = []"

lemma length_skip_line: "length (skip_line cs) \<le> length cs"
  by (induction cs) auto

lemma length_skip_block: "length (skip_block cs) \<le> length cs"
  by (induction cs rule: skip_block.induct) auto

function strip_comments :: "string \<Rightarrow> string" where
  "strip_comments s =
     (case s of
        c # d # cs \<Rightarrow>
          if c = CHR ''/'' \<and> d = CHR ''/'' then strip_comments (skip_line cs)
          else if c = CHR ''/'' \<and> d = CHR ''*'' then strip_comments (skip_block cs)
          else c # strip_comments (d # cs)
      | _ \<Rightarrow> s)"
  by auto
termination
  by (relation "measure length") (auto simp: less_Suc_eq_le length_skip_line length_skip_block le_SucI)

declare strip_comments.simps [simp del]

text \<open>
  No comment is empty, that is, two slashes are not at the end of a line and slash and star
  not before star and slash, and no comment follows a block comment at once.
\<close>

definition plain_comments :: "string \<Rightarrow> bool" where
  "plain_comments s =
     (\<not> sublist (''//'' @ [newline]) s \<and> \<not> sublist ''/**/'' s \<and> \<not> sublist ''*///'' s \<and> \<not> sublist ''*//*'' s)"

lemma plain_comments_suffix: "plain_comments (xs @ ys) \<Longrightarrow> plain_comments ys"
  unfolding plain_comments_def using sublist_order.order_trans [OF _ sublist_append_leftI] by blast

lemma plain_commentsD:
  "plain_comments (xs @ p @ ys) \<Longrightarrow> p \<noteq> ''//'' @ [newline] \<and> p \<noteq> ''/**/'' \<and> p \<noteq> ''*///'' \<and> p \<noteq> ''*//*''"
  unfolding plain_comments_def using sublist_appendI [of p xs ys] by blast

text \<open>The characters that the machine leaves, without their indices.\<close>

fun code_from :: "CommentState \<Rightarrow> string \<Rightarrow> string" where
  "code_from st [] = []"
| "code_from st (c # cs) =
     (case comment_next st c (peek_char cs) of
        NoComment \<Rightarrow> c # code_from NoComment cs
      | st' \<Rightarrow> code_from st' cs)"

lemma non_comment_chars_from:
  "List.map_filter (\<lambda>(st, idx, ch). if st = NoComment then Some ch else None) (comment_states_from st i s) =
   code_from st s"
proof (induction s arbitrary: st i)
  case (Cons c cs)
  then show ?case
    by (cases "comment_next st c (peek_char cs)") (simp_all add: List.map_filter_simps Let_def)
qed (simp add: List.map_filter_simps)

lemma trim_comments_code: "trim_comments s = code_from NoComment s"
  by (simp add: trim_comments_def non_comment_chars_def comment_state_char_indices_def non_comment_chars_from)

lemma code_line: "code_from LineComment s = code_from NoComment (skip_line s)"
  by (induction s) auto

lemma code_block: "code_from BlockComment s = code_from BlockEnd2 (skip_block s)"
proof (induction s rule: skip_block.induct)
  case (1 c d cs)
  show ?case
  proof (cases "c = CHR ''*'' \<and> d = CHR ''/''")
    case False
    then have "code_from BlockComment (c # d # cs) = code_from BlockComment (d # cs)"
      by (auto simp del: code_from.simps(2) simp: code_from.simps(2) [of _ c])
    with 1 [OF False] False show ?thesis by (auto simp del: code_from.simps)
  qed simp
qed simp_all

lemma code_block_end:
  "\<not> prefix ''//'' s \<Longrightarrow> \<not> prefix ''/*'' s \<Longrightarrow> code_from BlockEnd2 s = code_from NoComment s"
proof (cases s)
  case (Cons c cs)
  assume "\<not> prefix ''//'' s" "\<not> prefix ''/*'' s"
  with Cons have "comment_next NoComment c (peek_char cs) = NoComment" by (cases cs) auto
  with Cons show ?thesis by simp
qed simp

lemma skip_block_split: "skip_block s = r \<Longrightarrow> r \<noteq> [] \<Longrightarrow> \<exists>ys. s = ys @ ''*/'' @ r"
proof (induction s rule: skip_block.induct)
  case (1 c d cs)
  show ?case
  proof (cases "c = CHR ''*'' \<and> d = CHR ''/''")
    case True
    with 1 show ?thesis by auto
  next
    case False
    with 1 obtain ys where "d # cs = ys @ ''*/'' @ r" by auto
    then show ?thesis by (intro exI [of _ "c # ys"]) simp
  qed
qed simp_all

lemma skip_line_suffix: "suffix (skip_line s) s"
  by (induction s) (auto intro: suffix_ConsI)

lemma strip_simps:
  "strip_comments [] = []" "strip_comments [c] = [c]"
  "strip_comments (CHR ''/'' # CHR ''/'' # cs) = strip_comments (skip_line cs)"
  "strip_comments (CHR ''/'' # CHR ''*'' # cs) = strip_comments (skip_block cs)"
  "\<not> (c = CHR ''/'' \<and> (d = CHR ''/'' \<or> d = CHR ''*'')) \<Longrightarrow> strip_comments (c # d # cs) = c # strip_comments (d # cs)"
  by (auto simp: strip_comments.simps [of "[]"] strip_comments.simps [of "[c]"]
      strip_comments.simps [of "CHR ''/'' # CHR ''/'' # cs"] strip_comments.simps [of "CHR ''/'' # CHR ''*'' # cs"]
      strip_comments.simps [of "c # d # cs"])

lemma code_strip: "plain_comments s \<Longrightarrow> code_from NoComment s = strip_comments s"
proof (induction "length s" arbitrary: s rule: less_induct)
  case less
  show ?case
  proof (cases s rule: skip_block.cases)
    case (1 c d cs)
    note s = this
    consider (line) "c = CHR ''/''" "d = CHR ''/''" | (block) "c = CHR ''/''" "d = CHR ''*''"
      | (code) "\<not> (c = CHR ''/'' \<and> (d = CHR ''/'' \<or> d = CHR ''*''))"
      by blast
    then show ?thesis
    proof cases
      case line
      from skip_line_suffix [of cs] obtain ys where ys: "cs = ys @ skip_line cs" by (auto simp: suffix_def)
      then have "s = (c # d # ys) @ skip_line cs" by (simp add: s)
      with less.prems have "plain_comments (skip_line cs)" using plain_comments_suffix by metis
      with less.hyps [of "skip_line cs"] length_skip_line [of cs]
      have IH: "code_from NoComment (skip_line cs) = strip_comments (skip_line cs)" by (simp add: s)
      have "\<not> prefix [newline] cs"
        using less.prems plain_commentsD [of "[]" "''//'' @ [newline]"] line by (auto simp: s prefix_def)
      then have "code_from LineStart2 cs = code_from NoComment (skip_line cs)"
        by (cases cs) (simp_all add: code_line)
      with IH line show ?thesis by (simp add: s strip_simps)
    next
      case block
      have "\<not> prefix ''*/'' cs"
        using less.prems plain_commentsD [of "[]" "''/**/''"] block by (auto simp: s prefix_def)
      then have start: "code_from BlockStart2 cs = code_from BlockEnd2 (skip_block cs)"
        by (cases cs rule: skip_block.cases) (auto simp: code_block simp del: code_from.simps(2) simp: code_from.simps(2) [of BlockStart2])
      have "code_from BlockEnd2 (skip_block cs) = strip_comments (skip_block cs)"
      proof (cases "skip_block cs = []")
        case False
        from skip_block_split [OF refl False] obtain ys where ys: "cs = ys @ ''*/'' @ skip_block cs" by blast
        then have s': "s = (c # d # ys) @ ''*/'' @ skip_block cs" by (simp add: s)
        have "plain_comments (skip_block cs)"
          using less.prems plain_comments_suffix [of "(c # d # ys) @ ''*/''"] by (simp add: s')
        with less.hyps [of "skip_block cs"] length_skip_block [of cs]
        have IH: "code_from NoComment (skip_block cs) = strip_comments (skip_block cs)" by (simp add: s)
        have "\<not> prefix ''//'' (skip_block cs)" "\<not> prefix ''/*'' (skip_block cs)"
          using less.prems plain_commentsD [of "c # d # ys" "''*///''"] plain_commentsD [of "c # d # ys" "''*//*''"]
          unfolding s' by (force simp: prefix_def)+
        with IH show ?thesis by (simp add: code_block_end)
      qed (simp add: strip_simps)
      with start block show ?thesis by (simp add: s strip_simps)
    next
      case code
      have "plain_comments (d # cs)" using less.prems plain_comments_suffix [of "[c]" "d # cs"] by (simp add: s)
      with less.hyps [of "d # cs"] code show ?thesis by (auto simp: s strip_simps simp del: code_from.simps(2) simp: code_from.simps(2) [of _ c])
    qed
  next
    case "2_1"
    then show ?thesis by (simp add: strip_simps(1))
  next
    case "2_2"
    then show ?thesis by (simp add: strip_simps(2))
  qed
qed

lemma skip_line_none: "newline \<notin> set s \<Longrightarrow> skip_line s = []"
  by (induction s) auto

lemma skip_block_none: "\<not> sublist ''*/'' s \<Longrightarrow> skip_block s = []"
  using skip_block_split [OF refl, of s] sublist_appendI [of "''*/''"] by metis

text \<open>
  C28: Removing comments from a source whose comments are neither empty nor follow a block
  comment at once leaves what is outside of comments. For other sources this fails: after two
  slashes at the end of a line the next line disappears as well, and after a block comment
  without contents everything up to the next end of a block comment.
\<close>

theorem trim_comments_reference:
  "(plain_comments s \<longrightarrow> trim_comments s = strip_comments s) \<and>
   (newline \<notin> set x \<longrightarrow> trim_comments (''//'' @ newline # x) = []) \<and>
   (\<not> sublist ''*/'' x \<longrightarrow> trim_comments (''/**/'' @ x) = [])"
  by (simp add: trim_comments_code code_strip code_line skip_line_none code_block skip_block_none)

theorem trim_comments_reference_witness:
  "plain_comments ''a/*b*/c//d'' \<and> trim_comments ''a/*b*/c//d'' = ''ac'' \<and>
   trim_comments (''//'' @ newline # ''code'') = [] \<and> strip_comments (''//'' @ newline # ''code'') = newline # ''code''"
proof -
  have "plain_comments ''a/*b*/c//d''" by code_simp
  moreover have "strip_comments ''a/*b*/c//d'' = ''ac''" by (simp add: strip_simps)
  moreover have "strip_comments (''//'' @ newline # ''code'') = newline # ''code''" by (simp add: strip_simps)
  ultimately show ?thesis
    using trim_comments_reference [of "''a/*b*/c//d''" "''code''"] by simp
qed

subsection \<open>Comments with their position\<close>

datatype CommentType = CtLine | CtBlock | CtDocLine | CtDocBlock

datatype CommentPosition = Prefix | Postfix

record Comment =
  c_type :: CommentType
  c_loc :: "nat \<times> nat"
  c_text :: string

record CommentWithMetadata =
  cm_ty :: CommentType
  cm_loc :: "nat \<times> nat"
  has_newline_before :: bool
  indent_len :: nat
  cm_comment :: string
  cm_position :: CommentPosition

definition CommentWithMetadata_new :: "Comment \<Rightarrow> CommentPosition \<Rightarrow> bool \<Rightarrow> nat \<Rightarrow> CommentWithMetadata" where
  "CommentWithMetadata_new comment pos newline_before indent =
     \<lparr>cm_ty = c_type comment, cm_loc = c_loc comment, has_newline_before = newline_before, indent_len = indent,
      cm_comment = trim_end (c_text comment), cm_position = pos\<rparr>"

definition cm_is_prefix :: "CommentWithMetadata \<Rightarrow> bool" where
  "cm_is_prefix c = (cm_position c = Prefix)"

definition cm_is_line :: "CommentWithMetadata \<Rightarrow> bool" where
  "cm_is_line c = (cm_ty c \<in> {CtLine, CtDocLine})"

definition cm_is_doc_block :: "CommentWithMetadata \<Rightarrow> bool" where
  "cm_is_doc_block c = (cm_ty c = CtDocBlock)"

definition cm_is_before :: "nat \<Rightarrow> CommentWithMetadata \<Rightarrow> bool" where
  "cm_is_before byte c = (fst (cm_loc c) < byte)"

fun start_token :: "CommentType \<Rightarrow> string" where
  "start_token CtLine = ''//''"
| "start_token CtBlock = ''/*''"
| "start_token CtDocLine = ''///''"
| "start_token CtDocBlock = ''/**''"

fun wrap_token :: "CommentType \<Rightarrow> string" where
  "wrap_token CtLine = ''// ''"
| "wrap_token CtDocLine = ''/// ''"
| "wrap_token CtBlock = []"
| "wrap_token CtDocBlock = '' * ''"

fun end_token :: "CommentType \<Rightarrow> string option" where
  "end_token CtLine = None"
| "end_token CtDocLine = None"
| "end_token CtBlock = Some ''*/''"
| "end_token CtDocBlock = Some ''*/''"

definition comment_contents :: "CommentWithMetadata \<Rightarrow> string" where
  "comment_contents c =
     (let s = cm_comment c;
          s1 = (case strip_prefix (start_token (cm_ty c)) s of Some r \<Rightarrow> r | None \<Rightarrow> s)
      in case end_token (cm_ty c) of
           None \<Rightarrow> s1
         | Some e \<Rightarrow> (case strip_suffix e s1 of Some r \<Rightarrow> r | None \<Rightarrow> s1))"

text \<open>The last byte offset of code before a comment, and the place of the comment.\<close>

definition code_end :: "string \<Rightarrow> nat" where
  "code_end src_before =
     fold (\<lambda>(st, idx, ch) e. if st = NoComment \<and> \<not> is_whitespace ch then idx else e)
       (comment_state_char_indices src_before) 0"

definition comment_place ::
    "Comment \<Rightarrow> string \<Rightarrow> string \<Rightarrow> nat \<Rightarrow> string option \<Rightarrow> CommentWithMetadata option \<Rightarrow> CommentPosition \<times> bool" where
  "comment_place comment src src_before indent last_line last_comment =
     (if newline \<in> set (byte_drop (code_end src_before) src_before) then
        (case last_line of
           None \<Rightarrow> (Prefix, False)
         | Some line \<Rightarrow>
             if line = [] then (Prefix, True)
             else if (case last_comment of
                        Some prev \<Rightarrow> code_end src_before < snd (cm_loc prev) \<and> \<not> cm_is_prefix prev
                      | None \<Rightarrow> False)
             then let next_indent_len =
                        fold (\<lambda>ch n. if ch = newline then 0 else n + 1)
                          (takeWhile is_whitespace (non_comment_chars (byte_drop (snd (c_loc comment)) src))) indent
                  in if next_indent_len < indent then (Postfix, False) else (Prefix, False)
             else (Prefix, False))
      else (Postfix, False))"

definition from_comment_and_src ::
    "Comment \<Rightarrow> string \<Rightarrow> CommentWithMetadata option \<Rightarrow> CommentWithMetadata" where
  "from_comment_and_src comment src last_comment =
     (let src_before = byte_take (fst (c_loc comment)) src
      in if src_before = [] then CommentWithMetadata_new comment Prefix False 0
         else
           let lines_before = rev (str_lines src_before);
               (this_line, lines_before1) =
                 (if last src_before = newline then ([], lines_before)
                  else case lines_before of [] \<Rightarrow> ([], []) | l # ls \<Rightarrow> (l, ls));
               indent = length (takeWhile is_whitespace this_line);
               last_line = (case lines_before1 of [] \<Rightarrow> None | l # _ \<Rightarrow> Some (trim_start l))
           in if c_type comment \<in> {CtDocLine, CtDocBlock}
              then CommentWithMetadata_new comment Prefix (case last_line of None \<Rightarrow> True | Some l \<Rightarrow> l = []) indent
              else let (pos, newline_before) = comment_place comment src src_before indent last_line last_comment
                   in CommentWithMetadata_new comment pos newline_before indent)"

lemma cm_loc_from_src [simp]: "cm_loc (from_comment_and_src c src prev) = c_loc c"
  by (simp add: from_comment_and_src_def CommentWithMetadata_new_def Let_def split: prod.split)

subsection \<open>The list of comments\<close>

record Comments =
  prefixes :: "CommentWithMetadata list"
  postfixes :: "CommentWithMetadata list"

fun add_comment ::
    "string \<Rightarrow> Comment \<Rightarrow> Comments \<times> CommentWithMetadata option \<Rightarrow> Comments \<times> CommentWithMetadata option" where
  "add_comment src comment (cs, last_comment) =
     (let c = from_comment_and_src comment src last_comment
      in (if cm_is_prefix c then cs\<lparr>prefixes := prefixes cs @ [c]\<rparr> else cs\<lparr>postfixes := postfixes cs @ [c]\<rparr>, Some c))"

definition Comments_new :: "Comment list \<Rightarrow> string \<Rightarrow> Comments" where
  "Comments_new comments src =
     fst (fold (add_comment src) (sort_key c_loc comments) (\<lparr>prefixes = [], postfixes = []\<rparr>, None))"

definition rotate_left :: "nat \<Rightarrow> 'a list \<Rightarrow> 'a list" where
  "rotate_left n xs = drop n xs @ take n xs"

definition split_off :: "nat \<Rightarrow> 'a list \<Rightarrow> 'a list \<times> 'a list" where
  "split_off n xs = (drop n xs, take n xs)"

definition remove_comments_before ::
    "nat \<Rightarrow> CommentWithMetadata list \<Rightarrow> CommentWithMetadata list \<times> CommentWithMetadata list" where
  "remove_comments_before byte comments =
     (let pos = (case position (\<lambda>c. \<not> cm_is_before byte c) comments of Some i \<Rightarrow> i | None \<Rightarrow> length comments)
      in if pos = 0 then ([], comments)
         else let rotated = rotate_left pos comments in split_off (length rotated - pos) rotated)"

definition remove_prefixes_before :: "nat \<Rightarrow> Comments \<Rightarrow> CommentWithMetadata list \<times> Comments" where
  "remove_prefixes_before byte cs =
     (let (removed, rest) = remove_comments_before byte (prefixes cs) in (removed, cs\<lparr>prefixes := rest\<rparr>))"

definition remove_postfixes_before :: "nat \<Rightarrow> Comments \<Rightarrow> CommentWithMetadata list \<times> Comments" where
  "remove_postfixes_before byte cs =
     (let (removed, rest) = remove_comments_before byte (postfixes cs) in (removed, cs\<lparr>postfixes := rest\<rparr>))"

fun merge_comments :: "CommentWithMetadata list \<Rightarrow> CommentWithMetadata list \<Rightarrow> CommentWithMetadata list" where
  "merge_comments [] ys = ys"
| "merge_comments xs [] = xs"
| "merge_comments (x # xs) (y # ys) =
     (if cm_loc x \<le> cm_loc y then x # merge_comments xs (y # ys) else y # merge_comments (x # xs) ys)"

definition remove_all_comments_before :: "nat \<Rightarrow> Comments \<Rightarrow> CommentWithMetadata list \<times> Comments" where
  "remove_all_comments_before byte cs =
     (let (pre, cs1) = remove_prefixes_before byte cs; (post, cs2) = remove_postfixes_before byte cs1
      in (merge_comments pre post, cs2))"

definition comments_iter :: "Comments \<Rightarrow> CommentWithMetadata list" where
  "comments_iter cs = merge_comments (prefixes cs) (postfixes cs)"

fun pop_front :: "'a list \<Rightarrow> 'a option \<times> 'a list" where
  "pop_front [] = (None, [])"
| "pop_front (x # xs) = (Some x, xs)"

definition comments_pop :: "Comments \<Rightarrow> CommentWithMetadata option \<times> Comments" where
  "comments_pop cs =
     (case comments_iter cs of
        [] \<Rightarrow> (None, cs)
      | c # _ \<Rightarrow>
          if cm_is_prefix c
          then let (x, rest) = pop_front (prefixes cs) in (x, cs\<lparr>prefixes := rest\<rparr>)
          else let (x, rest) = pop_front (postfixes cs) in (x, cs\<lparr>postfixes := rest\<rparr>))"

text \<open>Popping comments until there are none, at most \<open>n\<close> times.\<close>

fun pop_comments :: "nat \<Rightarrow> Comments \<Rightarrow> CommentWithMetadata list" where
  "pop_comments 0 cs = []"
| "pop_comments (Suc n) cs =
     (case comments_pop cs of (None, _) \<Rightarrow> [] | (Some c, cs') \<Rightarrow> c # pop_comments n cs')"

definition comments_inv :: "Comments \<Rightarrow> bool" where
  "comments_inv cs =
     ((\<forall>c \<in> set (prefixes cs). cm_is_prefix c) \<and> (\<forall>c \<in> set (postfixes cs). \<not> cm_is_prefix c) \<and>
      sorted (map cm_loc (prefixes cs)) \<and> sorted (map cm_loc (postfixes cs)))"

lemma takeWhile_position:
  "takeWhile p xs = take (case position (\<lambda>x. \<not> p x) xs of Some i \<Rightarrow> i | None \<Rightarrow> length xs) xs"
  "dropWhile p xs = drop (case position (\<lambda>x. \<not> p x) xs of Some i \<Rightarrow> i | None \<Rightarrow> length xs) xs"
  by (induction xs) (auto split: option.splits)

lemma remove_comments_before_eq:
  "remove_comments_before byte cs = (takeWhile (cm_is_before byte) cs, dropWhile (cm_is_before byte) cs)"
proof -
  let ?pos = "case position (\<lambda>c. \<not> cm_is_before byte c) cs of Some i \<Rightarrow> i | None \<Rightarrow> length cs"
  have "?pos \<le> length cs" using position_Some_less [of _ cs] by (fastforce split: option.split)
  then show ?thesis
    unfolding takeWhile_position remove_comments_before_def Let_def
    by (auto simp: rotate_left_def split_off_def)
qed

lemma mset_merge [simp]: "mset (merge_comments xs ys) = mset xs + mset ys"
  by (induction xs ys rule: merge_comments.induct) auto

lemma set_merge [simp]: "set (merge_comments xs ys) = set xs \<union> set ys"
  by (metis mset_merge set_mset_mset set_mset_union)

lemma sorted_merge:
  "sorted (map cm_loc xs) \<Longrightarrow> sorted (map cm_loc ys) \<Longrightarrow> sorted (map cm_loc (merge_comments xs ys))"
  by (induction xs ys rule: merge_comments.induct) auto

lemma merge_Nil2 [simp]: "merge_comments xs [] = xs"
  by (cases xs) simp_all

lemma pop_iter:
  assumes "comments_inv cs"
  shows "case comments_iter cs of
      [] \<Rightarrow> comments_pop cs = (None, cs)
    | c # rest \<Rightarrow> \<exists>cs'. comments_pop cs = (Some c, cs') \<and> comments_iter cs' = rest \<and> comments_inv cs'"
  using assms
  by (cases "prefixes cs"; cases "postfixes cs")
     (auto simp: comments_iter_def comments_pop_def comments_inv_def)

lemma pop_comments_iter: "comments_inv cs \<Longrightarrow> pop_comments n cs = take n (comments_iter cs)"
proof (induction n arbitrary: cs)
  case (Suc n)
  from pop_iter [OF Suc.prems] Suc.IH show ?case
    by (cases "comments_iter cs") auto
qed simp

lemma add_comment_inv:
  assumes "comments_inv cs" "\<forall>c \<in> set (prefixes cs @ postfixes cs). cm_loc c \<le> c_loc comment"
    and "add_comment src comment (cs, prev) = (cs', prev')"
  shows "comments_inv cs'" "\<forall>c \<in> set (prefixes cs' @ postfixes cs'). cm_loc c \<le> c_loc comment"
    and "mset (map cm_loc (prefixes cs' @ postfixes cs')) =
      add_mset (c_loc comment) (mset (map cm_loc (prefixes cs @ postfixes cs)))"
  using assms by (auto simp: comments_inv_def Let_def sorted_append split: if_splits)

lemma add_comments_inv:
  assumes "comments_inv cs" "sorted (map c_loc comments)"
    and "\<forall>c \<in> set (prefixes cs @ postfixes cs). \<forall>d \<in> set comments. cm_loc c \<le> c_loc d"
    and "fold (add_comment src) comments (cs, prev) = (cs', prev')"
  shows "comments_inv cs' \<and> mset (map cm_loc (prefixes cs' @ postfixes cs')) =
    mset (map c_loc comments) + mset (map cm_loc (prefixes cs @ postfixes cs))"
  using assms
proof (induction comments arbitrary: cs prev)
  case (Cons d comments)
  obtain cs1 prev1 where step: "add_comment src d (cs, prev) = (cs1, prev1)" by fastforce
  have le: "\<forall>c \<in> set (prefixes cs @ postfixes cs). cm_loc c \<le> c_loc d" using Cons.prems(3) by auto
  note inv = add_comment_inv [OF Cons.prems(1) le step]
  have "\<forall>c \<in> set (prefixes cs1 @ postfixes cs1). \<forall>e \<in> set comments. cm_loc c \<le> c_loc e"
    using inv(2) Cons.prems(2) by (fastforce intro: order_trans)
  from Cons.IH [OF inv(1) _ this, of prev1] Cons.prems(2,4) step inv(3) show ?case by auto
qed simp


subsection \<open>Quoted strings\<close>

datatype QuoteState = NoQuote | Opening char | QuotedString char | Escaping char | Escaped char | Closing char

definition is_quote :: "char \<Rightarrow> bool" where
  "is_quote ch = (ch = CHR 0x27 \<or> ch = CHR 0x22)"

abbreviation backslash :: char where "backslash \<equiv> CHR 0x5C"

definition in_quote_next :: "char \<Rightarrow> char \<Rightarrow> QuoteState" where
  "in_quote_next quote ch =
     (if ch = quote then Closing quote else if ch = backslash then Escaping quote else QuotedString quote)"

fun quote_next :: "QuoteState \<Rightarrow> char \<Rightarrow> QuoteState" where
  "quote_next NoQuote ch = (if is_quote ch then Opening ch else NoQuote)"
| "quote_next (Closing _) ch = (if is_quote ch then Opening ch else NoQuote)"
| "quote_next (QuotedString quote) ch = in_quote_next quote ch"
| "quote_next (Opening quote) ch = in_quote_next quote ch"
| "quote_next (Escaped quote) ch = in_quote_next quote ch"
| "quote_next (Escaping quote) ch = Escaped quote"

fun quote_states_from :: "QuoteState \<Rightarrow> nat \<Rightarrow> string \<Rightarrow> (QuoteState \<times> nat \<times> char) list" where
  "quote_states_from st idx [] = []"
| "quote_states_from st idx (ch # cs) =
     (let st' = quote_next st ch in (st', idx, ch) # quote_states_from st' (idx + len_utf8 ch) cs)"

definition quote_state_char_indices :: "string \<Rightarrow> (QuoteState \<times> nat \<times> char) list" where
  "quote_state_char_indices s = quote_states_from NoQuote 0 s"

fun find_closing :: "(QuoteState \<times> nat \<times> char) list \<Rightarrow> (nat \<times> (QuoteState \<times> nat \<times> char) list) option" where
  "find_closing [] = None"
| "find_closing ((Closing _, idx, _) # rest) = Some (idx, rest)"
| "find_closing (_ # rest) = find_closing rest"

lemma find_closing_length: "find_closing xs = Some (i, rest) \<Longrightarrow> length rest < length xs"
  by (induction xs rule: find_closing.induct) auto

fun quoted_next ::
    "(QuoteState \<times> nat \<times> char) list \<Rightarrow> ((char \<times> nat \<times> nat) \<times> (QuoteState \<times> nat \<times> char) list) option" where
  "quoted_next [] = None"
| "quoted_next ((NoQuote, _, _) # rest) = quoted_next rest"
| "quoted_next ((Closing quote, idx, _) # rest) = Some ((quote, idx, idx), rest)"
| "quoted_next ((Opening quote, start, _) # rest) = map_option (\<lambda>(idx, r). ((quote, start, idx), r)) (find_closing rest)"
| "quoted_next ((QuotedString quote, start, _) # rest) = map_option (\<lambda>(idx, r). ((quote, start, idx), r)) (find_closing rest)"
| "quoted_next ((Escaping quote, start, _) # rest) = map_option (\<lambda>(idx, r). ((quote, start, idx), r)) (find_closing rest)"
| "quoted_next ((Escaped quote, start, _) # rest) = map_option (\<lambda>(idx, r). ((quote, start, idx), r)) (find_closing rest)"

lemma quoted_next_length: "quoted_next xs = Some (x, rest) \<Longrightarrow> length rest < length xs"
  by (induction xs rule: quoted_next.induct) (auto dest: find_closing_length)

function quoted_iter :: "(QuoteState \<times> nat \<times> char) list \<Rightarrow> (char \<times> nat \<times> nat) list" where
  "quoted_iter xs = (case quoted_next xs of None \<Rightarrow> [] | Some (x, rest) \<Rightarrow> x # quoted_iter rest)"
  by pat_completeness auto
termination by (relation "measure length") (auto dest: quoted_next_length)

declare quoted_iter.simps [simp del]

definition quoted_ranges :: "string \<Rightarrow> (char \<times> nat \<times> nat) list" where
  "quoted_ranges s = quoted_iter (quote_state_char_indices s)"

definition is_quoted :: "string \<Rightarrow> bool" where
  "is_quoted s =
     (case quote_state_char_indices s of
        (Opening _, _, _) # rest \<Rightarrow> (case find_closing rest of Some (_, r) \<Rightarrow> r = [] | None \<Rightarrow> False)
      | _ \<Rightarrow> False)"

text \<open>
  What a quoted string is: its body ends before the first quote that no backslash escapes.
\<close>

function closed_by :: "char \<Rightarrow> string \<Rightarrow> (string \<times> string) option" where
  "closed_by q [] = None"
| "closed_by q (c # cs) =
     (if c = q then Some ([], cs)
      else if c = backslash then
        (case cs of [] \<Rightarrow> None | d # ds \<Rightarrow> map_option (\<lambda>(b, r). (c # d # b, r)) (closed_by q ds))
      else map_option (\<lambda>(b, r). (c # b, r)) (closed_by q cs))"
  by pat_completeness auto
termination by (relation "measure (length \<circ> snd)") auto

lemma closed_by_split: "closed_by q s = Some (b, r) \<Longrightarrow> s = b @ q # r"
  by (induction q s arbitrary: b r rule: closed_by.induct) (auto split: if_splits list.splits)

function quoted_parts :: "string \<Rightarrow> (char \<times> string) list" where
  "quoted_parts [] = []"
| "quoted_parts (c # cs) =
     (if is_quote c then
        (case closed_by c cs of None \<Rightarrow> [] | Some (b, r) \<Rightarrow> (c, c # b @ [c]) # quoted_parts r)
      else quoted_parts cs)"
  by pat_completeness auto
termination by (relation "measure length") (auto dest: closed_by_split)

lemma len_utf8_quote [simp]: "is_quote c \<Longrightarrow> len_utf8 c = Suc 0"
  by (auto simp: is_quote_def len_utf8_def)

declare quote_states_from.simps(2) [simp del]

lemma quote_states_Cons [simp]:
  "quote_states_from st idx (ch # cs) =
     (quote_next st ch, idx, ch) # quote_states_from (quote_next st ch) (idx + len_utf8 ch) cs"
  by (simp add: Let_def quote_states_from.simps(2))

lemma find_closing_inside:
  assumes "st \<in> {Opening q, QuotedString q, Escaped q}"
  shows "find_closing (quote_states_from st idx s) =
    (case closed_by q s of None \<Rightarrow> None
     | Some (b, r) \<Rightarrow> Some (idx + byte_len b, quote_states_from (Closing q) (idx + byte_len b + len_utf8 q) r))"
  using assms
proof (induction q s arbitrary: st idx rule: closed_by.induct)
  case (2 q c cs)
  have next': "quote_next st c = in_quote_next q c" using "2.prems" by auto
  show ?case
  proof (cases "c = q")
    case True
    then show ?thesis using next' by (simp add: in_quote_next_def)
  next
    case False
    note noq = this
    show ?thesis
    proof (cases "c = backslash")
      case True
      then show ?thesis
        using next' noq "2.IH"(1) [OF noq True, of _ _ "Escaped q"]
        by (cases cs) (auto simp: in_quote_next_def add.assoc split: option.split)
    next
      case False
      then show ?thesis
        using next' noq "2.IH"(2) [OF noq False, of "QuotedString q"]
        by (auto simp: in_quote_next_def add.assoc split: option.split)
    qed
  qed
qed simp

lemma is_quoted_closed_by:
  "is_quoted s \<longleftrightarrow> (\<exists>q b. is_quote q \<and> s = q # b @ [q] \<and> closed_by q (b @ [q]) = Some (b, []))"
proof (cases s)
  case (Cons c cs)
  have e: "quote_states_from st i r = [] \<longleftrightarrow> r = []" "[] = quote_states_from st i r \<longleftrightarrow> r = []" for st i r
    by (cases r; simp)+
  show ?thesis
  proof (cases "closed_by c cs")
    case None
    then show ?thesis
      using Cons by (auto simp: is_quoted_def quote_state_char_indices_def find_closing_inside)
  next
    case (Some br)
    then obtain b r where br: "closed_by c cs = Some (b, r)" by (cases br) auto
    then have "cs = b @ c # r" by (rule closed_by_split)
    then show ?thesis
      using Cons br by (auto simp: is_quoted_def quote_state_char_indices_def find_closing_inside e)
  qed
qed (simp add: is_quoted_def quote_state_char_indices_def)

lemma quoted_ranges_from:
  assumes "st = NoQuote \<or> (\<exists>q. st = Closing q)"
  shows "map (\<lambda>(q, a, b). (q, byte_slice (p @ s) a (b + 1))) (quoted_iter (quote_states_from st (byte_len p) s)) = quoted_parts s"
  using assms
proof (induction s arbitrary: st p rule: quoted_parts.induct)
  case 1
  then show ?case by (simp add: quoted_iter.simps)
next
  case (2 c cs)
  have st: "quote_next st c = (if is_quote c then Opening c else NoQuote)" using "2.prems" by auto
  show ?case
  proof (cases "is_quote c")
    case False
    have "quoted_iter (quote_states_from st (byte_len p) (c # cs)) = quoted_iter (quote_states_from NoQuote (byte_len (p @ [c])) cs)"
      using False st by (subst (1 2) quoted_iter.simps) simp
    then show ?thesis using "2.IH"(2) [OF False, of NoQuote "p @ [c]"] False by simp
  next
    case True
    show ?thesis
    proof (cases "closed_by c cs")
      case None
      then show ?thesis using True st by (subst quoted_iter.simps) (simp add: find_closing_inside)
    next
      case (Some br)
      then obtain b r where br: "closed_by c cs = Some (b, r)" by (cases br) auto
      then have cs: "cs = b @ c # r" by (rule closed_by_split)
      have "byte_slice (p @ c # cs) (byte_len p) (byte_len p + Suc (byte_len b) + 1) = c # b @ [c]"
        using True byte_slice_append [of "byte_len p" p _ "c # b @ [c]" r] by (simp add: cs)
      moreover have "p @ c # cs = (p @ c # b @ [c]) @ r" by (simp add: cs)
      ultimately show ?thesis
        using True st br "2.IH"(1) [OF True br refl, of "Closing c" "p @ c # b @ [c]"]
        by (subst quoted_iter.simps) (simp add: find_closing_inside algebra_simps)
    qed
  qed
qed

text \<open>
  C30: The quote machine finds the quoted strings of a source: a string counts as quoted iff
  it is a body between two equal quotes in which every such quote is escaped, and the ranges
  it reports are exactly the quoted strings a left-to-right scan finds.
\<close>

theorem quoted_ranges_reference:
  "(is_quoted s \<longleftrightarrow> (\<exists>q b. is_quote q \<and> s = q # b @ [q] \<and> closed_by q (b @ [q]) = Some (b, []))) \<and>
   map (\<lambda>(q, a, b). (q, byte_slice s a (b + 1))) (quoted_ranges s) = quoted_parts s"
  using is_quoted_closed_by quoted_ranges_from [of NoQuote "[]" s]
  by (simp add: quoted_ranges_def quote_state_char_indices_def)

end
