(* ===== verification/Fmt_Config.thy ===== *)
theory Fmt_Config
  imports Fmt_Strings
begin

text \<open>
  Inline configuration of the formatter (\<^verbatim>\<open>fmt/src/inline_config.rs\<close>): the items parsed
  from comments that start with \<^verbatim>\<open>forgefmt:\<close>, the ranges of the source they disable, and the
  test whether a location is disabled. Locations are pairs of byte offsets into one file.
\<close>

datatype InlineConfigItem = DisableNextItem | DisableLine | DisableNextLine | DisableStart | DisableEnd

definition item_from_str :: "string \<Rightarrow> string + InlineConfigItem" where
  "item_from_str s =
     (if s = ''disable-next-item'' then Inr DisableNextItem
      else if s = ''disable-line'' then Inr DisableLine
      else if s = ''disable-next-line'' then Inr DisableNextLine
      else if s = ''disable-start'' then Inr DisableStart
      else if s = ''disable-end'' then Inr DisableEnd
      else Inl s)"

definition parse_inline_config_items ::
    "Comments \<Rightarrow> ((nat \<times> nat) \<times> string + (nat \<times> nat) \<times> InlineConfigItem) list" where
  "parse_inline_config_items cs =
     List.map_filter (\<lambda>c.
       map_option (\<lambda>rest. case item_from_str (trim_end (trim_start rest)) of
           Inl bad \<Rightarrow> Inl (cm_loc c, bad) | Inr item \<Rightarrow> Inr (cm_loc c, item))
         (strip_prefix ''forgefmt:'' (trim_start (comment_contents c))))
       (comments_iter cs)"

record DisabledRange =
  dr_start :: nat
  dr_end :: nat
  loose :: bool

definition range_includes :: "nat \<times> nat \<Rightarrow> DisabledRange \<Rightarrow> bool" where
  "range_includes loc r = (dr_start r \<le> fst loc \<and> (if loose r then fst loc else snd loc) \<le> dr_end r)"

text \<open>Characters with their byte offsets.\<close>

fun char_indices_from :: "nat \<Rightarrow> string \<Rightarrow> (nat \<times> char) list" where
  "char_indices_from i [] = []"
| "char_indices_from i (c # cs) = (i, c) # char_indices_from (i + len_utf8 c) cs"

definition char_indices :: "string \<Rightarrow> (nat \<times> char) list" where
  "char_indices s = char_indices_from 0 s"

definition next_item_range :: "nat \<times> nat \<Rightarrow> string \<Rightarrow> DisabledRange option" where
  "next_item_range loc src =
     (let offset = snd loc;
          code = List.map_filter (\<lambda>(st, idx, ch). if st = NoComment then Some (idx, ch) else None)
                   (comment_state_char_indices (byte_drop offset src))
      in case dropWhile (\<lambda>(_, ch). is_whitespace ch) code of
           [] \<Rightarrow> None
         | (start, _) # rest \<Rightarrow>
             Some \<lparr>dr_start = start + offset,
                   dr_end = (case find (\<lambda>(_, ch). \<not> is_whitespace ch) rest of
                               Some (idx, _) \<Rightarrow> offset + idx | None \<Rightarrow> byte_len src),
                   loose = True\<rparr>)"

definition line_range :: "nat \<times> nat \<Rightarrow> string \<Rightarrow> DisabledRange" where
  "line_range loc src =
     (let start = (case dropWhile (\<lambda>(_, ch). ch \<noteq> newline) (rev (char_indices (byte_take (fst loc) src))) of
                     [] \<Rightarrow> 0 | (idx, _) # _ \<Rightarrow> idx);
          end_offset = snd loc;
          next_newline = (case dropWhile (\<lambda>(_, ch). ch \<noteq> newline) (char_indices (byte_drop end_offset src)) of
                            [] \<Rightarrow> 0 | (idx, _) # _ \<Rightarrow> idx)
      in \<lparr>dr_start = start, dr_end = end_offset + next_newline, loose = False\<rparr>)"

definition next_line_range :: "nat \<times> nat \<Rightarrow> string \<Rightarrow> DisabledRange option" where
  "next_line_range loc src =
     (let offset = snd loc
      in case drop 1 (dropWhile (\<lambda>(_, ch). ch \<noteq> newline) (char_indices (byte_drop offset src))) of
           [] \<Rightarrow> None
         | (start, _) # rest \<Rightarrow>
             Some \<lparr>dr_start = start + offset,
                   dr_end = (case find (\<lambda>(_, ch). ch = newline) rest of
                               Some (idx, _) \<Rightarrow> offset + idx + 1 | None \<Rightarrow> byte_len src),
                   loose = False\<rparr>)"

fun config_step ::
    "string \<Rightarrow> (nat \<times> nat) \<times> InlineConfigItem \<Rightarrow> DisabledRange list \<times> nat option \<times> nat \<Rightarrow> DisabledRange list \<times> nat option \<times> nat" where
  "config_step src (loc, DisableNextItem) (ranges, start, depth) =
     ((case next_item_range loc src of None \<Rightarrow> ranges | Some r \<Rightarrow> ranges @ [r]), start, depth)"
| "config_step src (loc, DisableLine) (ranges, start, depth) = (ranges @ [line_range loc src], start, depth)"
| "config_step src (loc, DisableNextLine) (ranges, start, depth) =
     ((case next_line_range loc src of None \<Rightarrow> ranges | Some r \<Rightarrow> ranges @ [r]), start, depth)"
| "config_step src (loc, DisableStart) (ranges, start, depth) =
     (ranges, (if depth = 0 then Some (snd loc) else start), depth + 1)"
| "config_step src (loc, DisableEnd) (ranges, start, depth) =
     (let depth' = depth - 1
      in if depth' = 0
         then case start of
                Some a \<Rightarrow> (ranges @ [\<lparr>dr_start = a, dr_end = fst loc, loose = False\<rparr>], None, depth')
              | None \<Rightarrow> (ranges, None, depth')
         else (ranges, start, depth'))"

definition InlineConfig_new :: "((nat \<times> nat) \<times> InlineConfigItem) list \<Rightarrow> string \<Rightarrow> DisabledRange list" where
  "InlineConfig_new items src =
     (let (ranges, start, depth) = fold (config_step src) (sort_key (\<lambda>(loc, _). fst loc) items) ([], None, 0)
      in case start of
           Some a \<Rightarrow> ranges @ [\<lparr>dr_start = a, dr_end = byte_len src, loose = False\<rparr>]
         | None \<Rightarrow> ranges)"

definition is_disabled :: "DisabledRange list \<Rightarrow> nat \<times> nat \<Rightarrow> bool" where
  "is_disabled ranges loc = list_ex (range_includes loc) ranges"

text \<open>
  What the items mean: how many \<^verbatim>\<open>disable-start\<close> are open, and the range an item disables by
  itself.
\<close>

fun depth_step :: "(nat \<times> nat) \<times> InlineConfigItem \<Rightarrow> nat \<Rightarrow> nat" where
  "depth_step (_, DisableStart) d = d + 1"
| "depth_step (_, DisableEnd) d = d - 1"
| "depth_step _ d = d"

fun own_range :: "string \<Rightarrow> (nat \<times> nat) \<times> InlineConfigItem \<Rightarrow> DisabledRange option" where
  "own_range src (loc, DisableNextItem) = next_item_range loc src"
| "own_range src (loc, DisableLine) = Some (line_range loc src)"
| "own_range src (loc, DisableNextLine) = next_line_range loc src"
| "own_range src (_, DisableStart) = None"
| "own_range src (_, DisableEnd) = None"

definition own_disabled :: "string \<Rightarrow> nat \<times> nat \<Rightarrow> ((nat \<times> nat) \<times> InlineConfigItem) list \<Rightarrow> bool" where
  "own_disabled src loc items = list_ex (\<lambda>it. case own_range src it of Some r \<Rightarrow> range_includes loc r | None \<Rightarrow> False) items"

lemma is_disabled_simps [simp]:
  "is_disabled [] loc = False" "is_disabled (r # rs) loc = (range_includes loc r \<or> is_disabled rs loc)"
  "is_disabled (rs @ rs') loc = (is_disabled rs loc \<or> is_disabled rs' loc)"
  by (auto simp: is_disabled_def)

lemma own_disabled_simps [simp]:
  "own_disabled src loc [] = False"
  "own_disabled src loc (it # items) = ((case own_range src it of Some r \<Rightarrow> range_includes loc r | None \<Rightarrow> False) \<or> own_disabled src loc items)"
  "own_disabled src loc (items @ items') = (own_disabled src loc items \<or> own_disabled src loc items')"
  by (simp_all add: own_disabled_def)

lemma own_disabled_sort [simp]: "own_disabled src loc (sort_key f items) = own_disabled src loc items"
  by (simp add: own_disabled_def list_ex_iff)

text \<open>The items before a location determine how many blocks are open there.\<close>

lemma config_before:
  assumes "\<forall>(l, _) \<in> set items. fst l < snd l \<and> snd l \<le> s" "s \<le> e"
    and "start = None \<longleftrightarrow> depth = 0" "\<And>a. start = Some a \<Longrightarrow> a \<le> s"
    and "fold (config_step src) items (ranges, start, depth) = (ranges', start', depth')"
  shows "depth' = fold depth_step items depth" "start' = None \<longleftrightarrow> depth' = 0" "\<And>a. start' = Some a \<Longrightarrow> a \<le> s"
    and "is_disabled ranges' (s, e) \<longleftrightarrow> is_disabled ranges (s, e) \<or> own_disabled src (s, e) items"
proof -
  have "depth' = fold depth_step items depth \<and> (start' = None \<longleftrightarrow> depth' = 0) \<and> (\<forall>a. start' = Some a \<longrightarrow> a \<le> s) \<and>
    (is_disabled ranges' (s, e) \<longleftrightarrow> is_disabled ranges (s, e) \<or> own_disabled src (s, e) items)"
    using assms
  proof (induction items arbitrary: ranges start depth)
    case (Cons it items)
    obtain l i where it: "it = (l, i)" by (cases it)
    obtain r1 s1 d1 where st: "config_step src it (ranges, start, depth) = (r1, s1, d1)" by (cases "config_step src it (ranges, start, depth)")
    have facts: "d1 = depth_step it depth \<and> (s1 = None \<longleftrightarrow> d1 = 0) \<and> (\<forall>a. s1 = Some a \<longrightarrow> a \<le> s) \<and>
      (is_disabled r1 (s, e) \<longleftrightarrow> is_disabled ranges (s, e) \<or> own_disabled src (s, e) [it])"
      using Cons.prems it st
      by (cases i) (auto simp: range_includes_def Let_def split: option.splits if_splits)
    from Cons.IH [of s1 d1 r1] Cons.prems facts st show ?case by auto
  qed auto
  then show "depth' = fold depth_step items depth" "start' = None \<longleftrightarrow> depth' = 0" "\<And>a. start' = Some a \<Longrightarrow> a \<le> s"
    and "is_disabled ranges' (s, e) \<longleftrightarrow> is_disabled ranges (s, e) \<or> own_disabled src (s, e) items" by blast+
qed

lemma config_after:
  assumes "\<forall>(l, _) \<in> set items. fst l < snd l \<and> e \<le> fst l" "s \<le> e"
    and "start = None \<longleftrightarrow> depth = 0"
    and "fold (config_step src) items (ranges, start, depth) = (ranges', start', depth')"
  shows "is_disabled ranges' (s, e) \<or> (\<exists>a. start' = Some a \<and> a \<le> s) \<longleftrightarrow>
    is_disabled ranges (s, e) \<or> own_disabled src (s, e) items \<or> (\<exists>a. start = Some a \<and> a \<le> s)"
  using assms
proof (induction items arbitrary: ranges start depth)
  case (Cons it items)
  obtain l i where it: "it = (l, i)" by (cases it)
  obtain r1 s1 d1 where st: "config_step src it (ranges, start, depth) = (r1, s1, d1)" by (cases "config_step src it (ranges, start, depth)")
  have facts: "(s1 = None \<longleftrightarrow> d1 = 0) \<and>
    (is_disabled r1 (s, e) \<or> (\<exists>a. s1 = Some a \<and> a \<le> s) \<longleftrightarrow>
     is_disabled ranges (s, e) \<or> own_disabled src (s, e) [it] \<or> (\<exists>a. start = Some a \<and> a \<le> s))"
    using Cons.prems it st
    by (cases i) (auto simp: range_includes_def Let_def split: option.splits if_splits)
  from Cons.IH [of s1 d1 r1] Cons.prems facts st show ?case by auto
qed auto

lemma sorted_split:
  assumes "sorted (map f xs)" "\<forall>x \<in> set xs. P x \<longleftrightarrow> f x < (k :: nat)"
  shows "xs = filter P xs @ filter (\<lambda>x. \<not> P x) xs"
  using assms
proof (induction xs)
  case (Cons x xs)
  show ?case
  proof (cases "P x")
    case False
    then have "filter P (x # xs) = []" using Cons.prems by (fastforce simp: filter_empty_conv)
    moreover from this have "filter (\<lambda>x. \<not> P x) (x # xs) = x # xs" by (metis filter_True filter_empty_conv)
    ultimately show ?thesis by simp
  qed (use Cons in simp)
qed simp

text \<open>
  On a last line without a newline, \<^verbatim>\<open>disable-line\<close> ends at the end of its own comment: the code
  behind the comment stays enabled.
\<close>

lemma char_indices_newline:
  "newline \<notin> set s \<Longrightarrow> dropWhile (\<lambda>(_, ch). ch \<noteq> newline) (char_indices_from i s) = []"
  by (induction s arbitrary: i) auto

lemma line_range_last_line:
  "newline \<notin> set (byte_drop (snd loc) src) \<Longrightarrow> dr_end (line_range loc src) = snd loc"
  by (simp add: line_range_def char_indices_def char_indices_newline)



end
