(* ===== verification/Fmt_Buffer.thy ===== *)
theory Fmt_Buffer
  imports Fmt_Strings
begin

text \<open>
  The format buffer (\<^verbatim>\<open>fmt/src/buffer.rs\<close>): the writer that indents lines and keeps track of
  comments and string literals, so that the lines of a literal stay as they are. The
  underlying writer is a \<^verbatim>\<open>String\<close>, as in the temporary buffers of the formatter; its own
  writes do not fail. Lengths are unbounded, except where \<^verbatim>\<open>dedent\<close> subtracts.
\<close>

record IndentGroup =
  skip_line :: bool

datatype WriteState = LineStart CommentState | WriteTokens CommentState | WriteString char

fun ws_comment_state :: "WriteState \<Rightarrow> CommentState" where
  "ws_comment_state (LineStart st) = st"
| "ws_comment_state (WriteTokens st) = st"
| "ws_comment_state (WriteString _) = NoComment"

record FormatBuffer =
  fb_w :: string
  indents :: "IndentGroup list"
  base_indent_len :: nat
  tab_width :: nat
  last_char :: "char option"
  current_line_len :: nat
  restrict_to_single_line :: bool
  write_state :: WriteState

datatype FmtResult = FmtOk | FmtError

definition FormatBuffer_new :: "string \<Rightarrow> nat \<Rightarrow> FormatBuffer" where
  "FormatBuffer_new out width =
     \<lparr>fb_w = out, indents = [], base_indent_len = 0, tab_width = width, last_char = None, current_line_len = 0,
      restrict_to_single_line = False, write_state = LineStart NoComment\<rparr>"

definition level :: "FormatBuffer \<Rightarrow> nat" where
  "level b = length (filter (\<lambda>i. \<not> skip_line i) (indents b))"

definition current_indent_len :: "FormatBuffer \<Rightarrow> nat" where
  "current_indent_len b = level b * tab_width b"

definition total_indent_len :: "FormatBuffer \<Rightarrow> nat" where
  "total_indent_len b = current_indent_len b + base_indent_len b"

definition create_temp_buf :: "FormatBuffer \<Rightarrow> FormatBuffer" where
  "create_temp_buf b =
     (FormatBuffer_new [] (tab_width b))
       \<lparr>base_indent_len := total_indent_len b, current_line_len := current_line_len b, last_char := last_char b,
        restrict_to_single_line := restrict_to_single_line b,
        write_state := (case write_state b of
           WriteTokens st \<Rightarrow> LineStart st | LineStart st \<Rightarrow> LineStart st | WriteString ch \<Rightarrow> WriteString ch)\<rparr>"

definition set_restrict_to_single_line :: "bool \<Rightarrow> FormatBuffer \<Rightarrow> FormatBuffer" where
  "set_restrict_to_single_line restricted b = b\<lparr>restrict_to_single_line := restricted\<rparr>"

definition indent :: "nat \<Rightarrow> FormatBuffer \<Rightarrow> FormatBuffer" where
  "indent delta b = b\<lparr>indents := indents b @ replicate delta \<lparr>skip_line = False\<rparr>\<rparr>"

text \<open>
  The subtraction of \<^verbatim>\<open>dedent\<close> wraps around, and truncating to a length above the current one
  keeps the list.
\<close>

definition dedent :: "nat \<Rightarrow> FormatBuffer \<Rightarrow> FormatBuffer" where
  "dedent delta b =
     (if delta \<le> length (indents b) then b\<lparr>indents := take (length (indents b) - delta) (indents b)\<rparr> else b)"

definition last_indent_group_skipped :: "FormatBuffer \<Rightarrow> bool" where
  "last_indent_group_skipped b = (if indents b = [] then False else skip_line (last (indents b)))"

definition set_last_indent_group_skipped :: "bool \<Rightarrow> FormatBuffer \<Rightarrow> FormatBuffer" where
  "set_last_indent_group_skipped skip b =
     (if indents b = [] then b
      else b\<lparr>indents := butlast (indents b) @ [(last (indents b))\<lparr>skip_line := skip\<rparr>]\<rparr>)"

definition is_beginning_of_line :: "FormatBuffer \<Rightarrow> bool" where
  "is_beginning_of_line b = (case write_state b of LineStart _ \<Rightarrow> True | _ \<Rightarrow> False)"

definition start_group :: "FormatBuffer \<Rightarrow> FormatBuffer" where
  "start_group b = b\<lparr>indents := indents b @ [\<lparr>skip_line = True\<rparr>]\<rparr>"

definition end_group :: "FormatBuffer \<Rightarrow> FormatBuffer" where
  "end_group b = b\<lparr>indents := butlast (indents b)\<rparr>"

definition end_line_comment :: "CommentState \<Rightarrow> CommentState" where
  "end_line_comment st = (if st = LineComment then NoComment else st)"

definition handle_newline :: "CommentState \<Rightarrow> FormatBuffer \<Rightarrow> FormatBuffer" where
  "handle_newline st b =
     (set_last_indent_group_skipped False (b\<lparr>current_line_len := 0\<rparr>))
       \<lparr>last_char := Some newline, write_state := LineStart (end_line_comment st)\<rparr>"

definition next_back :: "string \<Rightarrow> char option" where
  "next_back s = (if s = [] then None else Some (last s))"

definition put :: "string \<Rightarrow> FormatBuffer \<Rightarrow> FormatBuffer" where
  "put s b = b\<lparr>fb_w := fb_w b @ s\<rparr>"

subsection \<open>Writing raw lines\<close>

definition raw_line_start :: "nat \<Rightarrow> CommentState \<Rightarrow> string \<Rightarrow> CommentState \<times> nat" where
  "raw_line_start base st line =
     (let blanks = takeWhile (\<lambda>(_, _, ch). is_whitespace ch) (take base (comment_states_from st 0 line))
      in if blanks = [] then (st, 0) else (case last blanks of (st', idx, _) \<Rightarrow> (st', idx + 1)))"

fun raw_lines :: "bool \<Rightarrow> string list \<Rightarrow> CommentState \<Rightarrow> FormatBuffer \<Rightarrow> (FormatBuffer \<times> FmtResult) rust" where
  "raw_lines ends_newline [] st b = Ret (b, FmtOk)"
| "raw_lines ends_newline (line # lines) st b =
     (let (st', line_start) = raw_line_start (base_indent_len b) st line
      in rbind (str_from line_start line) (\<lambda>trimmed.
           let b1 = (if trimmed = [] then b
                     else (put trimmed b)\<lparr>current_line_len := current_line_len b + byte_len trimmed,
                            last_char := next_back trimmed, write_state := WriteTokens st'\<rparr>)
           in if lines \<noteq> [] \<or> ends_newline then
                if restrict_to_single_line b1 then Ret (b1, FmtError)
                else raw_lines ends_newline lines st' (handle_newline st' (put [newline] b1))
              else raw_lines ends_newline lines st' b1))"

definition write_raw :: "string \<Rightarrow> FormatBuffer \<Rightarrow> (FormatBuffer \<times> FmtResult) rust" where
  "write_raw s b = raw_lines (s \<noteq> [] \<and> last s = newline) (str_lines s) (ws_comment_state (write_state b)) b"

subsection \<open>Writing with indentation\<close>

definition spaces :: "nat \<Rightarrow> string" where
  "spaces n = replicate n CHR '' ''"

text \<open>
  The scan for the next newline or opening quote. It yields the offset and the next state,
  or \<^const>\<open>None\<close> at a newline in a buffer restricted to one line.
\<close>

fun scan_tokens :: "bool \<Rightarrow> nat \<Rightarrow> WriteState \<Rightarrow> (CommentState \<times> nat \<times> char) list \<Rightarrow> (nat \<times> WriteState) option" where
  "scan_tokens restricted len new_state [] = Some (len, new_state)"
| "scan_tokens restricted len new_state ((st, idx, ch) # rest) =
     (if ch = newline then (if restricted then None else Some (idx, LineStart st))
      else if st = NoComment \<and> (ch = CHR 0x27 \<or> ch = CHR 0x22) then Some (idx, WriteString ch)
      else scan_tokens restricted idx (WriteTokens st) rest)"

fun rsplit_newline :: "string \<Rightarrow> string option" where
  "rsplit_newline [] = None"
| "rsplit_newline (c # cs) =
     (case rsplit_newline cs of Some r \<Rightarrow> Some r | None \<Rightarrow> if c = newline then Some cs else None)"

fun ws_rank :: "WriteState \<Rightarrow> nat" where
  "ws_rank (LineStart _) = 1"
| "ws_rank _ = 0"

lemma length_byte_drop: "length (byte_drop n s) \<le> length s"
  by (induction n s rule: byte_drop.induct) auto

lemma length_byte_drop_Suc: "s \<noteq> [] \<Longrightarrow> length (byte_drop (n + 1) s) < length s"
  by (cases s) (auto simp: length_byte_drop le_imp_less_Suc)

function write_loop :: "string \<Rightarrow> string \<Rightarrow> FormatBuffer \<Rightarrow> FormatBuffer \<times> FmtResult" where
  "write_loop ind s b =
     (case write_state b of
        LineStart st \<Rightarrow>
          (case position (\<lambda>c. c \<noteq> newline) s of
             None \<Rightarrow> (if s = [] then b else handle_newline st (put s b), FmtOk)
           | Some len \<Rightarrow>
               (let b1 = (put ind (put (take len s) b))\<lparr>current_line_len := 0, last_char := Some CHR '' ''\<rparr>;
                    skipped = (0 < len \<and> last_indent_group_skipped b1)
                in write_loop (if skipped then spaces (current_indent_len b1 + tab_width b1) else ind) (drop len s)
                     ((if skipped then set_last_indent_group_skipped False b1 else b1)
                        \<lparr>write_state := WriteTokens (if 0 < len then end_line_comment st else st)\<rparr>)))
      | WriteTokens st \<Rightarrow>
          if s = [] then (b, FmtOk)
          else (case scan_tokens (restrict_to_single_line b) 0 (WriteTokens st) (comment_states_from st 0 s) of
             None \<Rightarrow> (b, FmtError)
           | Some (len, WriteTokens st') \<Rightarrow>
               ((put s b)\<lparr>current_line_len := current_line_len b + byte_len s, last_char := next_back s,
                  write_state := WriteTokens st'\<rparr>, FmtOk)
           | Some (len, LineStart st') \<Rightarrow>
               write_loop ind (byte_drop (len + 1) s) (handle_newline st' (put (byte_take (len + 1) s) b))
           | Some (len, WriteString ch) \<Rightarrow>
               (let head = byte_take (len + 1) s
                in write_loop ind (byte_drop (len + 1) s)
                     ((put head b)\<lparr>current_line_len := current_line_len b + byte_len head, last_char := next_back head,
                        write_state := WriteString ch\<rparr>)))
      | WriteString quote \<Rightarrow>
          (case quoted_next (quote_states_from (QuotedString quote) 0 s) of
             None \<Rightarrow>
               ((put s b)\<lparr>current_line_len := current_line_len b + byte_len s, last_char := next_back s\<rparr>, FmtOk)
           | Some ((_, _, len), _) \<Rightarrow>
               (let head = byte_take (len + 1) s;
                    b1 = put head b;
                    b2 = (case rsplit_newline head of
                            Some rest \<Rightarrow> (set_last_indent_group_skipped False b1)\<lparr>current_line_len := byte_len rest\<rparr>
                          | None \<Rightarrow> b1\<lparr>current_line_len := current_line_len b + byte_len head\<rparr>)
                in write_loop ind (byte_drop (len + 1) s)
                     (b2\<lparr>last_char := Some quote, write_state := WriteTokens NoComment\<rparr>))))"
  by pat_completeness auto
termination
proof (relation "measure (\<lambda>(ind, s, b). 2 * length s + ws_rank (write_state b))", goal_cases)
  case (2 ind s b st len)
  then show ?case by simp
next
  case (3 ind s b st p len ws st')
  then show ?case using length_byte_drop_Suc [of s len] by (simp add: handle_newline_def)
next
  case (4 ind s b st p len ws ch)
  then show ?case using length_byte_drop_Suc [of s len] by simp
next
  case (5 ind s b quote p q r l len)
  then have "s \<noteq> []" by auto
  then show ?case using length_byte_drop_Suc [of s] by (simp add: trans_less_add1)
qed simp

declare write_loop.simps [simp del]

definition write_str :: "string \<Rightarrow> FormatBuffer \<Rightarrow> FormatBuffer \<times> FmtResult" where
  "write_str s b = (if s = [] then (b, FmtOk) else write_loop (spaces (current_indent_len b)) s b)"

text \<open>
  What is written, character by character: every non-empty line of code gets the
  indentation, string literals are copied up to their closing quote.
\<close>

function emit :: "string \<Rightarrow> WriteState \<Rightarrow> string \<Rightarrow> string" where
  "emit ind (LineStart st) [] = []"
| "emit ind (LineStart st) (c # cs) =
     (if c = newline then c # emit ind (LineStart (end_line_comment st)) cs else ind @ emit ind (WriteTokens st) (c # cs))"
| "emit ind (WriteTokens st) [] = []"
| "emit ind (WriteTokens st) (c # cs) =
     (let st' = comment_next st c (peek_char cs)
      in if c = newline then c # emit ind (LineStart (end_line_comment st')) cs
         else if st' = NoComment \<and> is_quote c then c # emit ind (WriteString c) cs
         else c # emit ind (WriteTokens st') cs)"
| "emit ind (WriteString q) s =
     (case closed_by q s of None \<Rightarrow> s | Some (body, r) \<Rightarrow> body @ q # emit ind (WriteTokens NoComment) r)"
  by pat_completeness auto
termination
  by (relation "measure (\<lambda>(ind, st, s). 2 * length s + ws_rank st)") (auto dest: closed_by_split)

lemma emit_no_indent: "ind = [] \<Longrightarrow> emit ind st s = s"
proof (induction ind st s rule: emit.induct)
  case (5 ind q s)
  then show ?case by (auto split: option.split dest: closed_by_split)
qed (simp_all add: Let_def)

lemma emit_newlines:
  "emit ind (LineStart st) (replicate n newline @ s) = replicate n newline @ emit ind (LineStart (if 0 < n then end_line_comment st else st)) s"
proof (induction n arbitrary: st)
  case (Suc n)
  then show ?case by (cases n) (auto simp: end_line_comment_def)
qed simp

lemma position_newlines:
  "position (\<lambda>c. c \<noteq> newline) s = Some n \<Longrightarrow>
     \<exists>c r. s = replicate n newline @ c # r \<and> c \<noteq> newline"
  "position (\<lambda>c. c \<noteq> newline) s = None \<Longrightarrow> s = replicate (length s) newline"
proof (induction s arbitrary: n)
  case (Cons c s)
  { case 1
    then show ?case using Cons(1) by (cases "c = newline") (auto split: option.splits) }
  { case 2
    then show ?case using Cons(2) by (cases "c = newline") auto }
qed simp_all

fun scan_result :: "string \<Rightarrow> CommentState \<Rightarrow> nat \<Rightarrow> string \<Rightarrow> nat \<times> WriteState \<Rightarrow> bool" where
  "scan_result ind st i s (len, WriteTokens st') = (emit ind (WriteTokens st) s = s)"
| "scan_result ind st i s (len, LineStart st') =
     (\<exists>p r. s = p @ newline # r \<and> len = i + byte_len p \<and>
        emit ind (WriteTokens st) s = p @ newline # emit ind (LineStart (end_line_comment st')) r)"
| "scan_result ind st i s (len, WriteString q) =
     (\<exists>p r. s = p @ q # r \<and> len = i + byte_len p \<and> is_quote q \<and>
        emit ind (WriteTokens st) s = p @ q # emit ind (WriteString q) r)"

lemma scan_result_Cons:
  assumes "scan_result ind st' (i + len_utf8 c) s res"
    and "emit ind (WriteTokens st) (c # s) = c # emit ind (WriteTokens st') s"
  shows "scan_result ind st i (c # s) res"
  using assms
  by (cases "(ind, st', i + len_utf8 c, s, res)" rule: scan_result.cases) (force intro: exI [of _ "c # p" for p])+

lemma scan_result_first:
  "scan_result ind st i (newline # s) (i, LineStart (comment_next st newline (peek_char s)))"
  "comment_next st q (peek_char s) = NoComment \<Longrightarrow> is_quote q \<Longrightarrow> scan_result ind st i (q # s) (i, WriteString q)"
proof -
  show "scan_result ind st i (newline # s) (i, LineStart (comment_next st newline (peek_char s)))"
    unfolding scan_result.simps by (rule exI [of _ "[]"], rule exI [of _ s]) (simp add: Let_def)
  assume "comment_next st q (peek_char s) = NoComment" "is_quote q"
  then show "scan_result ind st i (q # s) (i, WriteString q)"
    unfolding scan_result.simps by (intro exI [of _ "[]"] exI [of _ s]) (auto simp: Let_def is_quote_def)
qed

lemma scan_tokens_result:
  "\<exists>res. scan_tokens False len0 (WriteTokens st0) (comment_states_from st i s) = Some res \<and> scan_result ind st i s res"
proof (induction s arbitrary: len0 st0 st i)
  case (Cons c s)
  let ?st = "comment_next st c (peek_char s)"
  show ?case
  proof (cases "c = newline \<or> ?st = NoComment \<and> is_quote c")
    case True
    then show ?thesis
      using scan_result_first(1) [of ind st i s] scan_result_first(2) [of st c s ind i]
      by (cases "c = newline") (simp_all add: Let_def is_quote_def)
  next
    case False
    then have e: "emit ind (WriteTokens st) (c # s) = c # emit ind (WriteTokens ?st) s" by (auto simp: Let_def)
    from Cons.IH [of i ?st ?st "i + len_utf8 c"] scan_result_Cons [OF _ e, of i] False show ?thesis
      by (auto simp: Let_def is_quote_def)
  qed
qed simp

lemma quoted_next_inside:
  "closed_by q s = None \<Longrightarrow> quoted_next (quote_states_from (QuotedString q) idx s) = None"
  "closed_by q s = Some (body, r) \<Longrightarrow>
     \<exists>x rest. quoted_next (quote_states_from (QuotedString q) idx s) = Some ((q, x, idx + byte_len body), rest)"
proof -
  have e: "quoted_next (quote_states_from (QuotedString q) idx s) =
    map_option (\<lambda>(i, rest). ((q, idx, i), rest)) (find_closing (quote_states_from (QuotedString q) idx s))"
    by (cases s) (simp_all add: in_quote_next_def)
  show "closed_by q s = None \<Longrightarrow> quoted_next (quote_states_from (QuotedString q) idx s) = None"
    and "closed_by q s = Some (body, r) \<Longrightarrow>
     \<exists>x rest. quoted_next (quote_states_from (QuotedString q) idx s) = Some ((q, x, idx + byte_len body), rest)"
    by (auto simp: e find_closing_inside)
qed

lemma set_last_unskipped [simp]: "\<not> last_indent_group_skipped b \<Longrightarrow> set_last_indent_group_skipped False b = b"
  by (cases "indents b" rule: rev_cases)
     (auto simp: last_indent_group_skipped_def set_last_indent_group_skipped_def)

lemma last_skipped_update [simp]:
  "last_indent_group_skipped (b\<lparr>fb_w := x\<rparr>) = last_indent_group_skipped b"
  "last_indent_group_skipped (b\<lparr>current_line_len := n\<rparr>) = last_indent_group_skipped b"
  "last_indent_group_skipped (b\<lparr>last_char := c\<rparr>) = last_indent_group_skipped b"
  "last_indent_group_skipped (b\<lparr>write_state := st\<rparr>) = last_indent_group_skipped b"
  by (simp_all add: last_indent_group_skipped_def)

lemma len_utf8_newline [simp]: "len_utf8 newline = Suc 0"
  by (simp add: len_utf8_def)

lemma byte_split_at:
  assumes "len_utf8 c = Suc 0"
  shows "byte_take (Suc (byte_len p)) (p @ c # r) = p @ [c]" "byte_drop (Suc (byte_len p)) (p @ c # r) = r"
  using byte_take_append [of "p @ [c]" r] byte_drop_append [of "p @ [c]" r] assms by simp_all

text \<open>
  One round of the loop either ends with the right output or continues with less to write,
  and the output still to come is the same.
\<close>

definition plain_buffer :: "FormatBuffer \<Rightarrow> bool" where
  "plain_buffer b =
     (\<not> restrict_to_single_line b \<and> \<not> last_indent_group_skipped b \<and>
      (case write_state b of WriteString q \<Rightarrow> is_quote q | _ \<Rightarrow> True))"

definition round_ok :: "string \<Rightarrow> string \<Rightarrow> FormatBuffer \<Rightarrow> bool" where
  "round_ok ind s b =
     ((\<exists>b'. write_loop ind s b = (b', FmtOk) \<and> fb_w b' = fb_w b @ emit ind (write_state b) s) \<or>
      (\<exists>s' b'. write_loop ind s b = write_loop ind s' b' \<and> plain_buffer b' \<and>
         2 * length s' + ws_rank (write_state b') < 2 * length s + ws_rank (write_state b) \<and>
         fb_w b' @ emit ind (write_state b') s' = fb_w b @ emit ind (write_state b) s))"

lemma round_okI:
  "write_loop ind s b = (b', FmtOk) \<Longrightarrow> fb_w b' = fb_w b @ emit ind (write_state b) s \<Longrightarrow> round_ok ind s b"
  "write_loop ind s b = write_loop ind s' b' \<Longrightarrow> plain_buffer b' \<Longrightarrow>
     2 * length s' + ws_rank (write_state b') < 2 * length s + ws_rank (write_state b) \<Longrightarrow>
     fb_w b' @ emit ind (write_state b') s' = fb_w b @ emit ind (write_state b) s \<Longrightarrow> round_ok ind s b"
  unfolding round_ok_def by blast+

lemma round_line_start:
  assumes "plain_buffer b" "write_state b = LineStart st"
  shows "round_ok ind s b"
proof (cases "position (\<lambda>c. c \<noteq> newline) s")
  case None
  then have "emit ind (LineStart st) s = s"
    using emit_newlines [of ind st "length s" "[]"] position_newlines(2) [OF None] by simp
  with None assms show ?thesis
    by (intro round_okI(1)) (subst write_loop.simps, auto simp: handle_newline_def put_def plain_buffer_def)
next
  case (Some len)
  then obtain c r where s: "s = replicate len newline @ c # r" "c \<noteq> newline" using position_newlines(1) by blast
  let ?st = "if 0 < len then end_line_comment st else st"
  let ?b = "b\<lparr>fb_w := fb_w b @ replicate len newline @ ind, current_line_len := 0, last_char := Some CHR '' '',
    write_state := WriteTokens ?st\<rparr>"
  have "write_loop ind s b = write_loop ind (c # r) ?b"
    using Some assms s by (subst write_loop.simps) (simp add: put_def Let_def plain_buffer_def)
  moreover have "emit ind (LineStart st) s = replicate len newline @ ind @ emit ind (WriteTokens ?st) (c # r)"
    unfolding s(1) emit_newlines using s(2) by (simp del: emit.simps(4))
  ultimately show ?thesis
    using assms s by (intro round_okI(2) [of ind s b "c # r" ?b]) (auto simp: plain_buffer_def)
qed

lemma round_newline:
  assumes "plain_buffer b" "write_state b = WriteTokens st"
    and scan: "scan_tokens False 0 (WriteTokens st) (comment_states_from st 0 s) = Some (byte_len p, LineStart st')"
    and s: "s = p @ newline # r" "emit ind (WriteTokens st) s = p @ newline # emit ind (LineStart (end_line_comment st')) r"
  shows "round_ok ind s b"
proof (rule round_okI(2))
  let ?b = "handle_newline st' (put (p @ [newline]) b)"
  show "write_loop ind s b = write_loop ind r ?b"
    using scan assms(1,2) s(1) by (subst write_loop.simps) (simp add: byte_split_at plain_buffer_def)
  show "plain_buffer ?b" using assms(1) by (simp add: plain_buffer_def handle_newline_def put_def)
  show "2 * length r + ws_rank (write_state ?b) < 2 * length s + ws_rank (write_state b)"
    and "fb_w ?b @ emit ind (write_state ?b) r = fb_w b @ emit ind (write_state b) s"
    using assms by (simp_all add: handle_newline_def put_def plain_buffer_def)
qed

lemma round_open_quote:
  assumes "plain_buffer b" "write_state b = WriteTokens st" "is_quote q"
    and scan: "scan_tokens False 0 (WriteTokens st) (comment_states_from st 0 s) = Some (byte_len p, WriteString q)"
    and s: "s = p @ q # r" "emit ind (WriteTokens st) s = p @ q # emit ind (WriteString q) r"
  shows "round_ok ind s b"
proof (rule round_okI(2))
  let ?b = "(put (p @ [q]) b)\<lparr>current_line_len := current_line_len b + byte_len (p @ [q]),
    last_char := next_back (p @ [q]), write_state := WriteString q\<rparr>"
  show "write_loop ind s b = write_loop ind r ?b"
    using scan assms(1,2,3) s(1) by (subst write_loop.simps) (simp add: byte_split_at plain_buffer_def Let_def)
  show "plain_buffer ?b" using assms(1,3) by (simp add: plain_buffer_def put_def)
  show "2 * length r + ws_rank (write_state ?b) < 2 * length s + ws_rank (write_state b)"
    and "fb_w ?b @ emit ind (write_state ?b) r = fb_w b @ emit ind (write_state b) s"
    using assms(2) s by (simp_all add: put_def del: emit.simps(5))
qed

lemma round_tokens:
  assumes "plain_buffer b" "write_state b = WriteTokens st"
  shows "round_ok ind s b"
proof (cases "s = []")
  case True
  then show ?thesis using assms by (intro round_okI(1)) (subst write_loop.simps, auto)
next
  case False
  obtain len ws where res: "scan_tokens False 0 (WriteTokens st) (comment_states_from st 0 s) = Some (len, ws)"
    "scan_result ind st 0 s (len, ws)"
    using scan_tokens_result [of 0 st st 0 s ind] by fastforce
  show ?thesis
  proof (cases ws)
    case (LineStart st')
    with res round_newline [OF assms] show ?thesis by (auto simp del: emit.simps)
  next
    case (WriteTokens st')
    with res assms False show ?thesis
      by (intro round_okI(1)) (subst write_loop.simps, auto simp: put_def plain_buffer_def)
  next
    case (WriteString q)
    with res round_open_quote [OF assms] show ?thesis by (auto simp del: emit.simps)
  qed
qed

lemma round_string:
  assumes "plain_buffer b" "write_state b = WriteString q"
  shows "round_ok ind s b"
proof (cases "closed_by q s")
  case None
  then show ?thesis
    using assms(2) quoted_next_inside(1) [OF None, of 0]
    by (intro round_okI(1)) (subst write_loop.simps, auto simp: put_def)
next
  case (Some br)
  then obtain body r where br: "closed_by q s = Some (body, r)" by (cases br) auto
  then have s: "s = body @ q # r" by (rule closed_by_split)
  obtain x rest where next': "quoted_next (quote_states_from (QuotedString q) 0 s) = Some ((q, x, byte_len body), rest)"
    using quoted_next_inside(2) [OF br, of 0] by auto
  have q: "is_quote q" using assms by (simp add: plain_buffer_def)
  have "\<exists>n. write_loop ind s b = write_loop ind r
    (b\<lparr>fb_w := fb_w b @ body @ [q], current_line_len := n, last_char := Some q, write_state := WriteTokens NoComment\<rparr>)"
    using assms next' q
    by (subst write_loop.simps) (simp add: s byte_split_at put_def Let_def plain_buffer_def split: option.split, blast)
  then obtain n where "write_loop ind s b = write_loop ind r
    (b\<lparr>fb_w := fb_w b @ body @ [q], current_line_len := n, last_char := Some q, write_state := WriteTokens NoComment\<rparr>)" ..
  then show ?thesis
    by (rule round_okI(2)) (use assms br s in \<open>auto simp: plain_buffer_def\<close>)
qed

lemma write_loop_emit:
  assumes "plain_buffer b"
  shows "\<exists>b'. write_loop ind s b = (b', FmtOk) \<and> fb_w b' = fb_w b @ emit ind (write_state b) s"
  using assms
proof (induction "2 * length s + ws_rank (write_state b)" arbitrary: s b rule: less_induct)
  case less
  have "round_ok ind s b"
    using round_line_start round_tokens round_string less.prems by (cases "write_state b") blast+
  then show ?case
    using less.hyps unfolding round_ok_def by (elim disjE exE conjE) (simp_all, metis)
qed

lemma current_indent_temp [simp]: "current_indent_len (create_temp_buf b) = 0"
  by (simp add: current_indent_len_def level_def create_temp_buf_def FormatBuffer_new_def)

lemma plain_temp: "plain_buffer b \<Longrightarrow> plain_buffer (create_temp_buf b)"
  by (auto simp: plain_buffer_def create_temp_buf_def FormatBuffer_new_def last_indent_group_skipped_def split: WriteState.splits)

lemma write_str_emit:
  assumes "plain_buffer b"
  obtains b' where "write_str s b = (b', FmtOk)" "fb_w b' = fb_w b @ emit (spaces (current_indent_len b)) (write_state b) s"
proof (cases "s = []")
  case True
  then have "emit (spaces (current_indent_len b)) (write_state b) s = []" by (cases "write_state b") auto
  with True show ?thesis by (intro that [of b]) (auto simp: write_str_def)
next
  case False
  then show ?thesis using that write_loop_emit [OF assms] by (metis write_str_def)
qed

text \<open>
  Three corners of the buffer. The restriction to one line is not enforced at the start of a
  line, the lines after the first of one write do not get the indentation of the group that
  the newline ends the skipping of, and a raw write to an indented temporary buffer panics
  on a leading blank of more than one byte.
\<close>

lemma restricted_newline_written:
  "snd (write_str [newline] (set_restrict_to_single_line True (FormatBuffer_new [] 4))) = FmtOk"
  "fb_w (fst (write_str [newline] (set_restrict_to_single_line True (FormatBuffer_new [] 4)))) = [newline]"
  by code_simp+

lemma group_indent_stale:
  "fb_w (fst (write_str (''a'' @ newline # ''b'') (start_group (FormatBuffer_new [] 2)))) = ''a'' @ newline # ''b''"
  "current_indent_len (fst (write_str (''a'' @ newline # ''b'') (start_group (FormatBuffer_new [] 2)))) = 2"
  by code_simp+

lemma write_raw_wide_blank:
  "write_raw (CHR 0xA0 # ''a'') ((FormatBuffer_new [] 4)\<lparr>base_indent_len := 4\<rparr>) =
     Panic ''byte index is not a char boundary''"
  by code_simp



end
